(* ===== verification/Prelude.thy ===== *)
theory Prelude
  imports Main "HOL-Library.AList" "HOL-Library.Sublist" "HOL-Library.Word" "HOL-Library.Char_ord"
begin

text \<open>
  What every component of the development shares: the named collections of facts, the
  result type of the fallible operations, and the generic lemmas on lists, association
  lists and maps.

  A \<open>HashMap\<close> that the code only looks up, inserts into and removes from is a map
  \<open>'k \<rightharpoonup> 'v\<close>. A \<open>HashMap\<close> that the code also iterates over is an association
  list with distinct keys (\<open>AList.update\<close>, \<open>AList.delete\<close>, \<open>map_of\<close>): the list is
  one of the orders an iteration may have, and no theorem depends on which one.
\<close>

named_theorems text_simps \<open>evaluation of the string operations\<close>
named_theorems actor_simps \<open>unfolding of writer loops and client calls\<close>
named_theorems inv_intros \<open>operations keep the invariants of their component\<close>

type_synonym u32 = "32 word"

section \<open>Lists\<close>

lemma takeWhile_stop [simp]:
  "\<forall>x\<in>set xs. P x \<Longrightarrow> \<not> P y \<Longrightarrow> takeWhile P (xs @ y # ys) = xs"
  by (induction xs) auto

lemma dropWhile_stop [simp]:
  "\<forall>x\<in>set xs. P x \<Longrightarrow> \<not> P y \<Longrightarrow> dropWhile P (xs @ y # ys) = y # ys"
  by (induction xs) auto

lemma dropWhile_hd [simp]: "xs \<noteq> [] \<Longrightarrow> \<not> P (hd xs) \<Longrightarrow> dropWhile P xs = xs"
  by (cases xs) auto

lemma append_eq_prefix_cancel: "xs @ ys = xs @ zs \<longleftrightarrow> ys = zs"
  by simp

section \<open>Association lists as hash maps\<close>

definition al_wf :: "('k \<times> 'v) list \<Rightarrow> bool" where
  "al_wf al \<longleftrightarrow> distinct (map fst al)"

lemma al_wf_Nil [simp, intro]: "al_wf []"
  by (simp add: al_wf_def)

lemma al_wf_update [simp, intro]: "al_wf al \<Longrightarrow> al_wf (AList.update k v al)"
  by (simp add: al_wf_def distinct_update)

lemma al_wf_delete [simp, intro]: "al_wf al \<Longrightarrow> al_wf (AList.delete k al)"
  by (simp add: al_wf_def distinct_delete)

lemma al_wf_filter [simp, intro]: "al_wf al \<Longrightarrow> al_wf (filter P al)"
  unfolding al_wf_def by (induction al) auto

lemma al_wf_map_of: "al_wf al \<Longrightarrow> map_of al k = Some v \<longleftrightarrow> (k, v) \<in> set al"
  by (simp add: al_wf_def)

lemma map_of_update [simp]: "map_of (AList.update k v al) = (map_of al)(k \<mapsto> v)"
  by (simp add: update_conv')

lemma map_of_delete [simp]: "map_of (AList.delete k al) = (map_of al)(k := None)"
  by (simp add: delete_conv')

lemma map_of_retain:
  assumes "al_wf al"
  shows "map_of (filter (\<lambda>(k, v). P k v) al) k =
         (case map_of al k of None \<Rightarrow> None | Some v \<Rightarrow> if P k v then Some v else None)"
  using assms unfolding al_wf_def
proof (induction al)
  case (Cons e al)
  obtain k' v' where e: "e = (k', v')" by (cases e)
  have "k' \<notin> set (map fst al)" using Cons.prems e by simp
  then have "map_of al k' = None" by (simp add: map_of_eq_None_iff)
  then show ?case using Cons e by (auto split: option.splits)
qed simp

lemma set_update_fresh:
  "map_of al k = None \<Longrightarrow> AList.update k v al = al @ [(k, v)]"
  by (induction al) (auto split: if_splits)

lemma al_wf_set_update:
  "al_wf al \<Longrightarrow> set (AList.update k v al) = {e \<in> set al. fst e \<noteq> k} \<union> {(k, v)}"
  unfolding al_wf_def by (induction al) (auto, metis fst_conv image_eqI)

lemma set_delete_al: "set (AList.delete k al) = {e \<in> set al. fst e \<noteq> k}"
  by (induction al) auto

section \<open>Maps\<close>

text \<open>\<open>HashMap::retain\<close>: keep the entries that satisfy the predicate.\<close>

definition map_retain :: "('k \<Rightarrow> 'v \<Rightarrow> bool) \<Rightarrow> ('k \<rightharpoonup> 'v) \<Rightarrow> ('k \<rightharpoonup> 'v)" where
  "map_retain P m = (\<lambda>k. case m k of None \<Rightarrow> None | Some v \<Rightarrow> if P k v then Some v else None)"

lemma map_retain_Some [simp]: "map_retain P m k = Some v \<longleftrightarrow> m k = Some v \<and> P k v"
  by (auto simp: map_retain_def split: option.splits)

lemma map_retain_None: "map_retain P m k = None \<longleftrightarrow> (\<forall>v. m k = Some v \<longrightarrow> \<not> P k v)"
  by (auto simp: map_retain_def split: option.splits)

text \<open>Two maps that are inverse to each other, as the code keeps a forward and a reverse map.\<close>

definition map_inverse :: "('a \<rightharpoonup> 'b) \<Rightarrow> ('b \<rightharpoonup> 'a) \<Rightarrow> bool" where
  "map_inverse f g \<longleftrightarrow> (\<forall>a b. f a = Some b \<longleftrightarrow> g b = Some a)"

lemma map_inverse_empty [simp, intro]: "map_inverse Map.empty Map.empty"
  by (simp add: map_inverse_def)

lemma map_inverse_insert:
  "map_inverse f g \<Longrightarrow> f a = None \<Longrightarrow> g b = None \<Longrightarrow> map_inverse (f(a \<mapsto> b)) (g(b \<mapsto> a))"
  unfolding map_inverse_def by (auto split: if_splits) (metis option.distinct(1))

lemma map_inverse_remove:
  "map_inverse f g \<Longrightarrow> f a = Some b \<Longrightarrow> map_inverse (f(a := None)) (g(b := None))"
  unfolding map_inverse_def by (auto split: if_splits) (metis option.inject)+

lemma map_inverse_rebind:
  "map_inverse f g \<Longrightarrow> f a = Some b \<Longrightarrow> g c = None \<or> c = b \<Longrightarrow>
   map_inverse (f(a \<mapsto> c)) ((g(b := None))(c \<mapsto> a))"
  unfolding map_inverse_def by (auto split: if_splits) (metis option.distinct(1) option.inject)+

lemma map_inverse_sym: "map_inverse f g \<Longrightarrow> map_inverse g f"
  unfolding map_inverse_def by blast

text \<open>A map that is the image of another one under keys that keep its entries apart.\<close>

definition represents :: "('t \<Rightarrow> 'v \<Rightarrow> 'k) \<Rightarrow> ('t \<Rightarrow> 'v \<Rightarrow> 'c) \<Rightarrow> ('t \<rightharpoonup> 'v) \<Rightarrow> ('k \<rightharpoonup> 'c) \<Rightarrow> bool" where
  "represents K C F n \<longleftrightarrow> (\<forall>k c. n k = Some c \<longleftrightarrow> (\<exists>t v. F t = Some v \<and> k = K t v \<and> c = C t v))"

lemma represents_empty [simp, intro]: "represents K C Map.empty Map.empty"
  by (simp add: represents_def)

lemma represents_get: "represents K C F n \<Longrightarrow> n k = Some c \<Longrightarrow> \<exists>t v. F t = Some v \<and> k = K t v \<and> c = C t v"
  by (simp add: represents_def)

lemma represents_has: "represents K C F n \<Longrightarrow> F t = Some v \<Longrightarrow> n (K t v) = Some (C t v)"
  unfolding represents_def by blast

lemma represents_put:
  assumes "represents K C F n" and "F t = None" and "\<And>t' v'. F t' = Some v' \<Longrightarrow> K t' v' \<noteq> K t v"
  shows "represents K C (F(t \<mapsto> v)) (n(K t v \<mapsto> C t v))"
  unfolding represents_def
proof (intro allI)
  fix k c
  have n: "n k = Some c \<longleftrightarrow> (\<exists>t' v'. F t' = Some v' \<and> k = K t' v' \<and> c = C t' v')" for k c
    using assms(1) by (simp add: represents_def)
  show "(n(K t v \<mapsto> C t v)) k = Some c \<longleftrightarrow> (\<exists>t' v'. (F(t \<mapsto> v)) t' = Some v' \<and> k = K t' v' \<and> c = C t' v')"
  proof (cases "k = K t v")
    case True
    have "(\<exists>t' v'. (F(t \<mapsto> v)) t' = Some v' \<and> K t v = K t' v' \<and> c = C t' v') \<longleftrightarrow> c = C t v"
      using assms(3) by (metis fun_upd_apply option.inject)
    then show ?thesis using True by auto
  next
    case False
    have "(\<exists>t' v'. (F(t \<mapsto> v)) t' = Some v' \<and> k = K t' v' \<and> c = C t' v') \<longleftrightarrow> (\<exists>t' v'. F t' = Some v' \<and> k = K t' v' \<and> c = C t' v')"
      using False assms(2) by (metis fun_upd_apply option.distinct(1) option.inject)
    then show ?thesis using False n by simp
  qed
qed

lemma represents_drop:
  assumes "represents K C F n" and "F t = Some v" and "\<And>t' v'. F t' = Some v' \<Longrightarrow> K t' v' = K t v \<Longrightarrow> t' = t"
  shows "represents K C (F(t := None)) (n(K t v := None))"
  unfolding represents_def
proof (intro allI)
  fix k c
  have n: "n k = Some c \<longleftrightarrow> (\<exists>t' v'. F t' = Some v' \<and> k = K t' v' \<and> c = C t' v')" for k c
    using assms(1) by (simp add: represents_def)
  have "(\<exists>t' v'. (F(t := None)) t' = Some v' \<and> k = K t' v' \<and> c = C t' v') \<longleftrightarrow>
      k \<noteq> K t v \<and> (\<exists>t' v'. F t' = Some v' \<and> k = K t' v' \<and> c = C t' v')"
    using assms(2,3) by (metis fun_upd_apply option.distinct(1) option.inject)
  then show "(n(K t v := None)) k = Some c \<longleftrightarrow> (\<exists>t' v'. (F(t := None)) t' = Some v' \<and> k = K t' v' \<and> c = C t' v')"
    using n by auto
qed

lemma represents_replace:
  assumes "represents K C F n" and "F t = Some w" and "\<And>t' v'. F t' = Some v' \<Longrightarrow> K t' v' = K t w \<Longrightarrow> t' = t"
    and "\<And>t' v'. F t' = Some v' \<Longrightarrow> K t' v' = K t v \<Longrightarrow> t' = t"
  shows "represents K C (F(t \<mapsto> v)) ((n(K t w := None))(K t v \<mapsto> C t v))"
proof -
  have "K t' v' \<noteq> K t v" if "(F(t := None)) t' = Some v'" for t' v' using that assms(4) by (auto split: if_splits)
  then have "represents K C ((F(t := None))(t \<mapsto> v)) ((n(K t w := None))(K t v \<mapsto> C t v))"
    by (intro represents_put represents_drop [OF assms(1-3)]) simp_all
  then show ?thesis by simp
qed

section \<open>Machine words\<close>

lemma unat_next:
  fixes x :: "'a::len word"
  assumes "x \<noteq> - 1"
  shows "unat (x + 1) = Suc (unat x)"
proof -
  have "1 + x \<noteq> 0" using assms by (simp add: eq_neg_iff_add_eq_0 add.commute)
  then show ?thesis using unatSuc [of x] by (simp add: add.commute)
qed

lemma word_less_next:
  fixes x :: "'a::len word"
  shows "x \<noteq> - 1 \<Longrightarrow> x < x + 1"
  using unat_next [of x] by (simp add: word_less_nat_alt)

end
