(* ===== verification/Rust_Text.thy ===== *)
theory Rust_Text
  imports Prelude
begin

text \<open>
  The operations of Rust's \<open>str\<close> that the source calls, over \<open>string\<close> (a list of
  characters). The model is of ASCII text: there a byte index of a \<open>str\<close> is an index of
  the list, \<open>char::is_whitespace\<close> is true of the characters 9 to 13 and 32, and
  \<open>to_uppercase\<close> maps a letter to one letter. Slices and searches are written as the
  list functions that compute them.
\<close>

section \<open>Characters\<close>

definition is_whitespace :: "char \<Rightarrow> bool" where
  "is_whitespace c \<longleftrightarrow> (let n = (of_char c :: nat) in (9 \<le> n \<and> n \<le> 13) \<or> n = 32)"

definition to_upper_char :: "char \<Rightarrow> char" where
  "to_upper_char c = (let n = (of_char c :: nat) in if 97 \<le> n \<and> n \<le> 122 then char_of (n - 32) else c)"

definition to_uppercase :: "string \<Rightarrow> string" where
  "to_uppercase s = map to_upper_char s"

definition eq_ignore_ascii_case :: "string \<Rightarrow> string \<Rightarrow> bool" where
  "eq_ignore_ascii_case s t \<longleftrightarrow> to_uppercase s = to_uppercase t"

lemma to_upper_char_idem [simp]: "to_upper_char (to_upper_char c) = to_upper_char c"
  by (auto simp: to_upper_char_def Let_def)

lemma to_uppercase_idem [simp]: "to_uppercase (to_uppercase s) = to_uppercase s"
  by (simp add: to_uppercase_def)

lemma to_uppercase_Nil [simp]: "to_uppercase s = [] \<longleftrightarrow> s = []"
  by (simp add: to_uppercase_def)

lemma eq_ignore_ascii_case_refl [simp, intro]: "eq_ignore_ascii_case s s"
  by (simp add: eq_ignore_ascii_case_def)

section \<open>Trimming and splitting\<close>

definition trim_start :: "string \<Rightarrow> string" where
  "trim_start s = dropWhile is_whitespace s"

definition trim :: "string \<Rightarrow> string" where
  "trim s = rev (dropWhile is_whitespace (rev (trim_start s)))"

definition trim_matches :: "char \<Rightarrow> string \<Rightarrow> string" where
  "trim_matches c s = rev (dropWhile (\<lambda>x. x = c) (rev (dropWhile (\<lambda>x. x = c) s)))"

text \<open>\<open>split_words w s\<close>: the words of \<open>s\<close>, the first of them continuing \<open>w\<close>.\<close>

fun split_words :: "string \<Rightarrow> string \<Rightarrow> string list" where
  "split_words w [] = (if w = [] then [] else [w])"
| "split_words w (c # s) =
     (if is_whitespace c then (if w = [] then split_words [] s else w # split_words [] s)
      else split_words (w @ [c]) s)"

definition split_whitespace :: "string \<Rightarrow> string list" where
  "split_whitespace s = split_words [] s"

definition splitn2 :: "char \<Rightarrow> string \<Rightarrow> string list" where
  "splitn2 d s = (case dropWhile (\<lambda>x. x \<noteq> d) s of
     [] \<Rightarrow> [s] | _ # rest \<Rightarrow> [takeWhile (\<lambda>x. x \<noteq> d) s, rest])"

fun join_with :: "string \<Rightarrow> string list \<Rightarrow> string" where
  "join_with sep [] = []"
| "join_with sep [x] = x"
| "join_with sep (x # y # ys) = x @ sep @ join_with sep (y # ys)"

definition word_text :: "string \<Rightarrow> bool" where
  "word_text w \<longleftrightarrow> w \<noteq> [] \<and> (\<forall>c\<in>set w. \<not> is_whitespace c)"

lemma split_words_prefix:
  "\<forall>c\<in>set u. \<not> is_whitespace c \<Longrightarrow> split_words w (u @ s) = split_words (w @ u) s"
  by (induction u arbitrary: w) auto

lemma split_words_join:
  assumes "\<forall>w\<in>set ws. word_text w"
  shows "split_words [] (join_with [CHR '' ''] ws) = ws"
  using assms
proof (induction "[CHR '' '']" ws rule: join_with.induct)
  case (2 x)
  then show ?case using split_words_prefix [of x "[]" "[]"] by (auto simp: word_text_def)
next
  case (3 x y ys)
  have sp: "is_whitespace CHR '' ''" by (simp add: is_whitespace_def)
  have "\<forall>c\<in>set x. \<not> is_whitespace c" "x \<noteq> []" using 3 by (auto simp: word_text_def)
  then show ?case using 3 sp by (simp add: split_words_prefix)
qed simp

lemma split_whitespace_join:
  "\<forall>w\<in>set ws. word_text w \<Longrightarrow> split_whitespace (join_with [CHR '' ''] ws) = ws"
  by (simp add: split_whitespace_def split_words_join)

lemma split_words_word_text:
  "\<forall>c\<in>set w. \<not> is_whitespace c \<Longrightarrow> \<forall>u\<in>set (split_words w s). word_text u"
proof (induction w s rule: split_words.induct)
  case (1 w)
  then show ?case by (simp add: word_text_def)
next
  case (2 w c s)
  then show ?case by (cases "is_whitespace c"; cases "w = []") (simp_all add: word_text_def)
qed

lemma split_whitespace_word_text: "u \<in> set (split_whitespace s) \<Longrightarrow> word_text u"
  using split_words_word_text [of "[]" s] by (simp add: split_whitespace_def)

lemma split_whitespace_word: "word_text w \<Longrightarrow> split_whitespace w = [w]"
  using split_whitespace_join [of "[w]"] by simp

lemma split_whitespace_pair:
  "word_text u \<Longrightarrow> word_text v \<Longrightarrow> split_whitespace (u @ CHR '' '' # v) = [u, v]"
  using split_whitespace_join [of "[u, v]"] by simp

lemma split_words_nonblank:
  "w \<noteq> [] \<or> (\<exists>c\<in>set s. \<not> is_whitespace c) \<Longrightarrow> split_words w s \<noteq> []"
  by (induction w s rule: split_words.induct) auto

lemma split_words_blank: "\<forall>c\<in>set s. is_whitespace c \<Longrightarrow> split_words [] s = []"
  by (induction s) auto

lemma split_whitespace_Nil_iff: "split_whitespace s = [] \<longleftrightarrow> (\<forall>c\<in>set s. is_whitespace c)"
  unfolding split_whitespace_def using split_words_nonblank [of "[]" s] split_words_blank [of s] by blast

lemma trim_id:
  "s = [] \<or> (\<not> is_whitespace (hd s) \<and> \<not> is_whitespace (last s)) \<Longrightarrow> trim s = s"
  by (cases s rule: rev_cases) (auto simp: trim_def trim_start_def)

lemma word_text_trim: "word_text w \<Longrightarrow> trim w = w"
  by (rule trim_id) (auto simp: word_text_def)

lemma trim_matches_id: "c \<notin> set s \<Longrightarrow> trim_matches c s = s"
proof -
  assume "c \<notin> set s"
  then have d: "dropWhile (\<lambda>x. x = c) t = t" if "set t \<subseteq> set s" for t
    using that by (cases t) auto
  show ?thesis by (simp add: trim_matches_def d)
qed

lemma trim_matches_quoted:
  assumes "c \<notin> set s"
  shows "trim_matches c (c # s @ [c]) = s"
proof -
  have d: "dropWhile (\<lambda>x. x = c) t = t" if "set t \<subseteq> set s" for t
    using that assms by (cases t) auto
  show ?thesis
  proof (cases "s = []")
    case False
    then have "dropWhile (\<lambda>x. x = c) (s @ [c]) = s @ [c]" using assms by (cases s) auto
    then show ?thesis by (simp add: trim_matches_def d)
  qed (simp add: trim_matches_def)
qed

lemma splitn2_found: "d \<notin> set t \<Longrightarrow> splitn2 d (t @ d # s) = [t, s]"
proof -
  assume "d \<notin> set t"
  then have "\<forall>x\<in>set t. x \<noteq> d" by auto
  then show ?thesis by (simp add: splitn2_def)
qed

lemma splitn2_absent: "d \<notin> set s \<Longrightarrow> splitn2 d s = [s]"
proof -
  assume "d \<notin> set s"
  then have "dropWhile (\<lambda>x. x \<noteq> d) s = []" by (auto simp: dropWhile_eq_Nil_conv)
  then show ?thesis unfolding splitn2_def by (simp only: list.case)
qed

lemma splitn2_length: "length (splitn2 d s) \<le> 2"
  by (simp add: splitn2_def split: list.splits)

section \<open>Searching\<close>

text \<open>\<open>str::contains\<close>, \<open>starts_with\<close> and \<open>ends_with\<close> with a string pattern.\<close>

definition contains_str :: "string \<Rightarrow> string \<Rightarrow> bool" where
  "contains_str s p \<longleftrightarrow> sublist p s"

definition starts_with :: "string \<Rightarrow> string \<Rightarrow> bool" where
  "starts_with s p \<longleftrightarrow> prefix p s"

definition ends_with :: "string \<Rightarrow> string \<Rightarrow> bool" where
  "ends_with s p \<longleftrightarrow> suffix p s"

text \<open>\<open>str::find\<close> of a pattern, with the text split at the match: before it, from it on.\<close>

fun find_split :: "string \<Rightarrow> string \<Rightarrow> (string \<times> string) option" where
  "find_split p s = (if prefix p s then Some ([], s)
     else case s of [] \<Rightarrow> None
       | c # s' \<Rightarrow> (case find_split p s' of None \<Rightarrow> None | Some (b, r) \<Rightarrow> Some (c # b, r)))"

declare find_split.simps [simp del]

lemma find_split_Some:
  "find_split p s = Some (b, r) \<Longrightarrow> s = b @ r \<and> prefix p r"
proof (induction p s arbitrary: b r rule: find_split.induct)
  case (1 p s)
  then show ?case
    by (subst (asm) (2) find_split.simps) (auto split: if_splits list.splits option.splits)
qed

lemma find_split_char_absent:
  "c \<notin> set s \<Longrightarrow> find_split [c] s = None"
  by (induction s) (auto simp: find_split.simps)

lemma find_split_absent:
  "p \<noteq> [] \<Longrightarrow> hd p \<notin> set s \<Longrightarrow> find_split p s = None"
proof (induction s)
  case Nil
  then show ?case by (simp add: find_split.simps)
next
  case (Cons a s)
  then show ?case by (subst find_split.simps) (cases p, auto)
qed

lemma find_split_found:
  "p \<noteq> [] \<Longrightarrow> hd p \<notin> set b \<Longrightarrow> prefix p r \<Longrightarrow> find_split p (b @ r) = Some (b, r)"
proof (induction b)
  case Nil
  then show ?case by (simp add: find_split.simps)
next
  case (Cons a b)
  then show ?case by (simp, subst find_split.simps) (cases p, auto)
qed

section \<open>Decimal numbers\<close>

fun show_nat :: "nat \<Rightarrow> string" where
  "show_nat n = (if n < 10 then [char_of (48 + n)] else show_nat (n div 10) @ [char_of (48 + n mod 10)])"

declare show_nat.simps [simp del]

lemma show_nat_nonempty [simp]: "show_nat n \<noteq> []"
  by (subst show_nat.simps) simp

lemmas [text_simps] = to_uppercase_def to_upper_char_def is_whitespace_def split_whitespace_def
  trim_def trim_start_def trim_matches_def splitn2_def eq_ignore_ascii_case_def
  contains_str_def starts_with_def ends_with_def

section \<open>Numbers\<close>

text \<open>The decimal text of a number, as \<open>{}\<close> prints it.\<close>

fun nat_text :: "nat \<Rightarrow> string" where
  "nat_text n = (if n < 10 then [char_of (48 + n)] else nat_text (n div 10) @ [char_of (48 + n mod 10)])"

declare nat_text.simps [simp del]

end
