(* ===== verification/Core_Types.thy ===== *)
theory Core_Types
  imports Rust_Text
begin

text \<open>
  The types of src/types.rs and src/error.rs. A \<open>Result<T>\<close> is the sum \<open>error + 'a\<close>, with
  \<open>Err\<close> and \<open>Ok\<close> naming its two sides. A \<open>Uuid\<close> is its text form, a date of the
  chrono crate an integer that is only stored, and a JSON payload a type parameter.
\<close>

type_synonym uuid = string
type_synonym datetime = int
type_synonym uid = u32
type_synonym bytes = "8 word list"

section \<open>Errors\<close>

datatype error =
    Io string
  | Database string
  | IndexError string
  | AuthenticationFailed string
  | AuthorizationFailed string
  | InvalidMailbox string
  | MailboxExists string
  | MailboxNotFound string
  | InvalidMessage string
  | ProtocolError string
  | NotFound string
  | AlreadyExists string
  | InvalidState string
  | QueueError string
  | TlsError string
  | Internal string

type_synonym 'a result = "error + 'a"

abbreviation Err :: "error \<Rightarrow> 'a result" where "Err \<equiv> Inl"
abbreviation Ok :: "'a \<Rightarrow> 'a result" where "Ok \<equiv> Inr"

text \<open>The \<open>Display\<close> texts that the \<open>#[error]\<close> attributes give.\<close>

fun error_display :: "error \<Rightarrow> string" where
  "error_display (Io m) = ''IO error: '' @ m"
| "error_display (Database m) = ''Database error: '' @ m"
| "error_display (IndexError m) = ''Index error: '' @ m"
| "error_display (AuthenticationFailed m) = ''Authentication failed: '' @ m"
| "error_display (AuthorizationFailed m) = ''Authorization failed: '' @ m"
| "error_display (InvalidMailbox m) = ''Invalid mailbox: '' @ m"
| "error_display (MailboxExists m) = ''Mailbox already exists: '' @ m"
| "error_display (MailboxNotFound m) = ''Mailbox not found: '' @ m"
| "error_display (InvalidMessage m) = ''Invalid message: '' @ m"
| "error_display (ProtocolError m) = ''Protocol error: '' @ m"
| "error_display (NotFound m) = ''Not found: '' @ m"
| "error_display (AlreadyExists m) = ''Already exists: '' @ m"
| "error_display (InvalidState m) = ''Invalid state: '' @ m"
| "error_display (QueueError m) = ''Queue error: '' @ m"
| "error_display (TlsError m) = ''TLS error: '' @ m"
| "error_display (Internal m) = ''Internal error: '' @ m"

text \<open>The conversions that \<open>?\<close> applies to the errors of the two crates, given by their text.\<close>

definition from_rusqlite :: "string \<Rightarrow> error" where
  [simp]: "from_rusqlite err = Database err"

definition from_tantivy :: "string \<Rightarrow> error" where
  [simp]: "from_tantivy err = IndexError err"

section \<open>Message flags\<close>

datatype message_flag =
    Seen | Answered | Flagged | Deleted | Draft | Recent | Custom string

fun to_imap_string :: "message_flag \<Rightarrow> string" where
  "to_imap_string Seen = CHR 0x5C # ''Seen''"
| "to_imap_string Answered = CHR 0x5C # ''Answered''"
| "to_imap_string Flagged = CHR 0x5C # ''Flagged''"
| "to_imap_string Deleted = CHR 0x5C # ''Deleted''"
| "to_imap_string Draft = CHR 0x5C # ''Draft''"
| "to_imap_string Recent = CHR 0x5C # ''Recent''"
| "to_imap_string (Custom s) = s"

definition from_imap_string :: "string \<Rightarrow> message_flag" where
  "from_imap_string s =
     (if s = CHR 0x5C # ''Seen'' then Seen
      else if s = CHR 0x5C # ''Answered'' then Answered
      else if s = CHR 0x5C # ''Flagged'' then Flagged
      else if s = CHR 0x5C # ''Deleted'' then Deleted
      else if s = CHR 0x5C # ''Draft'' then Draft
      else if s = CHR 0x5C # ''Recent'' then Recent
      else Custom s)"

text \<open>A flag in the form the parser produces: a custom flag does not spell a system flag.\<close>

definition system_flag_names :: "string list" where
  "system_flag_names = map to_imap_string [Seen, Answered, Flagged, Deleted, Draft, Recent]"

fun flag_canonical :: "message_flag \<Rightarrow> bool" where
  "flag_canonical (Custom s) = (s \<notin> set system_flag_names)"
| "flag_canonical f = True"

lemma to_from_imap_string [simp]: "to_imap_string (from_imap_string s) = s"
  by (simp add: from_imap_string_def)

lemma from_imap_string_canonical [simp, intro]: "flag_canonical (from_imap_string s)"
  by (simp add: from_imap_string_def system_flag_names_def)

lemma from_to_imap_string: "flag_canonical f \<Longrightarrow> from_imap_string (to_imap_string f) = f"
  by (cases f) (auto simp: from_imap_string_def system_flag_names_def)

section \<open>Identifiers, users, tasks and queries\<close>

datatype message_id = MessageId uuid

record mailbox_id =
  id_username :: string
  id_name :: string

text \<open>\<open>MessageId::new\<close>; the fresh identifier comes from the environment.\<close>

definition message_id_new :: "uuid \<Rightarrow> message_id" where
  "message_id_new u = MessageId u"

record message =
  msg_id :: message_id
  msg_uid :: uid
  msg_mailbox :: string
  msg_flags :: "message_flag list"
  msg_internal_date :: datetime
  msg_size :: nat
  msg_raw_content :: bytes

text \<open>The mailbox information of the tantivy index.\<close>

record mailbox =
  mbx_name :: string
  mbx_uid_validity :: u32
  mbx_uid_next :: uid
  mbx_flags :: "message_flag list"
  mbx_permanent_flags :: "message_flag list"
  mbx_message_count :: nat
  mbx_recent_count :: nat
  mbx_unseen_count :: nat

record credentials =
  cred_username :: string
  cred_password :: string

record user =
  user_name :: string
  user_password_hash :: string
  user_created_at :: datetime

datatype task_type = UidCompaction | IndexUpdate | Expunge | CustomTask string

record 'j queue_task =
  task_id :: uuid
  task_type :: task_type
  task_created_at :: datetime
  task_payload :: 'j

text \<open>\<open>QueueTask::new\<close>; the fresh identifier and the clock come from the environment.\<close>

definition queue_task_new :: "uuid \<Rightarrow> datetime \<Rightarrow> task_type \<Rightarrow> 'j \<Rightarrow> 'j queue_task" where
  "queue_task_new u now ty payload =
     \<lparr>task_id = u, task_type = ty, task_created_at = now, task_payload = payload\<rparr>"

datatype search_query =
    SQ_All
  | SQ_Text string
  | SQ_From string
  | SQ_To string
  | SQ_Subject string
  | SQ_Body string
  | SQ_Uid "uid list"
  | SQ_Sequence "u32 list"
  | SQ_Seen
  | SQ_Unseen
  | SQ_Flagged
  | SQ_Unflagged
  | SQ_Deleted
  | SQ_Undeleted
  | SQ_And search_query search_query
  | SQ_Or search_query search_query
  | SQ_Not search_query

text \<open>src/index/mod.rs: the metadata the index keeps of a message.\<close>

record indexed_message =
  im_id :: message_id
  im_uid :: uid
  im_mailbox :: string
  im_flags :: "message_flag list"
  im_internal_date :: datetime
  im_size :: nat
  im_from :: string
  im_to :: string
  im_subject :: string
  im_body_preview :: string

end
