(* ===== verification/Writer_Loop.thy ===== *)
theory Writer_Loop
  imports Core_Types
begin

text \<open>
  The pattern that every stateful component of the source follows: a task owns the state
  and runs \<open>while let Some(cmd) = rx.recv().await { match cmd { ... } }\<close>, a client sends a
  command with a oneshot reply sender and awaits the reply. A loop is described by the
  function \<open>ex\<close> that executes one command (the body of its \<open>match\<close>) and by the
  predicate \<open>stops\<close> of the commands whose branch ends in \<open>break\<close>. The commands are the
  ones the receiver yields, in that order; the channel itself is not modelled.
\<close>

record 's actor =
  alive :: bool
  state :: 's

text \<open>
  A run over the commands received: the loop's state afterwards, whether it still runs, and
  the replies. The commands behind one that stops the loop are dropped with their reply
  senders, so \<open>run_loop\<close> may give fewer replies than there are commands.
\<close>

fun run_loop :: "('s \<Rightarrow> 'c \<Rightarrow> 's \<times> 'r) \<Rightarrow> ('c \<Rightarrow> bool) \<Rightarrow> 's \<Rightarrow> 'c list \<Rightarrow> 's actor \<times> 'r list" where
  "run_loop ex stops s [] = (\<lparr>alive = True, state = s\<rparr>, [])"
| "run_loop ex stops s (c # cs) =
     (case ex s c of (s', r) \<Rightarrow>
        if stops c then (\<lparr>alive = False, state = s'\<rparr>, [r])
        else (case run_loop ex stops s' cs of (a, rs) \<Rightarrow> (a, r # rs)))"

text \<open>
  What a client sees of one call: the send fails once the loop has ended; the reply sender
  is dropped when the loop ends on a command ahead of this one; otherwise the reply arrives.
\<close>

datatype 'r outcome = Send_Failed | Reply_Dropped | Replied 'r

text \<open>
  A call with the commands \<open>pending\<close> of other clients received ahead of it.
\<close>

definition client_call ::
  "('s \<Rightarrow> 'c \<Rightarrow> 's \<times> 'r) \<Rightarrow> ('c \<Rightarrow> bool) \<Rightarrow> 's actor \<Rightarrow> 'c list \<Rightarrow> 'c \<Rightarrow> 's actor \<times> 'r outcome" where
  "client_call ex stops a pending c =
     (if \<not> alive a then (a, Send_Failed)
      else case run_loop ex stops (state a) pending of (a', _) \<Rightarrow>
        if \<not> alive a' then (a', Reply_Dropped)
        else case ex (state a') c of (s', r) \<Rightarrow> (\<lparr>alive = \<not> stops c, state = s'\<rparr>, Replied r))"

text \<open>
  The rest of a client method: the two \<open>map_err\<close> of the send and of the awaited reply, then
  the \<open>?\<close> that passes on what the loop answered.
\<close>

fun await_reply :: "error \<Rightarrow> error \<Rightarrow> ('r \<Rightarrow> 'a result) \<Rightarrow> 'r outcome \<Rightarrow> 'a result" where
  "await_reply unsent dropped f Send_Failed = Err unsent"
| "await_reply unsent dropped f Reply_Dropped = Err dropped"
| "await_reply unsent dropped f (Replied r) = f r"

definition client_op ::
  "('s \<Rightarrow> 'c \<Rightarrow> 's \<times> 'r) \<Rightarrow> ('c \<Rightarrow> bool) \<Rightarrow> error \<Rightarrow> error \<Rightarrow> ('r \<Rightarrow> 'a result) \<Rightarrow>
   'c list \<Rightarrow> 'c \<Rightarrow> 's actor \<Rightarrow> 's actor \<times> 'a result" where
  "client_op ex stops unsent dropped f pending c a =
     (case client_call ex stops a pending c of (a', out) \<Rightarrow> (a', await_reply unsent dropped f out))"

section \<open>Facts about every loop\<close>

lemma run_loop_Cons_fst:
  "fst (run_loop ex stops s (c # cs)) =
     (if stops c then \<lparr>alive = False, state = fst (ex s c)\<rparr> else fst (run_loop ex stops (fst (ex s c)) cs))"
  by (simp split: prod.splits)

lemma run_loop_Cons_snd:
  "snd (run_loop ex stops s (c # cs)) =
     (if stops c then [snd (ex s c)] else snd (ex s c) # snd (run_loop ex stops (fst (ex s c)) cs))"
  by (simp split: prod.splits)

lemma run_loop_replies_bound: "length (snd (run_loop ex stops s cs)) \<le> length cs"
  by (induction cs arbitrary: s) (auto split: prod.splits, metis snd_conv)

lemma run_loop_no_stop:
  "\<forall>c\<in>set cs. \<not> stops c \<Longrightarrow>
   alive (fst (run_loop ex stops s cs)) \<and>
   state (fst (run_loop ex stops s cs)) = foldl (\<lambda>s c. fst (ex s c)) s cs \<and>
   length (snd (run_loop ex stops s cs)) = length cs"
  by (induction cs arbitrary: s) (simp_all add: run_loop_Cons_fst run_loop_Cons_snd del: run_loop.simps(2))

lemma run_loop_append_alive:
  "alive (fst (run_loop ex stops s cs)) \<Longrightarrow>
   run_loop ex stops s (cs @ ds) =
     (case run_loop ex stops (state (fst (run_loop ex stops s cs))) ds of (a, rs) \<Rightarrow>
        (a, snd (run_loop ex stops s cs) @ rs))"
  by (induction cs arbitrary: s) (auto split: prod.splits if_splits)

lemma run_loop_append_dead:
  "\<not> alive (fst (run_loop ex stops s cs)) \<Longrightarrow> run_loop ex stops s (cs @ ds) = run_loop ex stops s cs"
  by (induction cs arbitrary: s) (auto split: prod.splits if_splits)

lemma run_loop_alive_iff:
  "alive (fst (run_loop ex stops s cs)) \<longleftrightarrow> (\<forall>c\<in>set cs. \<not> stops c)"
  by (induction cs arbitrary: s) (auto simp: run_loop_Cons_fst simp del: run_loop.simps(2))

text \<open>A loop that simulates an abstract one, reply by reply.\<close>

lemma run_loop_simulates:
  assumes step: "\<And>m s c. R m s \<Longrightarrow> ok c \<Longrightarrow> R (fst (ax m c)) (fst (ex s c)) \<and> snd (ex s c) = snd (ax m c)"
    and "R m s" and "\<forall>c\<in>set cs. ok c"
  shows "R (state (fst (run_loop ax stops m cs))) (state (fst (run_loop ex stops s cs))) \<and>
    alive (fst (run_loop ex stops s cs)) = alive (fst (run_loop ax stops m cs)) \<and>
    snd (run_loop ex stops s cs) = snd (run_loop ax stops m cs)"
  using assms(2,3)
proof (induction cs arbitrary: m s)
  case (Cons c cs)
  then have "R (fst (ax m c)) (fst (ex s c)) \<and> snd (ex s c) = snd (ax m c)" using step [of m s c] by simp
  then show ?case using Cons.IH [of "fst (ax m c)" "fst (ex s c)"] Cons.prems(2)
    by (simp add: run_loop_Cons_fst run_loop_Cons_snd del: run_loop.simps(2))
qed simp

lemma client_call_dead [simp]: "\<not> alive a \<Longrightarrow> client_call ex stops a pending c = (a, Send_Failed)"
  by (simp add: client_call_def)

lemma client_call_direct [actor_simps]:
  "alive a \<Longrightarrow> client_call ex stops a [] c =
     (\<lparr>alive = \<not> stops c, state = fst (ex (state a) c)\<rparr>, Replied (snd (ex (state a) c)))"
  by (simp add: client_call_def split: prod.splits)

lemma client_call_dropped [actor_simps]:
  "alive a \<Longrightarrow> \<not> alive (fst (run_loop ex stops (state a) pending)) \<Longrightarrow>
   client_call ex stops a pending c = (fst (run_loop ex stops (state a) pending), Reply_Dropped)"
  by (auto simp: client_call_def split: prod.splits)

lemma client_op_direct [actor_simps]:
  "alive a \<Longrightarrow> client_op ex stops e1 e2 f [] c a =
     (\<lparr>alive = \<not> stops c, state = fst (ex (state a) c)\<rparr>, f (snd (ex (state a) c)))"
  by (simp add: client_op_def client_call_direct)

lemma client_op_dropped [actor_simps]:
  "alive a \<Longrightarrow> \<not> alive (fst (run_loop ex stops (state a) pending)) \<Longrightarrow>
   client_op ex stops e1 e2 f pending c a = (fst (run_loop ex stops (state a) pending), Err e2)"
  by (simp add: client_op_def client_call_dropped)

lemma client_op_dead [actor_simps]:
  "\<not> alive a \<Longrightarrow> client_op ex stops e1 e2 f pending c a = (a, Err e1)"
  by (simp add: client_op_def)

lemma client_call_state:
  "state (fst (client_call ex stops a pending c)) = state a \<or>
   state (fst (client_call ex stops a pending c)) = state (fst (run_loop ex stops (state a) (pending @ [c])))"
proof -
  obtain a' rs where r: "run_loop ex stops (state a) pending = (a', rs)" by fastforce
  show ?thesis
  proof (cases "alive a'")
    case True
    then show ?thesis using r run_loop_append_alive [of ex stops "state a" pending "[c]"]
      by (simp add: client_call_def split: prod.splits)
  next
    case False
    then show ?thesis using r run_loop_append_dead [of ex stops "state a" pending "[c]"]
      by (simp add: client_call_def)
  qed
qed

section \<open>Loops with an invariant\<close>

text \<open>Every command of a run is acceptable (\<open>ok\<close>) in the state that it meets.\<close>

primrec run_ok :: "('s \<Rightarrow> 'c \<Rightarrow> 's \<times> 'r) \<Rightarrow> ('c \<Rightarrow> bool) \<Rightarrow> ('s \<Rightarrow> 'c \<Rightarrow> bool) \<Rightarrow> 's \<Rightarrow> 'c list \<Rightarrow> bool" where
  "run_ok ex stops ok s [] = True"
| "run_ok ex stops ok s (c # cs) = (ok s c \<and> (stops c \<or> run_ok ex stops ok (fst (ex s c)) cs))"

lemma run_ok_trivial: "(\<And>s c. ok s c) \<Longrightarrow> run_ok ex stops ok s cs"
  by (induction cs arbitrary: s) simp_all

text \<open>
  The contract between a component and its loop: executing an acceptable command keeps the
  invariant, and the initial state satisfies it. Whatever a client observes then comes from
  a state that satisfies it.
\<close>

locale writer_loop =
  fixes ex :: "'s \<Rightarrow> 'c \<Rightarrow> 's \<times> 'r"
    and stops :: "'c \<Rightarrow> bool"
    and inv :: "'s \<Rightarrow> bool"
    and ok :: "'s \<Rightarrow> 'c \<Rightarrow> bool"
    and init :: 's
  assumes inv_init: "inv init"
    and inv_ex: "inv s \<Longrightarrow> ok s c \<Longrightarrow> inv (fst (ex s c))"
begin

lemma run_inv: "inv s \<Longrightarrow> run_ok ex stops ok s cs \<Longrightarrow> inv (state (fst (run_loop ex stops s cs)))"
  by (induction cs arbitrary: s) (auto simp: run_loop_Cons_fst inv_ex simp del: run_loop.simps(2))

lemma run_init_inv: "run_ok ex stops ok init cs \<Longrightarrow> inv (state (fst (run_loop ex stops init cs)))"
  by (rule run_inv [OF inv_init])

lemma call_inv:
  assumes "inv (state a)" and "run_ok ex stops ok (state a) (pending @ [c])"
  shows "inv (state (fst (client_call ex stops a pending c)))"
proof -
  have "inv (state (fst (run_loop ex stops (state a) (pending @ [c]))))"
    using assms by (rule run_inv)
  then show ?thesis using assms(1) client_call_state [of ex stops a pending c] by auto
qed

end

section \<open>Loops that hand out a counter\<close>

text \<open>The values that a run hands out, read from its commands and their replies.\<close>

fun handed_out :: "('c \<Rightarrow> 'r \<Rightarrow> 'v option) \<Rightarrow> 'c list \<Rightarrow> 'r list \<Rightarrow> 'v list" where
  "handed_out out (c # cs) (r # rs) =
     (case out c r of None \<Rightarrow> handed_out out cs rs | Some v \<Rightarrow> v # handed_out out cs rs)"
| "handed_out out _ _ = []"

lemma of_nat_u32_mono:
  fixes m :: u32
  assumes "i < j" and "unat m + j < 2 ^ 32"
  shows "m + of_nat i < m + of_nat j"
proof -
  have "unat (m + of_nat i) = unat m + i" "unat (m + of_nat j) = unat m + j"
    using assms by (simp_all add: unat_word_ariths unat_of_nat)
  then show ?thesis using assms(1) by (simp add: word_less_nat_alt)
qed

text \<open>
  A 32-bit counter of the state: a command that hands a value out hands out the counter and
  increments it, and every other command leaves the counter alone.
\<close>

locale counter_loop =
  fixes ex :: "'s \<Rightarrow> 'c \<Rightarrow> 's \<times> 'r"
    and stops :: "'c \<Rightarrow> bool"
    and inv :: "'s \<Rightarrow> bool"
    and ok :: "'c \<Rightarrow> bool"
    and cnt :: "'s \<Rightarrow> u32"
    and out :: "'c \<Rightarrow> 'r \<Rightarrow> u32 option"
  assumes keep: "inv s \<Longrightarrow> ok c \<Longrightarrow> inv (fst (ex s c))"
    and quiet: "inv s \<Longrightarrow> ok c \<Longrightarrow> out c (snd (ex s c)) = None \<Longrightarrow> cnt (fst (ex s c)) = cnt s"
    and bump: "inv s \<Longrightarrow> ok c \<Longrightarrow> out c (snd (ex s c)) = Some v \<Longrightarrow> v = cnt s \<and> cnt (fst (ex s c)) = cnt s + 1"
begin

lemma handed_out_consecutive:
  "inv s \<Longrightarrow> \<forall>c\<in>set cs. ok c \<Longrightarrow>
   \<exists>k \<le> length cs. handed_out out cs (snd (run_loop ex stops s cs)) = map (\<lambda>i. cnt s + of_nat i) [0..<k]"
proof (induction cs arbitrary: s)
  case (Cons c cs)
  let ?s = "fst (ex s c)" and ?r = "snd (ex s c)"
  have run: "snd (run_loop ex stops s (c # cs)) = (if stops c then [?r] else ?r # snd (run_loop ex stops ?s cs))"
    by (rule run_loop_Cons_snd)
  have ok: "ok c" using Cons.prems by simp
  obtain k where k: "k \<le> length cs"
    "handed_out out cs (snd (run_loop ex stops ?s cs)) = map (\<lambda>i. cnt ?s + of_nat i) [0..<k]"
    using Cons.IH [of ?s] keep [OF Cons.prems(1) ok] Cons.prems(2) by auto
  show ?case
  proof (cases "out c ?r")
    case None
    then have "handed_out out (c # cs) (snd (run_loop ex stops s (c # cs))) =
        map (\<lambda>i. cnt s + of_nat i) [0..<(if stops c then 0 else k)]"
      using k(2) quiet [OF Cons.prems(1) ok] unfolding run by simp
    then show ?thesis using k(1) by (intro exI [of _ "if stops c then 0 else k"]) simp
  next
    case (Some v)
    then have v: "v = cnt s" "cnt ?s = cnt s + 1" using bump [OF Cons.prems(1) ok] by auto
    have "map (\<lambda>i. cnt s + of_nat i) [0..<Suc k] = cnt s # map (\<lambda>i. cnt ?s + of_nat i) [0..<k]"
      by (simp add: upt_conv_Cons v(2) map_Suc_upt [symmetric] algebra_simps del: upt_Suc)
    then have "handed_out out (c # cs) (snd (run_loop ex stops s (c # cs))) =
        map (\<lambda>i. cnt s + of_nat i) [0..<(if stops c then 1 else Suc k)]"
      using k(2) Some v(1) unfolding run by (cases "stops c") simp_all
    then show ?thesis using k(1) by (intro exI [of _ "if stops c then 1 else Suc k"]) simp
  qed
qed simp

lemma handed_out_ascending:
  assumes "inv s" and "\<forall>c\<in>set cs. ok c" and "unat (cnt s) + length cs < 2 ^ 32"
  shows "sorted_wrt (<) (handed_out out cs (snd (run_loop ex stops s cs)))
    \<and> (\<forall>v\<in>set (handed_out out cs (snd (run_loop ex stops s cs))). cnt s \<le> v)"
proof -
  obtain k where k: "k \<le> length cs"
    "handed_out out cs (snd (run_loop ex stops s cs)) = map (\<lambda>i. cnt s + of_nat i) [0..<k]"
    using handed_out_consecutive [OF assms(1,2)] by blast
  have "sorted_wrt (\<lambda>i j. cnt s + of_nat i < cnt s + of_nat j) [0..<k]"
    by (rule sorted_wrt_mono_rel [OF _ sorted_wrt_upt]) (use k(1) assms(3) of_nat_u32_mono in auto)
  moreover have "cnt s \<le> cnt s + of_nat i" if "i < k" for i
    using of_nat_u32_mono [of 0 i "cnt s"] that k(1) assms(3) by (cases "i = 0") auto
  ultimately show ?thesis by (auto simp: k(2) sorted_wrt_map)
qed

end

end
