(* ===== verification/Task_Queue.thy ===== *)
theory Task_Queue
  imports Writer_Loop
begin

text \<open>
  src/queue/mod.rs and src/queue/impl/channel.rs: the FIFO task queue. The state is the
  \<open>VecDeque\<close> of tasks, front first; the writer loop executes enqueue, dequeue, remove and
  clear, while peek, len and is\_empty read the shared state without the loop.
\<close>

section \<open>The writer loop\<close>

datatype 'j queue_command =
    Q_Enqueue "'j queue_task" | Q_Dequeue | Q_Remove uuid | Q_Clear | Q_Shutdown

datatype 'j queue_reply =
    QR_Unit "unit result"
  | QR_Task "'j queue_task option result"
  | QR_Bool "bool result"
  | QR_Stopped

text \<open>\<open>queue.iter().position(..)\<close> followed by \<open>queue.remove(index)\<close>; \<open>None\<close> when absent.\<close>

fun remove_task :: "uuid \<Rightarrow> 'j queue_task list \<Rightarrow> 'j queue_task list option" where
  "remove_task i [] = None"
| "remove_task i (t # q) =
     (if task_id t = i then Some q
      else case remove_task i q of None \<Rightarrow> None | Some q' \<Rightarrow> Some (t # q'))"

fun queue_exec :: "'j queue_task list \<Rightarrow> 'j queue_command \<Rightarrow> 'j queue_task list \<times> 'j queue_reply" where
  "queue_exec q (Q_Enqueue t) = (q @ [t], QR_Unit (Ok ()))"
| "queue_exec q Q_Dequeue =
     (case q of [] \<Rightarrow> ([], QR_Task (Ok None)) | t # q' \<Rightarrow> (q', QR_Task (Ok (Some t))))"
| "queue_exec q (Q_Remove i) =
     (case remove_task i q of Some q' \<Rightarrow> (q', QR_Bool (Ok True)) | None \<Rightarrow> (q, QR_Bool (Ok False)))"
| "queue_exec q Q_Clear = ([], QR_Unit (Ok ()))"
| "queue_exec q Q_Shutdown = (q, QR_Stopped)"

fun queue_stops :: "'j queue_command \<Rightarrow> bool" where
  "queue_stops Q_Shutdown = True"
| "queue_stops _ = False"

section \<open>The client operations\<close>

type_synonym 'j channel_queue = "'j queue_task list actor"

definition channel_queue_new :: "'j channel_queue" where
  "channel_queue_new = \<lparr>alive = True, state = []\<rparr>"

fun qr_unit :: "'j queue_reply \<Rightarrow> unit result" where "qr_unit (QR_Unit r) = r"
fun qr_task :: "'j queue_reply \<Rightarrow> 'j queue_task option result" where "qr_task (QR_Task r) = r"
fun qr_bool :: "'j queue_reply \<Rightarrow> bool result" where "qr_bool (QR_Bool r) = r"

text \<open>Sending a command and awaiting its reply, with the two \<open>map_err\<close> of each method.\<close>

definition queue_call ::
  "('j queue_reply \<Rightarrow> 'a result) \<Rightarrow> 'j queue_command list \<Rightarrow> 'j queue_command \<Rightarrow> 'j channel_queue \<Rightarrow>
   'j channel_queue \<times> 'a result" where
  "queue_call = client_op queue_exec queue_stops
     (QueueError ''Channel closed'') (QueueError ''Reply channel closed'')"

definition queue_enqueue :: "'j queue_command list \<Rightarrow> 'j queue_task \<Rightarrow> 'j channel_queue \<Rightarrow> 'j channel_queue \<times> unit result" where
  "queue_enqueue pending t = queue_call qr_unit pending (Q_Enqueue t)"

definition queue_dequeue :: "'j queue_command list \<Rightarrow> 'j channel_queue \<Rightarrow> 'j channel_queue \<times> 'j queue_task option result" where
  "queue_dequeue pending = queue_call qr_task pending Q_Dequeue"

definition queue_peek :: "'j channel_queue \<Rightarrow> 'j queue_task option result" where
  "queue_peek q = Ok (case state q of [] \<Rightarrow> None | t # _ \<Rightarrow> Some t)"

definition queue_len :: "'j channel_queue \<Rightarrow> nat result" where
  "queue_len q = Ok (length (state q))"

definition queue_is_empty :: "'j channel_queue \<Rightarrow> bool result" where
  "queue_is_empty q = Ok (state q = [])"

definition queue_remove :: "'j queue_command list \<Rightarrow> uuid \<Rightarrow> 'j channel_queue \<Rightarrow> 'j channel_queue \<times> bool result" where
  "queue_remove pending i = queue_call qr_bool pending (Q_Remove i)"

definition queue_clear :: "'j queue_command list \<Rightarrow> 'j channel_queue \<Rightarrow> 'j channel_queue \<times> unit result" where
  "queue_clear pending = queue_call qr_unit pending Q_Clear"

text \<open>Shutdown ignores both failures.\<close>

definition queue_shutdown :: "'j queue_command list \<Rightarrow> 'j channel_queue \<Rightarrow> 'j channel_queue \<times> unit result" where
  "queue_shutdown pending q = (fst (client_call queue_exec queue_stops q pending Q_Shutdown), Ok ())"

lemmas queue_defs = queue_enqueue_def queue_dequeue_def queue_remove_def queue_clear_def
  queue_shutdown_def queue_call_def queue_peek_def queue_len_def queue_is_empty_def

section \<open>The contract of a task queue\<close>

text \<open>
  The \<open>Queue\<close> trait as its callers use it: \<open>tasks\<close> is the abstract content, \<open>up\<close> says
  that the queue still serves. The laws are those of a FIFO list of tasks.
\<close>

locale task_queue =
  fixes enq :: "'t \<Rightarrow> 'q \<Rightarrow> 'q \<times> unit result"
    and deq :: "'q \<Rightarrow> 'q \<times> 't option result"
    and peek :: "'q \<Rightarrow> 't option result"
    and tasks :: "'q \<Rightarrow> 't list"
    and up :: "'q \<Rightarrow> bool"
  assumes enq_up: "up q \<Longrightarrow> up (fst (enq t q)) \<and> tasks (fst (enq t q)) = tasks q @ [t] \<and> snd (enq t q) = Ok ()"
    and deq_up: "up q \<Longrightarrow> up (fst (deq q)) \<and> tasks (fst (deq q)) = tl (tasks q)"
    and deq_result: "up q \<Longrightarrow> snd (deq q) = Ok (if tasks q = [] then None else Some (hd (tasks q)))"
    and peek_result: "peek q = Ok (if tasks q = [] then None else Some (hd (tasks q)))"
begin

lemma enq_all: "up q \<Longrightarrow> up (fold (\<lambda>t q. fst (enq t q)) ts q) \<and>
    tasks (fold (\<lambda>t q. fst (enq t q)) ts q) = tasks q @ ts"
  by (induction ts arbitrary: q) (auto simp: enq_up)

lemma peek_is_next: "up q \<Longrightarrow> peek q = snd (deq q)"
  by (simp add: peek_result deq_result)

end

text \<open>\<open>n\<close> dequeues in a row, and the tasks they return.\<close>

fun drain :: "('q \<Rightarrow> 'q \<times> 't option result) \<Rightarrow> nat \<Rightarrow> 'q \<Rightarrow> 't option result list" where
  "drain deq 0 q = []"
| "drain deq (Suc n) q = (case deq q of (q', r) \<Rightarrow> r # drain deq n q')"

context task_queue begin

lemma drain_tasks:
  "up q \<Longrightarrow> tasks q = ts \<Longrightarrow> drain deq (length ts) q = map (\<lambda>t. Ok (Some t)) ts"
proof (induction ts arbitrary: q)
  case (Cons t ts)
  obtain q' r where d: "deq q = (q', r)" by (cases "deq q")
  have "up q'" "tasks q' = ts" "r = Ok (Some t)"
    using deq_up [OF Cons.prems(1)] deq_result [OF Cons.prems(1)] d Cons.prems(2) by simp_all
  then show ?case using Cons.IH [of q'] d by simp
qed simp

lemma fifo:
  "up q \<Longrightarrow> tasks q = [] \<Longrightarrow>
   drain deq (length ts) (fold (\<lambda>t q. fst (enq t q)) ts q) = map (\<lambda>t. Ok (Some t)) ts"
  using enq_all [of q ts] drain_tasks by simp

end

interpretation cq: task_queue "queue_enqueue []" "queue_dequeue []" queue_peek state alive
  by unfold_locales (auto simp: queue_defs actor_simps split: list.splits)

section \<open>Properties\<close>

text \<open>C15: tasks leave a live queue in the order in which they were enqueued.\<close>

theorem queue_is_fifo:
  "drain (queue_dequeue []) (length ts) (fold (\<lambda>t q. fst (queue_enqueue [] t q)) ts channel_queue_new)
   = map (\<lambda>t. Ok (Some t)) ts"
  by (rule cq.fifo) (simp_all add: channel_queue_new_def)

lemma foldl_enqueue: "foldl (\<lambda>q c. fst (queue_exec q c)) q (map Q_Enqueue ts) = q @ ts"
  by (induction ts arbitrary: q) simp_all

lemma map_enqueue_no_stop: "\<forall>c\<in>set (map Q_Enqueue ts). \<not> queue_stops c"
  by simp

lemma shuffles_map: "shuffles (map f xs) (map f ys) = map f ` shuffles xs ys"
proof (induction xs ys rule: shuffles.induct)
  case (3 x xs y ys)
  then show ?case by (simp add: image_Un image_image)
qed simp_all

text \<open>
  Clients enqueue at the same time: whatever order the loop receives their commands in,
  no task is lost or duplicated and each client's tasks keep their order.
\<close>

theorem queue_concurrent_enqueue:
  assumes "cs \<in> shuffles (map Q_Enqueue xs) (map Q_Enqueue ys)"
  shows "state (fst (run_loop queue_exec queue_stops [] cs)) \<in> shuffles xs ys"
proof -
  obtain zs where zs: "zs \<in> shuffles xs ys" "cs = map Q_Enqueue zs"
    using assms by (auto simp: shuffles_map)
  have "state (fst (run_loop queue_exec queue_stops [] cs)) = zs"
    using run_loop_no_stop [OF map_enqueue_no_stop [of zs], of queue_exec "[]"] zs by (simp add: foldl_enqueue)
  then show ?thesis using zs(1) by simp
qed

theorem queue_concurrent_enqueue_witness:
  "\<exists>cs. cs \<in> shuffles (map Q_Enqueue [queue_task_new ''a'' 0 Expunge ()]) (map Q_Enqueue [queue_task_new ''b'' 0 Expunge ()])
     \<and> state (fst (run_loop queue_exec queue_stops [] cs)) \<in>
       shuffles [queue_task_new ''a'' 0 Expunge ()] [queue_task_new ''b'' 0 Expunge ()]"
  using queue_concurrent_enqueue
    [of "[Q_Enqueue (queue_task_new ''b'' 0 Expunge ()), Q_Enqueue (queue_task_new ''a'' 0 Expunge ())]"
      "[queue_task_new ''a'' 0 Expunge ()]" "[queue_task_new ''b'' 0 Expunge ()]"]
  by fastforce

lemma remove_task_None: "remove_task i q = None \<longleftrightarrow> (\<forall>t\<in>set q. task_id t \<noteq> i)"
  by (induction q) (auto split: option.splits)

lemma remove_task_Some:
  "remove_task i q = Some q' \<Longrightarrow>
   \<exists>a t b. q = a @ t # b \<and> q' = a @ b \<and> task_id t = i \<and> (\<forall>u\<in>set a. task_id u \<noteq> i)"
proof (induction q arbitrary: q')
  case (Cons t q)
  show ?case
  proof (cases "task_id t = i")
    case True
    then have "t # q = [] @ t # q" "q' = [] @ q" using Cons.prems by auto
    with True show ?thesis by (metis empty_iff list.set(1))
  next
    case False
    then obtain r where "remove_task i q = Some r" "q' = t # r"
      using Cons.prems by (auto split: option.splits)
    with Cons.IH obtain a u b where "q = a @ u # b" "r = a @ b" "task_id u = i" "\<forall>v\<in>set a. task_id v \<noteq> i"
      by blast
    then have "t # q = (t # a) @ u # b" "q' = (t # a) @ b" "\<forall>v\<in>set (t # a). task_id v \<noteq> i"
      using \<open>q' = t # r\<close> False by auto
    with \<open>task_id u = i\<close> show ?thesis by blast
  qed
qed simp

text \<open>
  Remove takes the first task with the identifier out and nothing else, reports whether
  there was one, and leaves the queue alone when there was none.
\<close>

theorem queue_remove_spec:
  assumes "alive q"
  shows "(\<exists>a t b. state q = a @ t # b \<and> task_id t = i \<and> (\<forall>u\<in>set a. task_id u \<noteq> i) \<and>
            queue_remove [] i q = (q\<lparr>state := a @ b\<rparr>, Ok True))
       \<or> ((\<forall>t\<in>set (state q). task_id t \<noteq> i) \<and> queue_remove [] i q = (q, Ok False))"
proof (cases "remove_task i (state q)")
  case None
  then have "queue_remove [] i q = (q, Ok False)"
    using assms by (cases q) (simp add: queue_defs actor_simps)
  with None show ?thesis by (auto simp: remove_task_None)
next
  case (Some q')
  then obtain a t b where "state q = a @ t # b" "q' = a @ b" "task_id t = i" "\<forall>u\<in>set a. task_id u \<noteq> i"
    by (blast dest: remove_task_Some)
  moreover have "queue_remove [] i q = (q\<lparr>state := q'\<rparr>, Ok True)"
    using Some assms by (cases q) (simp add: queue_defs actor_simps)
  ultimately show ?thesis by blast
qed

theorem queue_remove_spec_witness:
  "let q = \<lparr>alive = True, state = [queue_task_new ''a'' 0 Expunge ()]\<rparr> in
   (\<exists>a t b. state q = a @ t # b \<and> task_id t = ''a'' \<and> (\<forall>u\<in>set a. task_id u \<noteq> ''a'') \<and>
            queue_remove [] ''a'' q = (q\<lparr>state := a @ b\<rparr>, Ok True))
       \<or> ((\<forall>t\<in>set (state q). task_id t \<noteq> ''a'') \<and> queue_remove [] ''a'' q = (q, Ok False))"
  unfolding Let_def by (rule queue_remove_spec) simp

text \<open>
  After a shutdown every command that was still waiting loses its reply, every later one
  fails to be sent, and both are reported as queue errors; the tasks stay readable.
\<close>

theorem queue_after_shutdown:
  assumes "alive q" and "\<forall>c\<in>set before. \<not> queue_stops c"
  shows "snd (queue_enqueue (before @ Q_Shutdown # after) t q) = Err (QueueError ''Reply channel closed'') \<and>
    snd (queue_enqueue [] t (fst (queue_shutdown before q))) = Err (QueueError ''Channel closed'') \<and>
    queue_len (fst (queue_shutdown before q)) = Ok (length (foldl (\<lambda>s c. fst (queue_exec s c)) (state q) before))"
proof (intro conjI)
  let ?r = "run_loop queue_exec queue_stops (state q)"
  obtain a rs where r: "?r before = (a, rs)" by fastforce
  have b: "alive a" "state a = foldl (\<lambda>s c. fst (queue_exec s c)) (state q) before"
    using run_loop_no_stop [OF assms(2), of queue_exec "state q"] r by simp_all
  have "\<not> alive (fst (?r (before @ Q_Shutdown # after)))" by (simp add: run_loop_alive_iff)
  then show "snd (queue_enqueue (before @ Q_Shutdown # after) t q) = Err (QueueError ''Reply channel closed'')"
    using assms(1) by (simp add: queue_enqueue_def queue_call_def actor_simps)
  have sd: "fst (queue_shutdown before q) = \<lparr>alive = False, state = state a\<rparr>"
    using assms(1) r b by (simp add: queue_defs client_call_def)
  show "snd (queue_enqueue [] t (fst (queue_shutdown before q))) = Err (QueueError ''Channel closed'')"
    by (simp add: sd queue_enqueue_def queue_call_def actor_simps)
  show "queue_len (fst (queue_shutdown before q)) = Ok (length (foldl (\<lambda>s c. fst (queue_exec s c)) (state q) before))"
    by (simp add: sd queue_len_def b)
qed

theorem queue_after_shutdown_witness:
  "snd (queue_enqueue ([Q_Clear] @ Q_Shutdown # [Q_Dequeue]) (queue_task_new ''a'' 0 Expunge ()) channel_queue_new)
     = Err (QueueError ''Reply channel closed'')"
  using queue_after_shutdown [of channel_queue_new "[Q_Clear]" "[Q_Dequeue]" "queue_task_new ''a'' 0 Expunge ()"]
  by (simp add: channel_queue_new_def)

end
