(* ===== verification/Mailbox_State.thy ===== *)
theory Mailbox_State
  imports Writer_Loop
begin

text \<open>
  src/mailbox.rs: the shared handle of one mailbox. Its loop owns the bidirectional map
  between UIDs and paths, the UID counter and the senders of the IDLE subscribers.

  A subscriber is the sender \<open>'tx\<close> of a channel of the tokio crate. What the code relies on
  of the channel is an input of the command that uses it: \<open>MC_Subscribe\<close> carries the sender
  of the channel just made, \<open>MC_Notify\<close> the senders whose \<open>try_send\<close> succeeds at that
  moment. The notifications handed over are recorded in \<open>outbox\<close>.
\<close>

section \<open>State and commands\<close>

datatype mailbox_notification = MessageAdded uid | MessageExpunged uid | FlagsChanged uid

datatype 'tx mailbox_command =
    MC_AssignUid string
  | MC_GetPath uid
  | MC_GetUid string
  | MC_RemoveMessage uid
  | MC_UpdatePath uid string
  | MC_GetState
  | MC_Subscribe 'tx
  | MC_Notify mailbox_notification "'tx \<Rightarrow> bool"
  | MC_Shutdown

record mailbox_snapshot =
  snap_username :: string
  snap_name :: string
  snap_uid_validity :: u32
  snap_uid_next :: uid
  snap_message_count :: nat

record 'tx mailbox_state =
  mb_username :: string
  mb_name :: string
  mb_uid_validity :: u32
  mb_uid_next :: uid
  uid_to_path :: "uid \<rightharpoonup> string"
  path_to_uid :: "string \<rightharpoonup> uid"
  subscribers :: "'tx list"
  outbox :: "('tx \<times> mailbox_notification) list"

datatype 'tx mailbox_reply =
    MR_Uid "uid result"
  | MR_Path "string option result"
  | MR_UidOpt "uid option result"
  | MR_Unit "unit result"
  | MR_State mailbox_snapshot
  | MR_Receiver 'tx
  | MR_Done

definition mailbox_init :: "string \<Rightarrow> string \<Rightarrow> u32 \<Rightarrow> 'tx mailbox_state" where
  "mailbox_init username name validity =
     \<lparr>mb_username = username, mb_name = name, mb_uid_validity = validity, mb_uid_next = 1,
      uid_to_path = Map.empty, path_to_uid = Map.empty, subscribers = [], outbox = []\<rparr>"

section \<open>The state loop\<close>

definition mb_assign_uid :: "string \<Rightarrow> 'tx mailbox_state \<Rightarrow> 'tx mailbox_state \<times> uid result" where
  "mb_assign_uid path s =
     (if path_to_uid s path \<noteq> None
      then (s, Err (Internal (''Path already has UID assigned: '' @ path)))
      else let uid = mb_uid_next s in
        (s\<lparr>uid_to_path := (uid_to_path s)(uid \<mapsto> path),
           path_to_uid := (path_to_uid s)(path \<mapsto> uid),
           mb_uid_next := mb_uid_next s + 1\<rparr>, Ok uid))"

definition uid_not_found :: "uid \<Rightarrow> error" where
  "uid_not_found uid = NotFound (''UID not found: '' @ show_nat (unat uid))"

definition mb_remove_message :: "uid \<Rightarrow> 'tx mailbox_state \<Rightarrow> 'tx mailbox_state \<times> unit result" where
  "mb_remove_message uid s =
     (case uid_to_path s uid of
        Some path \<Rightarrow> (s\<lparr>uid_to_path := (uid_to_path s)(uid := None),
                         path_to_uid := (path_to_uid s)(path := None)\<rparr>, Ok ())
      | None \<Rightarrow> (s, Err (uid_not_found uid)))"

definition mb_update_path :: "uid \<Rightarrow> string \<Rightarrow> 'tx mailbox_state \<Rightarrow> 'tx mailbox_state \<times> unit result" where
  "mb_update_path uid new_path s =
     (case uid_to_path s uid of
        Some old_path \<Rightarrow>
          (s\<lparr>uid_to_path := (uid_to_path s)(uid \<mapsto> new_path),
             path_to_uid := ((path_to_uid s)(old_path := None))(new_path \<mapsto> uid)\<rparr>, Ok ())
      | None \<Rightarrow> (s, Err (uid_not_found uid)))"

definition mb_snapshot :: "'tx mailbox_state \<Rightarrow> mailbox_snapshot" where
  "mb_snapshot s =
     \<lparr>snap_username = mb_username s, snap_name = mb_name s, snap_uid_validity = mb_uid_validity s,
      snap_uid_next = mb_uid_next s, snap_message_count = card (dom (uid_to_path s))\<rparr>"

text \<open>\<open>subscribers.retain(|sub| sub.try_send(notification).is_ok())\<close>.\<close>

definition mb_notify :: "mailbox_notification \<Rightarrow> ('tx \<Rightarrow> bool) \<Rightarrow> 'tx mailbox_state \<Rightarrow> 'tx mailbox_state" where
  "mb_notify n accepts s =
     s\<lparr>subscribers := filter accepts (subscribers s),
       outbox := outbox s @ map (\<lambda>tx. (tx, n)) (filter accepts (subscribers s))\<rparr>"

fun mailbox_exec :: "'tx mailbox_state \<Rightarrow> 'tx mailbox_command \<Rightarrow> 'tx mailbox_state \<times> 'tx mailbox_reply" where
  "mailbox_exec s (MC_AssignUid path) = (case mb_assign_uid path s of (s', r) \<Rightarrow> (s', MR_Uid r))"
| "mailbox_exec s (MC_GetPath uid) = (s, MR_Path (Ok (uid_to_path s uid)))"
| "mailbox_exec s (MC_GetUid path) = (s, MR_UidOpt (Ok (path_to_uid s path)))"
| "mailbox_exec s (MC_RemoveMessage uid) = (case mb_remove_message uid s of (s', r) \<Rightarrow> (s', MR_Unit r))"
| "mailbox_exec s (MC_UpdatePath uid p) = (case mb_update_path uid p s of (s', r) \<Rightarrow> (s', MR_Unit r))"
| "mailbox_exec s MC_GetState = (s, MR_State (mb_snapshot s))"
| "mailbox_exec s (MC_Subscribe tx) = (s\<lparr>subscribers := subscribers s @ [tx]\<rparr>, MR_Receiver tx)"
| "mailbox_exec s (MC_Notify n accepts) = (mb_notify n accepts s, MR_Done)"
| "mailbox_exec s MC_Shutdown = (s, MR_Done)"

fun mailbox_stops :: "'tx mailbox_command \<Rightarrow> bool" where
  "mailbox_stops MC_Shutdown = True"
| "mailbox_stops _ = False"

section \<open>The handle\<close>

type_synonym 'tx mailbox_handle = "'tx mailbox_state actor"

definition mailbox_new :: "string \<Rightarrow> string \<Rightarrow> u32 \<Rightarrow> 'tx mailbox_handle result" where
  "mailbox_new username name validity = Ok \<lparr>alive = True, state = mailbox_init username name validity\<rparr>"

fun mr_uid :: "'tx mailbox_reply \<Rightarrow> uid result" where "mr_uid (MR_Uid r) = r"
fun mr_path :: "'tx mailbox_reply \<Rightarrow> string option result" where "mr_path (MR_Path r) = r"
fun mr_uid_opt :: "'tx mailbox_reply \<Rightarrow> uid option result" where "mr_uid_opt (MR_UidOpt r) = r"
fun mr_unit :: "'tx mailbox_reply \<Rightarrow> unit result" where "mr_unit (MR_Unit r) = r"
fun mr_state :: "'tx mailbox_reply \<Rightarrow> mailbox_snapshot result" where "mr_state (MR_State r) = Ok r"
fun mr_receiver :: "'tx mailbox_reply \<Rightarrow> 'tx result" where "mr_receiver (MR_Receiver r) = Ok r"

definition mailbox_call ::
  "('tx mailbox_reply \<Rightarrow> 'a result) \<Rightarrow> 'tx mailbox_command list \<Rightarrow> 'tx mailbox_command \<Rightarrow>
   'tx mailbox_handle \<Rightarrow> 'tx mailbox_handle \<times> 'a result" where
  "mailbox_call = client_op mailbox_exec mailbox_stops
     (Internal ''Mailbox state loop stopped'') (Internal ''Mailbox state loop dropped reply'')"

definition assign_uid :: "'tx mailbox_command list \<Rightarrow> string \<Rightarrow> 'tx mailbox_handle \<Rightarrow> 'tx mailbox_handle \<times> uid result" where
  "assign_uid pending path = mailbox_call mr_uid pending (MC_AssignUid path)"

definition get_path :: "'tx mailbox_command list \<Rightarrow> uid \<Rightarrow> 'tx mailbox_handle \<Rightarrow> 'tx mailbox_handle \<times> string option result" where
  "get_path pending uid = mailbox_call mr_path pending (MC_GetPath uid)"

definition get_uid :: "'tx mailbox_command list \<Rightarrow> string \<Rightarrow> 'tx mailbox_handle \<Rightarrow> 'tx mailbox_handle \<times> uid option result" where
  "get_uid pending path = mailbox_call mr_uid_opt pending (MC_GetUid path)"

definition remove_message :: "'tx mailbox_command list \<Rightarrow> uid \<Rightarrow> 'tx mailbox_handle \<Rightarrow> 'tx mailbox_handle \<times> unit result" where
  "remove_message pending uid = mailbox_call mr_unit pending (MC_RemoveMessage uid)"

definition update_path :: "'tx mailbox_command list \<Rightarrow> uid \<Rightarrow> string \<Rightarrow> 'tx mailbox_handle \<Rightarrow> 'tx mailbox_handle \<times> unit result" where
  "update_path pending uid p = mailbox_call mr_unit pending (MC_UpdatePath uid p)"

definition get_state :: "'tx mailbox_command list \<Rightarrow> 'tx mailbox_handle \<Rightarrow> 'tx mailbox_handle \<times> mailbox_snapshot result" where
  "get_state pending = mailbox_call mr_state pending MC_GetState"

definition subscribe :: "'tx mailbox_command list \<Rightarrow> 'tx \<Rightarrow> 'tx mailbox_handle \<Rightarrow> 'tx mailbox_handle \<times> 'tx result" where
  "subscribe pending tx = mailbox_call mr_receiver pending (MC_Subscribe tx)"

text \<open>\<open>notify\<close> reports a failed send but ignores a dropped reply; \<open>shutdown\<close> ignores both.\<close>

definition notify :: "'tx mailbox_command list \<Rightarrow> mailbox_notification \<Rightarrow> ('tx \<Rightarrow> bool) \<Rightarrow> 'tx mailbox_handle \<Rightarrow> 'tx mailbox_handle \<times> unit result" where
  "notify pending n accepts h =
     (case client_call mailbox_exec mailbox_stops h pending (MC_Notify n accepts) of
        (h', Send_Failed) \<Rightarrow> (h', Err (Internal ''Mailbox state loop stopped''))
      | (h', _) \<Rightarrow> (h', Ok ()))"

definition mailbox_shutdown :: "'tx mailbox_command list \<Rightarrow> 'tx mailbox_handle \<Rightarrow> 'tx mailbox_handle \<times> unit result" where
  "mailbox_shutdown pending h = (fst (client_call mailbox_exec mailbox_stops h pending MC_Shutdown), Ok ())"

lemmas mb_op_defs = mb_assign_uid_def mb_remove_message_def mb_update_path_def mb_notify_def Let_def
lemmas mb_handle_defs = assign_uid_def get_path_def get_uid_def remove_message_def update_path_def
  get_state_def subscribe_def mailbox_call_def

section \<open>The invariant\<close>

text \<open>
  The two maps are inverse to each other and every UID in use lies in \<open>1 .. uid_next - 1\<close>.
  It is kept by every command but two uses that the code does not guard: assigning when the
  counter is at its last value, and moving a UID to a path that another UID owns.
\<close>

definition mb_inv :: "'tx mailbox_state \<Rightarrow> bool" where
  "mb_inv s \<longleftrightarrow> map_inverse (uid_to_path s) (path_to_uid s) \<and> 0 < mb_uid_next s \<and>
     (\<forall>u. uid_to_path s u \<noteq> None \<longrightarrow> 0 < u \<and> u < mb_uid_next s) \<and> finite (dom (uid_to_path s))"

fun mb_ok :: "'tx mailbox_state \<Rightarrow> 'tx mailbox_command \<Rightarrow> bool" where
  "mb_ok s (MC_AssignUid path) = (mb_uid_next s \<noteq> - 1)"
| "mb_ok s (MC_UpdatePath uid p) = (path_to_uid s p = None \<or> path_to_uid s p = Some uid)"
| "mb_ok s _ = True"

lemma mb_inv_init: "mb_inv (mailbox_init u n v)"
  by (simp add: mb_inv_def mailbox_init_def)

lemma mb_inv_unused: "mb_inv s \<Longrightarrow> mb_uid_next s \<le> u \<Longrightarrow> uid_to_path s u = None"
  unfolding mb_inv_def by (metis not_le)

lemma mb_assign_uid_inv [inv_intros]:
  assumes "mb_inv s" and "mb_uid_next s \<noteq> - 1"
  shows "mb_inv (fst (mb_assign_uid path s))"
proof (cases "path_to_uid s path")
  case None
  let ?n = "mb_uid_next s"
  have n: "?n < ?n + 1" using assms(2) by (rule word_less_next)
  have "map_inverse ((uid_to_path s)(?n \<mapsto> path)) ((path_to_uid s)(path \<mapsto> ?n))"
    using assms(1) None mb_inv_unused [OF assms(1), of ?n]
    by (intro map_inverse_insert) (simp_all add: mb_inv_def)
  moreover have "0 < ?n + 1" using n by (metis le_less_trans word_zero_le)
  moreover have "0 < u \<and> u < ?n + 1" if "((uid_to_path s)(?n \<mapsto> path)) u \<noteq> None" for u
    using that assms(1) n by (cases "u = ?n") (auto simp: mb_inv_def)
  ultimately show ?thesis using assms(1) None by (simp add: mb_assign_uid_def mb_inv_def Let_def)
qed (simp add: mb_assign_uid_def assms(1))

lemma mb_remove_message_inv [inv_intros]: "mb_inv s \<Longrightarrow> mb_inv (fst (mb_remove_message uid s))"
  by (auto simp: mb_remove_message_def mb_inv_def map_inverse_remove split: option.splits)

lemma mb_update_path_inv [inv_intros]:
  assumes "mb_inv s" and "path_to_uid s p = None \<or> path_to_uid s p = Some uid"
  shows "mb_inv (fst (mb_update_path uid p s))"
proof (cases "uid_to_path s uid")
  case (Some old)
  have inv: "map_inverse (uid_to_path s) (path_to_uid s)" using assms(1) by (simp add: mb_inv_def)
  then have "path_to_uid s p = None \<or> p = old" using assms(2) Some by (metis map_inverse_def option.inject)
  with inv Some have "map_inverse ((uid_to_path s)(uid \<mapsto> p)) (((path_to_uid s)(old := None))(p \<mapsto> uid))"
    by (intro map_inverse_rebind)
  then show ?thesis using assms(1) Some by (auto simp: mb_update_path_def mb_inv_def)
qed (simp add: mb_update_path_def assms(1))

lemma mailbox_exec_inv: "mb_inv s \<Longrightarrow> mb_ok s c \<Longrightarrow> mb_inv (fst (mailbox_exec s c))"
proof (cases c)
  case (MC_AssignUid path)
  then show "mb_inv s \<Longrightarrow> mb_ok s c \<Longrightarrow> ?thesis"
    using mb_assign_uid_inv [of s path] by (simp add: case_prod_beta)
next
  case (MC_RemoveMessage uid)
  then show "mb_inv s \<Longrightarrow> mb_ok s c \<Longrightarrow> ?thesis"
    using mb_remove_message_inv [of s uid] by (simp add: case_prod_beta)
next
  case (MC_UpdatePath uid p)
  then show "mb_inv s \<Longrightarrow> mb_ok s c \<Longrightarrow> ?thesis"
    using mb_update_path_inv [of s p uid] by (simp add: case_prod_beta)
qed (simp_all add: mb_notify_def mb_inv_def)

interpretation mbl: writer_loop mailbox_exec mailbox_stops mb_inv mb_ok "mailbox_init u n v" for u n v
  by unfold_locales (simp_all add: mb_inv_init mailbox_exec_inv)

text \<open>
  C11: in every state that the loop reaches, the UID map and the path map are inverse to each
  other and every UID in use was handed out by the counter.
\<close>

theorem mailbox_maps_inverse:
  assumes "run_ok mailbox_exec mailbox_stops mb_ok (mailbox_init u n v) cs"
  shows "let s = state (fst (run_loop mailbox_exec mailbox_stops (mailbox_init u n v) cs)) in
    (\<forall>uid path. uid_to_path s uid = Some path \<longleftrightarrow> path_to_uid s path = Some uid) \<and>
    (\<forall>uid. uid_to_path s uid \<noteq> None \<longrightarrow> 0 < uid \<and> uid < mb_uid_next s)"
  using mbl.run_init_inv [OF assms] by (simp add: mb_inv_def map_inverse_def Let_def)

theorem mailbox_maps_inverse_witness:
  "let cs = [MC_AssignUid ''a'', MC_AssignUid ''b'', MC_UpdatePath 1 ''c'', MC_RemoveMessage (2::uid)];
       s = state (fst (run_loop mailbox_exec mailbox_stops (mailbox_init ''u'' ''n'' 7) cs)) in
    (\<forall>uid path. uid_to_path s uid = Some path \<longleftrightarrow> path_to_uid s path = Some uid) \<and>
    (\<forall>uid. uid_to_path s uid \<noteq> None \<longrightarrow> 0 < uid \<and> uid < mb_uid_next s)"
proof -
  have "run_ok mailbox_exec mailbox_stops mb_ok (mailbox_init ''u'' ''n'' 7)
     [MC_AssignUid ''a'', MC_AssignUid ''b'', MC_UpdatePath 1 ''c'', MC_RemoveMessage 2]"
    by (simp add: mailbox_init_def mb_op_defs)
  from mailbox_maps_inverse [OF this] show ?thesis by (simp only: Let_def)
qed

section \<open>UID assignment\<close>

fun mailbox_assigned :: "'tx mailbox_command \<Rightarrow> 'tx mailbox_reply \<Rightarrow> uid option" where
  "mailbox_assigned (MC_AssignUid path) (MR_Uid (Inr u)) = Some u"
| "mailbox_assigned _ _ = None"

interpretation mbc: counter_loop mailbox_exec mailbox_stops "\<lambda>_. True" "\<lambda>_. True" mb_uid_next mailbox_assigned
proof (unfold_locales, simp)
  fix s and c :: "'tx mailbox_command"
  show "mailbox_assigned c (snd (mailbox_exec s c)) = None \<Longrightarrow> mb_uid_next (fst (mailbox_exec s c)) = mb_uid_next s"
    by (cases c) (auto simp: mb_op_defs split: option.splits if_splits)
  fix v
  show "mailbox_assigned c (snd (mailbox_exec s c)) = Some v \<Longrightarrow>
      v = mb_uid_next s \<and> mb_uid_next (fst (mailbox_exec s c)) = mb_uid_next s + 1"
    by (cases c) (auto simp: mb_op_defs split: option.splits if_splits)
qed

text \<open>
  C12: over any sequence of commands from any number of clients, removals and renames
  included, the loop hands UIDs out strictly ascending, from the counter on, so none is ever
  used twice; the bound says that the 32-bit counter is not exhausted.
\<close>

theorem uids_strictly_ascending:
  assumes "unat (mb_uid_next s) + length cs < 2 ^ 32"
  shows "let uids = handed_out mailbox_assigned cs (snd (run_loop mailbox_exec mailbox_stops s cs)) in
    sorted_wrt (<) uids \<and> (\<forall>u\<in>set uids. mb_uid_next s \<le> u)"
  using mbc.handed_out_ascending [OF _ _ assms] by (simp add: Let_def)

theorem uids_strictly_ascending_witness:
  "let s = (mailbox_init ''u'' ''n'' 7 :: nat mailbox_state);
       cs = [MC_AssignUid ''a'', MC_RemoveMessage 1, MC_AssignUid ''a'', MC_AssignUid ''b''];
       uids = handed_out mailbox_assigned cs (snd (run_loop mailbox_exec mailbox_stops s cs)) in
   sorted_wrt (<) uids \<and> (\<forall>u\<in>set uids. mb_uid_next s \<le> u) \<and> uids = [1, 2, 3]"
  using uids_strictly_ascending
    [of "mailbox_init ''u'' ''n'' 7 :: nat mailbox_state"
      "[MC_AssignUid ''a'', MC_RemoveMessage 1, MC_AssignUid ''a'', MC_AssignUid ''b'']"]
  unfolding Let_def by (simp add: mailbox_init_def mb_op_defs)

section \<open>The operations of the handle\<close>

text \<open>
  Assigning a UID to a path that has one is refused and changes nothing; otherwise the
  next UID is bound to the path in both directions and every other binding stays.
\<close>

theorem assign_uid_spec:
  assumes "alive h"
  shows "case path_to_uid (state h) path of
      Some _ \<Rightarrow> assign_uid [] path h = (h, Err (Internal (''Path already has UID assigned: '' @ path)))
    | None \<Rightarrow> (\<exists>h'. assign_uid [] path h = (h', Ok (mb_uid_next (state h))) \<and> alive h' \<and>
        (\<forall>u. snd (get_path [] u h') =
               Ok (if u = mb_uid_next (state h) then Some path else uid_to_path (state h) u)) \<and>
        (\<forall>p. snd (get_uid [] p h') =
               Ok (if p = path then Some (mb_uid_next (state h)) else path_to_uid (state h) p)))"
  using assms by (cases h) (auto simp: mb_handle_defs actor_simps mb_assign_uid_def Let_def split: option.splits)

theorem assign_uid_spec_witness:
  "let h = \<lparr>alive = True, state = mailbox_init ''u'' ''n'' 7\<rparr> :: nat mailbox_handle; path = ''a'' in
   case path_to_uid (state h) path of
      Some _ \<Rightarrow> assign_uid [] path h = (h, Err (Internal (''Path already has UID assigned: '' @ path)))
    | None \<Rightarrow> (\<exists>h'. assign_uid [] path h = (h', Ok (mb_uid_next (state h))) \<and> alive h' \<and>
        (\<forall>u. snd (get_path [] u h') =
               Ok (if u = mb_uid_next (state h) then Some path else uid_to_path (state h) u)) \<and>
        (\<forall>p. snd (get_uid [] p h') =
               Ok (if p = path then Some (mb_uid_next (state h)) else path_to_uid (state h) p)))"
  unfolding Let_def by (rule assign_uid_spec) simp

text \<open>
  The rename of a message whose flags change. With the new path free, the UID keeps its
  identity: it is bound to the new path in both directions, the old path is unbound and every
  other binding stays. An unknown UID is reported and changes nothing.
\<close>

theorem update_path_spec:
  assumes "alive h" and "mb_inv (state h)" and "path_to_uid (state h) p = None"
  shows "case uid_to_path (state h) uid of
      None \<Rightarrow> update_path [] uid p h = (h, Err (uid_not_found uid))
    | Some old \<Rightarrow> (\<exists>h'. update_path [] uid p h = (h', Ok ()) \<and> alive h' \<and> mb_inv (state h') \<and>
        (\<forall>u. snd (get_path [] u h') = Ok (if u = uid then Some p else uid_to_path (state h) u)) \<and>
        (\<forall>q. snd (get_uid [] q h') =
               Ok (if q = p then Some uid else if q = old then None else path_to_uid (state h) q)))"
proof (cases "uid_to_path (state h) uid")
  case None
  then show ?thesis using assms(1) by (cases h) (simp add: mb_handle_defs actor_simps mb_update_path_def)
next
  case (Some old)
  have "mb_inv (fst (mb_update_path uid p (state h)))"
    using assms(2,3) by (intro mb_update_path_inv) simp_all
  then show ?thesis using assms(1) Some
    by (cases h) (auto simp: mb_handle_defs actor_simps mb_update_path_def)
qed

theorem update_path_spec_witness:
  "let h = \<lparr>alive = True, state = fst (mb_assign_uid ''a'' (mailbox_init ''u'' ''n'' 7))\<rparr> :: nat mailbox_handle;
       uid = 1; p = ''b'' in
   case uid_to_path (state h) uid of
      None \<Rightarrow> update_path [] uid p h = (h, Err (uid_not_found uid))
    | Some old \<Rightarrow> (\<exists>h'. update_path [] uid p h = (h', Ok ()) \<and> alive h' \<and> mb_inv (state h') \<and>
        (\<forall>u. snd (get_path [] u h') = Ok (if u = uid then Some p else uid_to_path (state h) u)) \<and>
        (\<forall>q. snd (get_uid [] q h') =
               Ok (if q = p then Some uid else if q = old then None else path_to_uid (state h) q)))"
proof -
  have i: "mb_inv (fst (mb_assign_uid ''a'' (mailbox_init ''u'' ''n'' 7 :: nat mailbox_state)))"
    by (rule mb_assign_uid_inv [OF mb_inv_init]) (simp add: mailbox_init_def)
  show ?thesis unfolding Let_def
    by (rule update_path_spec) (simp_all add: i, simp add: mailbox_init_def mb_assign_uid_def Let_def)
qed

text \<open>
  The code does not check that the new path is free. Renaming to a path that another UID
  owns leaves two UIDs at one path, the path pointing at the renamed one only, and a removal
  of the renamed UID then leaves the other one without its reverse entry.
\<close>

theorem update_path_collision:
  assumes "uid_to_path s u = Some p" and "uid_to_path s v = Some q" and "u \<noteq> v"
  shows "let s' = fst (mb_update_path u q s); s'' = fst (mb_remove_message u s') in
    uid_to_path s' u = Some q \<and> uid_to_path s' v = Some q \<and> path_to_uid s' q = Some u \<and>
    uid_to_path s'' v = Some q \<and> path_to_uid s'' q = None"
  using assms by (simp add: mb_op_defs)

theorem update_path_collision_witness:
  "let s = fst (mb_assign_uid ''b'' (fst (mb_assign_uid ''a'' (mailbox_init ''u'' ''n'' 7))));
       s' = fst (mb_update_path 1 ''b'' s); s'' = fst (mb_remove_message 1 s') in
    uid_to_path s' 1 = Some ''b'' \<and> uid_to_path s' 2 = Some ''b'' \<and> path_to_uid s' ''b'' = Some 1 \<and>
    uid_to_path s'' 2 = Some ''b'' \<and> path_to_uid s'' ''b'' = None"
  using update_path_collision
    [of "fst (mb_assign_uid ''b'' (fst (mb_assign_uid ''a'' (mailbox_init ''u'' ''n'' 7))))" 1 "''a''" 2 "''b''"]
  unfolding Let_def by (simp add: mailbox_init_def mb_assign_uid_def)

section \<open>Notifications\<close>

definition sent_to :: "'tx \<Rightarrow> 'tx mailbox_state \<Rightarrow> mailbox_notification list" where
  "sent_to tx s = map snd (filter (\<lambda>(t, n). t = tx) (outbox s))"

lemma sent_to_exec:
  assumes "tx \<notin> set (subscribers s)" and "c \<noteq> MC_Subscribe tx"
  shows "tx \<notin> set (subscribers (fst (mailbox_exec s c))) \<and> sent_to tx (fst (mailbox_exec s c)) = sent_to tx s"
proof (cases c)
  case (MC_Notify n accepts)
  have "filter (\<lambda>(t, n'). t = tx) (map (\<lambda>t. (t, n)) (filter accepts (subscribers s))) = []"
    using assms(1) by (auto simp: filter_empty_conv)
  then show ?thesis using assms(1) MC_Notify by (simp add: mb_notify_def sent_to_def)
qed (use assms in \<open>auto simp: mb_op_defs sent_to_def split: option.splits\<close>)

text \<open>
  A subscriber whose channel refuses one notification, because its receiver is gone or
  because its buffer is full at that moment, receives nothing from the mailbox any more.
\<close>

theorem refused_subscriber_dropped:
  assumes "\<not> accepts tx" and "MC_Subscribe tx \<notin> set cs"
  shows "sent_to tx (state (fst (run_loop mailbox_exec mailbox_stops (fst (mailbox_exec s (MC_Notify n accepts))) cs)))
    = sent_to tx s"
proof -
  have run: "tx \<notin> set (subscribers t) \<Longrightarrow> sent_to tx (state (fst (run_loop mailbox_exec mailbox_stops t cs))) = sent_to tx t" for t
    using assms(2)
  proof (induction cs arbitrary: t)
    case (Cons c cs)
    then show ?case using sent_to_exec [of tx t c]
      by (auto simp: run_loop_Cons_fst simp del: run_loop.simps(2))
  qed simp
  have "filter (\<lambda>(t, n'). t = tx) (map (\<lambda>t. (t, n)) (filter accepts (subscribers s))) = []"
    using assms(1) by (auto simp: filter_empty_conv)
  then have "sent_to tx (mb_notify n accepts s) = sent_to tx s" by (simp add: mb_notify_def sent_to_def)
  moreover have "tx \<notin> set (subscribers (mb_notify n accepts s))" using assms(1) by (simp add: mb_notify_def)
  ultimately show ?thesis using run by simp
qed

theorem refused_subscriber_dropped_witness:
  "sent_to (1::nat) (state (fst (run_loop mailbox_exec mailbox_stops
      (fst (mailbox_exec ((mailbox_init ''u'' ''n'' 7)\<lparr>subscribers := [1, 2]\<rparr>) (MC_Notify (MessageAdded 5) (\<lambda>t. t = 2))))
      [MC_Notify (MessageAdded 6) (\<lambda>_. True)])))
    = sent_to (1::nat) ((mailbox_init ''u'' ''n'' 7)\<lparr>subscribers := [1, 2]\<rparr>)"
  by (rule refused_subscriber_dropped) simp_all

end
