(* ===== verification/Protocol.thy ===== *)
theory Protocol
  imports Core_Types
begin

text \<open>
  src/protocol.rs: the commands of a client, the responses of the server with their wire
  form, and \<open>parse_command\<close>.
\<close>

section \<open>Commands and responses\<close>

datatype status_item =
    Status_Messages | Status_Recent | Status_Uidnext | Status_Uidvalidity | Status_Unseen

datatype fetch_item =
    Fetch_Uid | Fetch_Flags | Fetch_InternalDate | Fetch_Rfc822Size | Fetch_Envelope | Fetch_Body
  | Fetch_BodyStructure | Fetch_BodySection string | Fetch_Fast | Fetch_All | Fetch_Full

datatype command =
    Cmd_Capability
  | Cmd_Noop
  | Cmd_Logout
  | Cmd_Starttls
  | Cmd_Login string string
  | Cmd_Select string
  | Cmd_Examine string
  | Cmd_Create string
  | Cmd_Delete string
  | Cmd_Rename string string
  | Cmd_List string string
  | Cmd_Lsub string string
  | Cmd_Status string "status_item list"
  | Cmd_Append string "string list" "string option" bytes
  | Cmd_Check
  | Cmd_Close
  | Cmd_Expunge
  | Cmd_Search string
  | Cmd_Fetch string "fetch_item list"
  | Cmd_Store string "string list" bool
  | Cmd_Copy string string
  | Cmd_Uid command
  | Cmd_Custom string string

datatype response =
    Response_Ok "string option" string
  | Response_No "string option" string
  | Response_Bad "string option" string
  | Response_Bye string
  | Response_Untagged string
  | Response_Continuation string

definition crlf :: string where
  "crlf = [CHR 0x0D, CHR 0x0A]"

fun response_display :: "response \<Rightarrow> string" where
  "response_display (Response_Ok (Some tag) m) = tag @ '' OK '' @ m @ crlf"
| "response_display (Response_Ok None m) = ''* OK '' @ m @ crlf"
| "response_display (Response_No (Some tag) m) = tag @ '' NO '' @ m @ crlf"
| "response_display (Response_No None m) = ''* NO '' @ m @ crlf"
| "response_display (Response_Bad (Some tag) m) = tag @ '' BAD '' @ m @ crlf"
| "response_display (Response_Bad None m) = ''* BAD '' @ m @ crlf"
| "response_display (Response_Bye m) = ''* BYE '' @ m @ crlf"
| "response_display (Response_Untagged m) = ''* '' @ m @ crlf"
| "response_display (Response_Continuation m) = ''+ '' @ m @ crlf"

section \<open>The parser\<close>

definition unquote :: "string \<Rightarrow> string" where
  "unquote s = trim_matches CHR 0x22 s"

definition parse_command :: "string \<Rightarrow> string \<Rightarrow> command result" where
  "parse_command tag line =
     (let parts = split_whitespace line in
      if parts = [] then Err (ProtocolError ''Empty command'')
      else let cmd = to_uppercase (parts ! 0) in
        if cmd = ''CAPABILITY'' then Ok Cmd_Capability
        else if cmd = ''NOOP'' then Ok Cmd_Noop
        else if cmd = ''LOGOUT'' then Ok Cmd_Logout
        else if cmd = ''STARTTLS'' then Ok Cmd_Starttls
        else if cmd = ''LOGIN'' then
          (if length parts < 3 then Err (ProtocolError ''LOGIN requires username and password'')
           else Ok (Cmd_Login (unquote (parts ! 1)) (unquote (parts ! 2))))
        else if cmd = ''SELECT'' then
          (if length parts < 2 then Err (ProtocolError ''SELECT requires mailbox name'')
           else Ok (Cmd_Select (unquote (parts ! 1))))
        else if cmd = ''EXAMINE'' then
          (if length parts < 2 then Err (ProtocolError ''EXAMINE requires mailbox name'')
           else Ok (Cmd_Examine (unquote (parts ! 1))))
        else if cmd = ''CREATE'' then
          (if length parts < 2 then Err (ProtocolError ''CREATE requires mailbox name'')
           else Ok (Cmd_Create (unquote (parts ! 1))))
        else if cmd = ''DELETE'' then
          (if length parts < 2 then Err (ProtocolError ''DELETE requires mailbox name'')
           else Ok (Cmd_Delete (unquote (parts ! 1))))
        else if cmd = ''LIST'' then
          (if length parts < 3 then Err (ProtocolError ''LIST requires reference and pattern'')
           else Ok (Cmd_List (unquote (parts ! 1)) (unquote (parts ! 2))))
        else if cmd = ''CLOSE'' then Ok Cmd_Close
        else if cmd = ''EXPUNGE'' then Ok Cmd_Expunge
        else Ok (Cmd_Custom cmd (if length parts > 1 then join_with '' '' (tl parts) else [])))"

section \<open>Sending a command: the specification of the parser\<close>

text \<open>
  The words in which a client writes a command that the parser knows: its name, in any
  letter case, and the arguments, each bare or in quotes.
\<close>

fun command_words :: "command \<Rightarrow> (string \<times> string list) option" where
  "command_words Cmd_Capability = Some (''CAPABILITY'', [])"
| "command_words Cmd_Noop = Some (''NOOP'', [])"
| "command_words Cmd_Logout = Some (''LOGOUT'', [])"
| "command_words Cmd_Starttls = Some (''STARTTLS'', [])"
| "command_words (Cmd_Login u p) = Some (''LOGIN'', [u, p])"
| "command_words (Cmd_Select m) = Some (''SELECT'', [m])"
| "command_words (Cmd_Examine m) = Some (''EXAMINE'', [m])"
| "command_words (Cmd_Create m) = Some (''CREATE'', [m])"
| "command_words (Cmd_Delete m) = Some (''DELETE'', [m])"
| "command_words (Cmd_List r p) = Some (''LIST'', [r, p])"
| "command_words Cmd_Close = Some (''CLOSE'', [])"
| "command_words Cmd_Expunge = Some (''EXPUNGE'', [])"
| "command_words _ = None"

definition arg_written :: "string \<Rightarrow> string \<Rightarrow> bool" where
  "arg_written a w \<longleftrightarrow> CHR 0x22 \<notin> set a \<and> (\<forall>c\<in>set a. \<not> is_whitespace c) \<and>
     (w = a \<and> a \<noteq> [] \<or> w = CHR 0x22 # a @ [CHR 0x22])"

lemma arg_written_unquote: "arg_written a w \<Longrightarrow> unquote w = a"
  by (auto simp: arg_written_def unquote_def trim_matches_id trim_matches_quoted)

lemma arg_written_word: "arg_written a w \<Longrightarrow> word_text w"
  by (auto simp: arg_written_def word_text_def is_whitespace_def)

lemma case_variant_word:
  assumes "to_uppercase n = m" and "word_text m"
  shows "word_text n"
proof -
  have up: "is_whitespace (to_upper_char c) = is_whitespace c" for c
    by (auto simp: is_whitespace_def to_upper_char_def Let_def)
  show ?thesis using assms by (auto simp: word_text_def to_uppercase_def up)
qed

lemma command_words_name: "command_words c = Some (m, as) \<Longrightarrow> word_text m"
  by (cases c) (auto simp: word_text_def is_whitespace_def)

section \<open>Properties\<close>



text \<open>The least number of arguments that the parser asks of a name.\<close>

definition args_needed :: "string \<Rightarrow> nat" where
  "args_needed cmd = (if cmd = ''LOGIN'' \<or> cmd = ''LIST'' then 2
     else if cmd \<in> {''SELECT'', ''EXAMINE'', ''CREATE'', ''DELETE''} then 1 else 0)"

text \<open>
  The parser rejects exactly the blank lines and the lines with too few arguments for their
  command, always with a protocol error; every other line is some command.
\<close>

theorem parse_command_rejects:
  "(\<exists>e. parse_command tag line = Err e) \<longleftrightarrow>
     (case split_whitespace line of [] \<Rightarrow> True | n # ws \<Rightarrow> length ws < args_needed (to_uppercase n))"
proof (cases "split_whitespace line")
  case (Cons n ws)
  then show ?thesis by (simp add: parse_command_def args_needed_def Let_def)
qed (simp add: parse_command_def)

text \<open>The command names of the parser's match.\<close>

definition known_names :: "string list" where
  "known_names = [''CAPABILITY'', ''NOOP'', ''LOGOUT'', ''STARTTLS'', ''LOGIN'', ''SELECT'', ''EXAMINE'',
     ''CREATE'', ''DELETE'', ''LIST'', ''CLOSE'', ''EXPUNGE'']"

text \<open>
  A name that the parser does not know becomes a custom command with the upper-cased name,
  and its arguments are handed over with single spaces between them, unchanged otherwise:
  splitting them again gives the same words.
\<close>

theorem parse_command_custom:
  assumes "split_whitespace line = n # ws" and "to_uppercase n \<notin> set known_names"
  shows "\<exists>args. parse_command tag line = Ok (Cmd_Custom (to_uppercase n) args) \<and> split_whitespace args = ws"
proof -
  have "\<forall>w\<in>set ws. word_text w"
    using split_whitespace_word_text [of _ line] assms(1) by simp
  then have "split_whitespace (join_with '' '' ws) = ws" by (rule split_whitespace_join)
  then show ?thesis using assms
    by (cases ws) (simp_all add: parse_command_def known_names_def split_whitespace_def)
qed

theorem parse_command_custom_witness:
  "\<exists>args. parse_command ''A1'' ''xsize  a   b'' = Ok (Cmd_Custom ''XSIZE'' args) \<and> split_whitespace args = [''a'', ''b'']"
proof -
  have "to_uppercase ''xsize'' = ''XSIZE''" "split_whitespace ''xsize  a   b'' = [''xsize'', ''a'', ''b'']"
    by code_simp+
  then show ?thesis using parse_command_custom [of "''xsize  a   b''" "''xsize''" "[''a'', ''b'']" "''A1''"]
    by (simp add: known_names_def)
qed

text \<open>The texts that a response carries.\<close>

fun response_texts :: "response \<Rightarrow> string list" where
  "response_texts (Response_Ok t m) = (case t of Some t \<Rightarrow> [t, m] | None \<Rightarrow> [m])"
| "response_texts (Response_No t m) = (case t of Some t \<Rightarrow> [t, m] | None \<Rightarrow> [m])"
| "response_texts (Response_Bad t m) = (case t of Some t \<Rightarrow> [t, m] | None \<Rightarrow> [m])"
| "response_texts (Response_Bye m) = [m]"
| "response_texts (Response_Untagged m) = [m]"
| "response_texts (Response_Continuation m) = [m]"

lemma response_display_line:
  assumes "\<forall>t\<in>set (response_texts r). CHR 0x0A \<notin> set t"
  shows "\<exists>b. response_display r = b @ crlf \<and> CHR 0x0A \<notin> set b"
proof (cases r)
  case (Response_Ok t m)
  then show ?thesis using assms by (cases t) (force simp: crlf_def)+
next
  case (Response_No t m)
  then show ?thesis using assms by (cases t) (force simp: crlf_def)+
next
  case (Response_Bad t m)
  then show ?thesis using assms by (cases t) (force simp: crlf_def)+
qed (use assms in \<open>force simp: crlf_def\<close>)+

text \<open>
  No response whose tag and message are single lines can be mistaken for two: its wire form
  holds exactly one CRLF, at the end.
\<close>

theorem response_is_one_line:
  assumes "\<forall>t\<in>set (response_texts r). CHR 0x0A \<notin> set t"
    and "response_display r = b @ crlf @ rest"
  shows "rest = []"
proof -
  obtain d where d: "response_display r = d @ crlf" "CHR 0x0A \<notin> set d"
    using response_display_line [OF assms(1)] by blast
  have "count_list (response_display r) (CHR 0x0A) = 1"
    using d by (simp add: crlf_def count_notin)
  moreover have "last (response_display r) = CHR 0x0A" using d by (simp add: crlf_def)
  ultimately have "CHR 0x0A \<notin> set rest" "rest \<noteq> [] \<Longrightarrow> last rest = CHR 0x0A"
    using assms(2) by (auto simp: crlf_def count_list_0_iff)
  then show ?thesis using last_in_set by fastforce
qed

theorem response_is_one_line_witness:
  "\<forall>b rest. response_display (Response_Ok (Some ''A1'') ''done'') \<noteq> b @ crlf @ CHR ''x'' # rest"
  using response_is_one_line [of "Response_Ok (Some ''A1'') ''done''"] by auto

end
