(* ===== verification/Connection.thy ===== *)
theory Connection
  imports Protocol
begin

text \<open>
  src/connection.rs and src/session_context.rs: a client connection over its input and its
  output, and the shared session context. The network is part of the state: the bytes still
  to be read with what follows them (end of file or an error), and for the k-th write
  whether it fails. A failed write delivers nothing.
\<close>

section \<open>The connection\<close>

record connection =
  conn_tls :: bool
  conn_peer :: string
  conn_input :: string
  conn_input_end :: "string option"
  conn_write_error :: "nat \<Rightarrow> string option"
  conn_writes :: nat
  conn_sent :: "string list"

definition conn_plain :: "string result \<Rightarrow> string \<Rightarrow> string option \<Rightarrow> (nat \<Rightarrow> string option) \<Rightarrow> connection result" where
  "conn_plain peer_addr inp ending werr =
     (case peer_addr of Err e \<Rightarrow> Err e
      | Ok peer \<Rightarrow> Ok \<lparr>conn_tls = False, conn_peer = peer, conn_input = inp, conn_input_end = ending,
          conn_write_error = werr, conn_writes = 0, conn_sent = []\<rparr>)"

definition conn_secured :: "connection \<Rightarrow> connection" where
  "conn_secured c = c\<lparr>conn_tls := True\<rparr>"

text \<open>
  The upgrade drops the buffered reader, and with it what it had read ahead; \<open>handshake\<close> is
  what the TLS library answers: its error, or the client's input over the secured stream.
\<close>

definition upgrade_to_tls :: "string + string \<Rightarrow> connection \<Rightarrow> connection result" where
  "upgrade_to_tls handshake c =
     (if conn_tls c then Err (ProtocolError ''Connection already using TLS'')
      else case handshake of
          Inl e \<Rightarrow> Err (TlsError (''TLS handshake failed: '' @ e))
        | Inr inp \<Rightarrow> Ok (conn_secured (c\<lparr>conn_input := inp\<rparr>)))"

text \<open>\<open>read_line\<close>: up to and with the line feed, or to the end of the input.\<close>

definition read_line :: "connection \<Rightarrow> connection \<times> string result" where
  "read_line c =
     (case dropWhile (\<lambda>x. x \<noteq> CHR 0x0A) (conn_input c) of
        nl # rest \<Rightarrow> (c\<lparr>conn_input := rest\<rparr>, Ok (takeWhile (\<lambda>x. x \<noteq> CHR 0x0A) (conn_input c) @ [nl]))
      | [] \<Rightarrow> (case conn_input_end c of
            None \<Rightarrow> (c\<lparr>conn_input := []\<rparr>, Ok (conn_input c))
          | Some e \<Rightarrow> (c\<lparr>conn_input := []\<rparr>, Err (Io e))))"

definition conn_write_all :: "string \<Rightarrow> connection \<Rightarrow> connection \<times> unit result" where
  "conn_write_all buf c =
     (case conn_write_error c (conn_writes c) of
        None \<Rightarrow> (c\<lparr>conn_writes := conn_writes c + 1, conn_sent := conn_sent c @ [buf]\<rparr>, Ok ())
      | Some e \<Rightarrow> (c\<lparr>conn_writes := conn_writes c + 1\<rparr>, Err (Io e)))"

definition write_response :: "response \<Rightarrow> connection \<Rightarrow> connection \<times> unit result" where
  "write_response r = conn_write_all (response_display r)"

definition peer_addr :: "connection \<Rightarrow> string option" where
  "peer_addr c = Some (conn_peer c)"

lemma read_line_shorter:
  assumes "read_line c = (c', Ok l)" and "l \<noteq> []"
  shows "length (conn_input c') < length (conn_input c)"
proof (cases "dropWhile (\<lambda>x. x \<noteq> CHR 0x0A) (conn_input c)")
  case (Cons a rest)
  then have "length (a # rest) \<le> length (conn_input c)" using length_dropWhile_le [of "\<lambda>x. x \<noteq> CHR 0x0A" "conn_input c"] Cons by simp
  moreover have "c' = c\<lparr>conn_input := rest\<rparr>" using assms(1) Cons by (simp add: read_line_def)
  ultimately show ?thesis by simp
next
  case Nil
  then have "c' = c\<lparr>conn_input := []\<rparr> \<and> l = conn_input c"
    using assms(1) unfolding read_line_def by (simp only: list.case) (cases "conn_input_end c", simp_all)
  then show ?thesis using assms(2) by simp
qed

lemma read_line_fields [simp]:
  "conn_tls (fst (read_line c)) = conn_tls c"
  "conn_sent (fst (read_line c)) = conn_sent c"
  "conn_writes (fst (read_line c)) = conn_writes c"
  "conn_write_error (fst (read_line c)) = conn_write_error c"
  by (auto simp: read_line_def split: list.splits option.splits)

lemma conn_write_all_fields [simp]:
  "conn_tls (fst (conn_write_all b c)) = conn_tls c"
  "conn_input (fst (conn_write_all b c)) = conn_input c"
  "conn_input_end (fst (conn_write_all b c)) = conn_input_end c"
  "conn_write_error (fst (conn_write_all b c)) = conn_write_error c"
  by (simp_all add: conn_write_all_def split: option.splits)

lemma write_response_fields [simp]:
  "conn_tls (fst (write_response r c)) = conn_tls c"
  "conn_input (fst (write_response r c)) = conn_input c"
  "conn_input_end (fst (write_response r c)) = conn_input_end c"
  "conn_write_error (fst (write_response r c)) = conn_write_error c"
  by (simp_all add: write_response_def)

lemma write_response_sent:
  "snd (write_response r c) = Ok () \<Longrightarrow> conn_sent (fst (write_response r c)) = conn_sent c @ [response_display r]"
  by (simp add: write_response_def conn_write_all_def split: option.splits)

text \<open>A connection on which every further write succeeds.\<close>

definition conn_writable :: "connection \<Rightarrow> bool" where
  "conn_writable c \<longleftrightarrow> (\<forall>k. conn_write_error c k = None)"

lemma write_response_writable [simp]:
  "conn_writable c \<Longrightarrow> write_response r c =
     (c\<lparr>conn_writes := conn_writes c + 1, conn_sent := conn_sent c @ [response_display r]\<rparr>, Ok ())"
  by (simp add: write_response_def conn_write_all_def conn_writable_def)

lemma conn_writable_update [simp]:
  "conn_writable (c\<lparr>conn_writes := k\<rparr>) = conn_writable c"
  "conn_writable (c\<lparr>conn_sent := x\<rparr>) = conn_writable c"
  "conn_writable (c\<lparr>conn_input := i\<rparr>) = conn_writable c"
  "conn_writable (fst (read_line c)) = conn_writable c"
  by (simp_all add: conn_writable_def)

section \<open>The session context\<close>

datatype session_state =
    SS_NotAuthenticated
  | SS_Authenticated string
  | SS_Selected string string
  | SS_Logout

text \<open>The user a session state names.\<close>

fun state_user :: "session_state \<Rightarrow> string option" where
  "state_user (SS_Authenticated u) = Some u"
| "state_user (SS_Selected u m) = Some u"
| "state_user _ = None"

record shared_state =
  ctx_state :: session_state
  ctx_selected :: "string option"

definition ctx_new :: shared_state where
  "ctx_new = \<lparr>ctx_state = SS_NotAuthenticated, ctx_selected = None\<rparr>"

definition ctx_get_state :: "shared_state \<Rightarrow> session_state" where
  "ctx_get_state x = ctx_state x"

definition ctx_set_state :: "session_state \<Rightarrow> shared_state \<Rightarrow> shared_state" where
  "ctx_set_state s x = x\<lparr>ctx_state := s\<rparr>"

definition ctx_get_selected :: "shared_state \<Rightarrow> string option" where
  "ctx_get_selected x = ctx_selected x"

definition ctx_set_selected :: "string option \<Rightarrow> shared_state \<Rightarrow> shared_state" where
  "ctx_set_selected m x = x\<lparr>ctx_selected := m\<rparr>"

definition ctx_get_username :: "shared_state \<Rightarrow> string option" where
  "ctx_get_username x = (case ctx_get_state x of
     SS_Authenticated u \<Rightarrow> Some u | SS_Selected u m \<Rightarrow> Some u | _ \<Rightarrow> None)"

definition ctx_is_authenticated :: "shared_state \<Rightarrow> bool" where
  "ctx_is_authenticated x = (case ctx_get_state x of SS_NotAuthenticated \<Rightarrow> False | _ \<Rightarrow> True)"

definition ctx_has_selected :: "shared_state \<Rightarrow> bool" where
  "ctx_has_selected x = (ctx_get_selected x \<noteq> None)"

end
