(* ===== verification/Mailbox_Registry.thy ===== *)
theory Mailbox_Registry
  imports Writer_Loop
begin

text \<open>
  src/mailboxes/mod.rs and src/mailboxes/impl/memory.rs: the registry of all mailboxes, its
  writer loop and the reads that bypass it. The regex crate is the parameter \<open>rx\<close>: what
  \<open>Regex::new\<close> makes of a pattern, \<open>None\<close> for an error, else its \<open>is_match\<close>.
\<close>

section \<open>State and operations\<close>

datatype mailbox_filter =
    MF_All | MF_Exact string | MF_Prefix string | MF_Suffix string | MF_Regex string

record mailbox_info =
  mi_id :: mailbox_id
  mi_uid_validity :: u32
  mi_next_uid :: uid
  mi_root_path :: string
  mi_message_count :: u32
  mi_unseen_count :: u32
  mi_recent_count :: u32

type_synonym mailbox_key = "string \<times> string"

record registry =
  reg_mailboxes :: "(mailbox_key \<times> mailbox_info) list"
  reg_id_to_key :: "mailbox_id \<rightharpoonup> mailbox_key"
  reg_next_uid_validity :: u32

definition registry_init :: registry where
  "registry_init = \<lparr>reg_mailboxes = [], reg_id_to_key = Map.empty, reg_next_uid_validity = 1\<rparr>"

definition reg_get :: "registry \<Rightarrow> string \<Rightarrow> string \<Rightarrow> mailbox_info option" where
  "reg_get s username name = map_of (reg_mailboxes s) (username, name)"

definition mailbox_info_new :: "string \<Rightarrow> string \<Rightarrow> u32 \<Rightarrow> mailbox_info" where
  "mailbox_info_new username name validity =
     \<lparr>mi_id = \<lparr>id_username = username, id_name = name\<rparr>, mi_uid_validity = validity, mi_next_uid = 1,
      mi_root_path = username @ ''/'' @ name, mi_message_count = 0, mi_unseen_count = 0, mi_recent_count = 0\<rparr>"

definition reg_create :: "string \<Rightarrow> string \<Rightarrow> registry \<Rightarrow> registry \<times> mailbox_info result" where
  "reg_create username name s =
     (if reg_get s username name \<noteq> None then (s, Err (MailboxExists name))
      else let info = mailbox_info_new username name (reg_next_uid_validity s) in
        (s\<lparr>reg_next_uid_validity := reg_next_uid_validity s + 1,
           reg_id_to_key := (reg_id_to_key s)(mi_id info \<mapsto> (username, name)),
           reg_mailboxes := AList.update (username, name) info (reg_mailboxes s)\<rparr>, Ok info))"

definition reg_delete :: "string \<Rightarrow> string \<Rightarrow> registry \<Rightarrow> registry \<times> unit result" where
  "reg_delete username name s =
     (case reg_get s username name of
        Some info \<Rightarrow> (s\<lparr>reg_mailboxes := AList.delete (username, name) (reg_mailboxes s),
                         reg_id_to_key := (reg_id_to_key s)(mi_id info := None)\<rparr>, Ok ())
      | None \<Rightarrow> (s, Err (MailboxNotFound name)))"

definition reg_next_uid :: "string \<Rightarrow> string \<Rightarrow> registry \<Rightarrow> registry \<times> uid result" where
  "reg_next_uid username name s =
     (case reg_get s username name of
        Some info \<Rightarrow>
          (s\<lparr>reg_mailboxes := AList.update (username, name)
                (info\<lparr>mi_next_uid := mi_next_uid info + 1\<rparr>) (reg_mailboxes s)\<rparr>, Ok (mi_next_uid info))
      | None \<Rightarrow> (s, Err (MailboxNotFound name)))"

text \<open>The shape that the three updates by identifier share: two lookups, then a field write.\<close>

definition reg_modify :: "mailbox_id \<Rightarrow> (mailbox_info \<Rightarrow> mailbox_info) \<Rightarrow> registry \<Rightarrow> registry \<times> unit result" where
  "reg_modify i f s =
     (case reg_id_to_key s i of
        Some key \<Rightarrow>
          (case map_of (reg_mailboxes s) key of
             Some info \<Rightarrow> (s\<lparr>reg_mailboxes := AList.update key (f info) (reg_mailboxes s)\<rparr>, Ok ())
           | None \<Rightarrow> (s, Err (MailboxNotFound (id_name i))))
      | None \<Rightarrow> (s, Err (MailboxNotFound (id_name i))))"

definition reg_update_next_uid :: "mailbox_id \<Rightarrow> uid \<Rightarrow> registry \<Rightarrow> registry \<times> unit result" where
  "reg_update_next_uid i u = reg_modify i (\<lambda>info. info\<lparr>mi_next_uid := u\<rparr>)"

definition reg_update_uid_validity :: "mailbox_id \<Rightarrow> u32 \<Rightarrow> registry \<Rightarrow> registry \<times> unit result" where
  "reg_update_uid_validity i v = reg_modify i (\<lambda>info. info\<lparr>mi_uid_validity := v\<rparr>)"

definition reg_update_counts :: "mailbox_id \<Rightarrow> u32 \<Rightarrow> u32 \<Rightarrow> u32 \<Rightarrow> registry \<Rightarrow> registry \<times> unit result" where
  "reg_update_counts i m u r =
     reg_modify i (\<lambda>info. info\<lparr>mi_message_count := m, mi_unseen_count := u, mi_recent_count := r\<rparr>)"

section \<open>Listing\<close>

text \<open>
  The name test of each filter. An invalid regular expression matches nothing, which gives
  the empty list that the source returns for it.
\<close>

fun filter_accepts :: "(string \<Rightarrow> (string \<Rightarrow> bool) option) \<Rightarrow> mailbox_filter \<Rightarrow> string \<Rightarrow> bool" where
  "filter_accepts rx MF_All name = True"
| "filter_accepts rx (MF_Exact p) name =
     (if eq_ignore_ascii_case name ''INBOX'' \<and> eq_ignore_ascii_case p ''INBOX'' then True else name = p)"
| "filter_accepts rx (MF_Prefix p) name = starts_with name p"
| "filter_accepts rx (MF_Suffix p) name = ends_with name p"
| "filter_accepts rx (MF_Regex p) name = (case rx p of Some is_match \<Rightarrow> is_match name | None \<Rightarrow> False)"

definition reg_list :: "(string \<Rightarrow> (string \<Rightarrow> bool) option) \<Rightarrow> registry \<Rightarrow> string \<Rightarrow> mailbox_filter \<Rightarrow> mailbox_info list" where
  "reg_list rx s username flt =
     filter (\<lambda>m. filter_accepts rx flt (id_name (mi_id m)))
       (map snd (filter (\<lambda>((u, n), info). u = username) (reg_mailboxes s)))"

section \<open>The writer loop and the handle\<close>

datatype registry_command =
    RC_Create string string
  | RC_Delete string string
  | RC_GetNextUid string string
  | RC_UpdateNextUid mailbox_id uid
  | RC_UpdateUidValidity mailbox_id u32
  | RC_UpdateCounts mailbox_id u32 u32 u32
  | RC_Shutdown

datatype registry_reply =
  RR_Info "mailbox_info result" | RR_Unit "unit result" | RR_Uid "uid result" | RR_Stopped

fun registry_exec :: "registry \<Rightarrow> registry_command \<Rightarrow> registry \<times> registry_reply" where
  "registry_exec s (RC_Create u n) = (case reg_create u n s of (s', r) \<Rightarrow> (s', RR_Info r))"
| "registry_exec s (RC_Delete u n) = (case reg_delete u n s of (s', r) \<Rightarrow> (s', RR_Unit r))"
| "registry_exec s (RC_GetNextUid u n) = (case reg_next_uid u n s of (s', r) \<Rightarrow> (s', RR_Uid r))"
| "registry_exec s (RC_UpdateNextUid i u) = (case reg_update_next_uid i u s of (s', r) \<Rightarrow> (s', RR_Unit r))"
| "registry_exec s (RC_UpdateUidValidity i v) = (case reg_update_uid_validity i v s of (s', r) \<Rightarrow> (s', RR_Unit r))"
| "registry_exec s (RC_UpdateCounts i m u r) = (case reg_update_counts i m u r s of (s', q) \<Rightarrow> (s', RR_Unit q))"
| "registry_exec s RC_Shutdown = (s, RR_Stopped)"

fun registry_stops :: "registry_command \<Rightarrow> bool" where
  "registry_stops RC_Shutdown = True"
| "registry_stops _ = False"

type_synonym mailboxes = "registry actor"

definition mailboxes_new :: mailboxes where
  "mailboxes_new = \<lparr>alive = True, state = registry_init\<rparr>"

fun rr_info :: "registry_reply \<Rightarrow> mailbox_info result" where "rr_info (RR_Info r) = r"
fun rr_unit :: "registry_reply \<Rightarrow> unit result" where "rr_unit (RR_Unit r) = r"
fun rr_uid :: "registry_reply \<Rightarrow> uid result" where "rr_uid (RR_Uid r) = r"

text \<open>Every method has its own pair of error texts, made from the name of the request.\<close>

definition registry_call ::
  "string \<Rightarrow> (registry_reply \<Rightarrow> 'a result) \<Rightarrow> registry_command list \<Rightarrow> registry_command \<Rightarrow>
   mailboxes \<Rightarrow> mailboxes \<times> 'a result" where
  "registry_call what = client_op registry_exec registry_stops
     (Internal (''Failed to send '' @ what @ '' command''))
     (Internal (''Failed to receive '' @ what @ '' response''))"

definition create_mailbox :: "registry_command list \<Rightarrow> string \<Rightarrow> string \<Rightarrow> mailboxes \<Rightarrow> mailboxes \<times> mailbox_info result" where
  "create_mailbox pending u n = registry_call ''create'' rr_info pending (RC_Create u n)"

definition get_mailbox :: "string \<Rightarrow> string \<Rightarrow> mailboxes \<Rightarrow> mailbox_info option result" where
  "get_mailbox u n mb = Ok (reg_get (state mb) u n)"

definition delete_mailbox :: "registry_command list \<Rightarrow> string \<Rightarrow> string \<Rightarrow> mailboxes \<Rightarrow> mailboxes \<times> unit result" where
  "delete_mailbox pending u n = registry_call ''delete'' rr_unit pending (RC_Delete u n)"

definition list_mailboxes :: "(string \<Rightarrow> (string \<Rightarrow> bool) option) \<Rightarrow> string \<Rightarrow> mailbox_filter \<Rightarrow> mailboxes \<Rightarrow> mailbox_info list result" where
  "list_mailboxes rx u flt mb = Ok (reg_list rx (state mb) u flt)"

definition get_next_uid :: "registry_command list \<Rightarrow> string \<Rightarrow> string \<Rightarrow> mailboxes \<Rightarrow> mailboxes \<times> uid result" where
  "get_next_uid pending u n = registry_call ''get next UID'' rr_uid pending (RC_GetNextUid u n)"

definition update_next_uid :: "registry_command list \<Rightarrow> mailbox_id \<Rightarrow> uid \<Rightarrow> mailboxes \<Rightarrow> mailboxes \<times> unit result" where
  "update_next_uid pending i u = registry_call ''update next UID'' rr_unit pending (RC_UpdateNextUid i u)"

definition update_uid_validity :: "registry_command list \<Rightarrow> mailbox_id \<Rightarrow> u32 \<Rightarrow> mailboxes \<Rightarrow> mailboxes \<times> unit result" where
  "update_uid_validity pending i v = registry_call ''update UID validity'' rr_unit pending (RC_UpdateUidValidity i v)"

definition update_counts :: "registry_command list \<Rightarrow> mailbox_id \<Rightarrow> u32 \<Rightarrow> u32 \<Rightarrow> u32 \<Rightarrow> mailboxes \<Rightarrow> mailboxes \<times> unit result" where
  "update_counts pending i m u r = registry_call ''update counts'' rr_unit pending (RC_UpdateCounts i m u r)"

text \<open>Shutdown, unlike the other components', reports a failed send and a dropped reply.\<close>

definition mailboxes_shutdown :: "registry_command list \<Rightarrow> mailboxes \<Rightarrow> mailboxes \<times> unit result" where
  "mailboxes_shutdown pending = registry_call ''shutdown'' (\<lambda>_. Ok ()) pending RC_Shutdown"

lemmas reg_op_defs = reg_create_def reg_delete_def reg_next_uid_def reg_update_next_uid_def
  reg_update_uid_validity_def reg_update_counts_def reg_modify_def
lemmas registry_handle_defs = create_mailbox_def get_mailbox_def delete_mailbox_def list_mailboxes_def
  get_next_uid_def update_next_uid_def update_uid_validity_def update_counts_def mailboxes_shutdown_def
  registry_call_def

section \<open>The invariant\<close>

definition key_id :: "mailbox_key \<Rightarrow> mailbox_id" where
  "key_id k = \<lparr>id_username = fst k, id_name = snd k\<rparr>"

lemma key_id_inj [simp]: "key_id k = key_id k' \<longleftrightarrow> k = k'"
  by (cases k; cases k') (simp add: key_id_def)

text \<open>
  One entry per key, every entry stored under the key that its identifier spells, and the
  reverse map knowing exactly the identifiers of the stored mailboxes.
\<close>

definition reg_inv :: "registry \<Rightarrow> bool" where
  "reg_inv s \<longleftrightarrow> al_wf (reg_mailboxes s) \<and>
     (\<forall>k info. map_of (reg_mailboxes s) k = Some info \<longrightarrow>
        mi_id info = key_id k \<and> mi_root_path info = fst k @ ''/'' @ snd k) \<and>
     (\<forall>i k. reg_id_to_key s i = Some k \<longleftrightarrow> i = key_id k \<and> map_of (reg_mailboxes s) k \<noteq> None)"

lemma reg_inv_init [inv_intros]: "reg_inv registry_init"
  by (simp add: reg_inv_def registry_init_def)

lemma reg_inv_mi_id: "reg_inv s \<Longrightarrow> reg_get s u n = Some info \<Longrightarrow> mi_id info = key_id (u, n)"
  by (simp add: reg_inv_def reg_get_def)

lemma reg_create_inv [inv_intros]:
  assumes "reg_inv s"
  shows "reg_inv (fst (reg_create u n s))"
proof (cases "reg_get s u n")
  case None
  have "mi_id (mailbox_info_new u n v) = key_id (u, n)" for v
    by (simp add: mailbox_info_new_def key_id_def)
  then show ?thesis using assms None
    by (auto simp: reg_create_def Let_def reg_inv_def reg_get_def mailbox_info_new_def)
qed (simp add: reg_create_def assms)

lemma reg_delete_inv [inv_intros]:
  assumes "reg_inv s"
  shows "reg_inv (fst (reg_delete u n s))"
  using assms reg_inv_mi_id [OF assms, of u n]
  by (auto simp: reg_delete_def reg_inv_def reg_get_def split: option.splits)

lemma reg_overwrite_inv:
  assumes "reg_inv s" and "map_of (reg_mailboxes s) k = Some info"
    and "mi_id info' = mi_id info" and "mi_root_path info' = mi_root_path info"
  shows "reg_inv (s\<lparr>reg_mailboxes := AList.update k info' (reg_mailboxes s)\<rparr>)"
  using assms by (auto simp: reg_inv_def)

lemma reg_next_uid_inv [inv_intros]: "reg_inv s \<Longrightarrow> reg_inv (fst (reg_next_uid u n s))"
  by (auto simp: reg_next_uid_def reg_get_def intro: reg_overwrite_inv split: option.splits)

lemma reg_modify_inv:
  "reg_inv s \<Longrightarrow> (\<And>info. mi_id (f info) = mi_id info \<and> mi_root_path (f info) = mi_root_path info) \<Longrightarrow>
   reg_inv (fst (reg_modify i f s))"
  by (auto simp: reg_modify_def intro: reg_overwrite_inv split: option.splits)

lemma registry_exec_inv: "reg_inv s \<Longrightarrow> reg_inv (fst (registry_exec s c))"
  by (cases c) (simp_all add: case_prod_beta inv_intros reg_update_next_uid_def reg_update_uid_validity_def
    reg_update_counts_def reg_modify_inv)

interpretation rgl: writer_loop registry_exec registry_stops reg_inv "\<lambda>_ _. True" registry_init
  by unfold_locales (simp_all add: inv_intros registry_exec_inv)

section \<open>The contract of a mailbox store\<close>

text \<open>
  The part of the \<open>Mailboxes\<close> trait that the command handlers and the indexer call.
  \<open>lookup\<close> is the abstract content, a map from (user, name) to the stored information.
\<close>

locale mailbox_store =
  fixes create :: "string \<Rightarrow> string \<Rightarrow> 'm \<Rightarrow> 'm \<times> mailbox_info result"
    and get :: "string \<Rightarrow> string \<Rightarrow> 'm \<Rightarrow> mailbox_info option result"
    and delete :: "string \<Rightarrow> string \<Rightarrow> 'm \<Rightarrow> 'm \<times> unit result"
    and listing :: "string \<Rightarrow> mailbox_filter \<Rightarrow> 'm \<Rightarrow> mailbox_info list result"
    and accepts :: "mailbox_filter \<Rightarrow> string \<Rightarrow> bool"
    and lookup :: "'m \<Rightarrow> mailbox_key \<rightharpoonup> mailbox_info"
    and up :: "'m \<Rightarrow> bool"
  assumes get_lookup: "get u n m = Ok (lookup m (u, n))"
    and create_dup: "up m \<Longrightarrow> lookup m (u, n) \<noteq> None \<Longrightarrow> create u n m = (m, Err (MailboxExists n))"
    and create_fresh: "up m \<Longrightarrow> lookup m (u, n) = None \<Longrightarrow> \<exists>m' info. create u n m = (m', Ok info) \<and> up m' \<and>
      mi_id info = key_id (u, n) \<and> mi_next_uid info = 1 \<and> lookup m' = (lookup m)((u, n) \<mapsto> info)"
    and delete_unknown: "up m \<Longrightarrow> lookup m (u, n) = None \<Longrightarrow> delete u n m = (m, Err (MailboxNotFound n))"
    and delete_known: "up m \<Longrightarrow> lookup m (u, n) \<noteq> None \<Longrightarrow> \<exists>m'. delete u n m = (m', Ok ()) \<and> up m' \<and>
      lookup m' = (lookup m)((u, n) := None)"
    and listing_exact: "up m \<Longrightarrow> \<exists>is. listing u f m = Ok is \<and> distinct is \<and>
      set is = {i. \<exists>n. lookup m (u, n) = Some i \<and> accepts f n}"
begin

lemma create_get: "up m \<Longrightarrow> \<exists>info. get u n (fst (create u n m)) = Ok (Some info)"
  using create_dup [of m u n] create_fresh [of m u n] by (cases "lookup m (u, n)") (auto simp: get_lookup)

lemma delete_get: "up m \<Longrightarrow> get u n (fst (delete u n m)) = Ok None"
  using delete_unknown [of m u n] delete_known [of m u n] by (cases "lookup m (u, n)") (auto simp: get_lookup)

lemma lookup_other:
  assumes "up m" and "(v, k) \<noteq> (u, n)"
  shows "lookup (fst (create u n m)) (v, k) = lookup m (v, k) \<and> lookup (fst (delete u n m)) (v, k) = lookup m (v, k)"
  using assms create_dup [of m u n] create_fresh [of m u n] delete_unknown [of m u n] delete_known [of m u n]
  by (cases "lookup m (u, n)") auto

lemma create_up: "up m \<Longrightarrow> up (fst (create u n m))"
  using create_dup [of m u n] create_fresh [of m u n] by (cases "lookup m (u, n)") auto

lemma delete_up: "up m \<Longrightarrow> up (fst (delete u n m))"
  using delete_unknown [of m u n] delete_known [of m u n] by (cases "lookup m (u, n)") auto

lemma listing_member:
  "up m \<Longrightarrow> listing u f m = Ok is \<Longrightarrow> i \<in> set is \<longleftrightarrow> (\<exists>n. lookup m (u, n) = Some i \<and> accepts f n)"
  using listing_exact [of m u f] by auto

lemma listing_isolated:
  assumes "up m" and "u \<noteq> v"
    and "listing v f m = Ok is" and "listing v f (fst (create u n m)) = Ok js" and "listing v f (fst (delete u n m)) = Ok ks"
  shows "set js = set is \<and> set ks = set is"
  using listing_member [OF create_up [OF assms(1)] assms(4)] listing_member [OF delete_up [OF assms(1)] assms(5)]
    listing_member [OF assms(1,3)] lookup_other [OF assms(1), of v _ u n] assms(2) by auto

end

lemma reg_list_set:
  assumes "reg_inv s"
  shows "set (reg_list rx s u flt) = {i. \<exists>n. reg_get s u n = Some i \<and> filter_accepts rx flt n}"
proof -
  have wf: "al_wf (reg_mailboxes s)" using assms by (simp add: reg_inv_def)
  have name: "id_name (mi_id i) = n" if "reg_get s u n = Some i" for n i
    using reg_inv_mi_id [OF assms that] by (simp add: key_id_def)
  have "i \<in> set (reg_list rx s u flt) \<longleftrightarrow>
      (\<exists>n. ((u, n), i) \<in> set (reg_mailboxes s) \<and> filter_accepts rx flt (id_name (mi_id i)))" for i
    by (force simp: reg_list_def)
  then show ?thesis using name by (auto simp: reg_get_def al_wf_map_of [OF wf])
qed

lemma reg_list_distinct:
  assumes "reg_inv s"
  shows "distinct (reg_list rx s u flt)"
proof -
  have wf: "al_wf (reg_mailboxes s)" using assms by (simp add: reg_inv_def)
  have mem: "mi_id (snd e) = key_id (fst e)" if "e \<in> set (reg_mailboxes s)" for e
    using that assms al_wf_map_of [OF wf, of "fst e" "snd e"] unfolding reg_inv_def by (metis prod.collapse)
  have "inj_on snd (set (reg_mailboxes s))"
    by (rule inj_onI) (metis key_id_inj mem prod_eqI)
  moreover have "distinct (reg_mailboxes s)" using wf by (auto simp: al_wf_def distinct_map)
  ultimately show ?thesis unfolding reg_list_def
    by (intro distinct_filter) (auto simp: distinct_map intro: inj_on_subset)
qed

text \<open>The content of the in-memory registry, and the states in which it serves.\<close>

definition registry_lookup :: "mailboxes \<Rightarrow> mailbox_key \<rightharpoonup> mailbox_info" where
  "registry_lookup mb = map_of (reg_mailboxes (state mb))"

definition registry_up :: "mailboxes \<Rightarrow> bool" where
  "registry_up mb \<longleftrightarrow> alive mb \<and> reg_inv (state mb)"

lemma registry_up_new: "registry_up mailboxes_new"
  by (simp add: registry_up_def mailboxes_new_def reg_inv_init)

text \<open>The user whose mailboxes a command is about, and the commands of clients about other users.\<close>

fun registry_command_user :: "registry_command \<Rightarrow> string option" where
  "registry_command_user (RC_Create u n) = Some u"
| "registry_command_user (RC_Delete u n) = Some u"
| "registry_command_user (RC_GetNextUid u n) = Some u"
| "registry_command_user (RC_UpdateNextUid i u) = Some (id_username i)"
| "registry_command_user (RC_UpdateUidValidity i v) = Some (id_username i)"
| "registry_command_user (RC_UpdateCounts i m u r) = Some (id_username i)"
| "registry_command_user RC_Shutdown = None"

definition leaves_user :: "string \<Rightarrow> registry_command \<Rightarrow> bool" where
  "leaves_user v c \<longleftrightarrow> \<not> registry_stops c \<and> registry_command_user c \<noteq> Some v"

lemma reg_modify_other:
  "reg_inv s \<Longrightarrow> id_username i \<noteq> v \<Longrightarrow> map_of (reg_mailboxes (fst (reg_modify i f s))) (v, n) = map_of (reg_mailboxes s) (v, n)"
  by (auto simp: reg_modify_def reg_inv_def key_id_def split: option.splits)

lemma registry_exec_other:
  assumes "reg_inv s" and "leaves_user v c"
  shows "map_of (reg_mailboxes (fst (registry_exec s c))) (v, n) = map_of (reg_mailboxes s) (v, n)"
  using assms by (cases c) (auto simp: leaves_user_def reg_create_def reg_delete_def reg_next_uid_def
    reg_update_next_uid_def reg_update_uid_validity_def reg_update_counts_def reg_modify_other case_prod_beta Let_def
    split: option.splits)

lemma registry_run_other:
  "reg_inv s \<Longrightarrow> \<forall>c\<in>set cs. leaves_user v c \<Longrightarrow>
   alive (fst (run_loop registry_exec registry_stops s cs)) \<and> reg_inv (state (fst (run_loop registry_exec registry_stops s cs))) \<and>
   map_of (reg_mailboxes (state (fst (run_loop registry_exec registry_stops s cs)))) (v, n) = map_of (reg_mailboxes s) (v, n)"
proof (induction cs arbitrary: s)
  case (Cons c cs)
  have "\<not> registry_stops c" using Cons.prems(2) by (simp add: leaves_user_def)
  then show ?case
    using Cons.IH [OF registry_exec_inv [OF Cons.prems(1)], of c] Cons.prems registry_exec_other [OF Cons.prems(1), of v c n]
    by (simp add: run_loop_Cons_fst del: run_loop.simps(2))
qed simp

text \<open>Only its own deletion removes a mailbox.\<close>

definition keeps_key :: "mailbox_key \<Rightarrow> registry_command \<Rightarrow> bool" where
  "keeps_key k c \<longleftrightarrow> \<not> registry_stops c \<and> c \<noteq> RC_Delete (fst k) (snd k)"

lemma registry_exec_keeps:
  assumes "keeps_key k c" and "map_of (reg_mailboxes s) k \<noteq> None"
  shows "map_of (reg_mailboxes (fst (registry_exec s c))) k \<noteq> None"
  using assms by (cases c; cases k) (auto simp: keeps_key_def reg_op_defs reg_modify_def Let_def split: option.splits)

lemma registry_run_keeps:
  "reg_inv s \<Longrightarrow> \<forall>c\<in>set cs. keeps_key k c \<Longrightarrow> map_of (reg_mailboxes s) k \<noteq> None \<Longrightarrow>
   alive (fst (run_loop registry_exec registry_stops s cs)) \<and> reg_inv (state (fst (run_loop registry_exec registry_stops s cs))) \<and>
   map_of (reg_mailboxes (state (fst (run_loop registry_exec registry_stops s cs)))) k \<noteq> None"
proof (induction cs arbitrary: s)
  case (Cons c cs)
  have "\<not> registry_stops c" "keeps_key k c" using Cons.prems(2) by (simp_all add: keeps_key_def)
  then show ?case
    using Cons.IH [OF registry_exec_inv [OF Cons.prems(1)] _ registry_exec_keeps [OF _ Cons.prems(3)], of c] Cons.prems(2)
    by (simp add: run_loop_Cons_fst del: run_loop.simps(2))
qed simp

interpretation mbs: mailbox_store "create_mailbox []" get_mailbox "delete_mailbox []"
    "list_mailboxes rx" "filter_accepts rx" registry_lookup registry_up for rx
proof (unfold_locales, goal_cases)
  case (1 u n m)
  show ?case by (simp add: get_mailbox_def registry_lookup_def reg_get_def)
next
  case (2 m u n)
  then show ?case
    by (cases m) (auto simp: registry_up_def registry_lookup_def registry_handle_defs actor_simps reg_create_def reg_get_def)
next
  case (3 m u n)
  then show ?case using reg_create_inv [of "state m" u n]
    by (auto simp: registry_up_def registry_lookup_def registry_handle_defs actor_simps reg_create_def reg_get_def
        mailbox_info_new_def key_id_def Let_def)
next
  case (4 m u n)
  then show ?case
    by (cases m) (auto simp: registry_up_def registry_lookup_def registry_handle_defs actor_simps reg_delete_def reg_get_def)
next
  case (5 m u n)
  then show ?case using reg_delete_inv [of "state m" u n]
    by (auto simp: registry_up_def registry_lookup_def registry_handle_defs actor_simps reg_delete_def reg_get_def)
next
  case (6 m u f)
  then show ?case
    by (simp add: registry_up_def list_mailboxes_def reg_list_distinct reg_list_set registry_lookup_def reg_get_def)
qed

section \<open>Properties\<close>

text \<open>
  In every state that any sequence of commands leads to, each mailbox is stored once,
  under the user and the name that its identifier spells, and the reverse map knows exactly
  the stored mailboxes.
\<close>

theorem registry_consistent:
  "let s = state (fst (run_loop registry_exec registry_stops registry_init cs)) in
    distinct (map fst (reg_mailboxes s)) \<and>
    (\<forall>u n info. reg_get s u n = Some info \<longrightarrow>
       id_username (mi_id info) = u \<and> id_name (mi_id info) = n \<and> reg_id_to_key s (mi_id info) = Some (u, n)) \<and>
    (\<forall>i u n. reg_id_to_key s i = Some (u, n) \<longrightarrow> (\<exists>info. reg_get s u n = Some info \<and> mi_id info = i))"
proof -
  have "reg_inv (state (fst (run_loop registry_exec registry_stops registry_init cs)))"
    by (rule rgl.run_init_inv) (simp add: run_ok_trivial)
  then show ?thesis by (auto simp: reg_inv_def reg_get_def al_wf_def key_id_def Let_def)
qed

theorem registry_consistent_witness:
  "\<exists>info. reg_get (state (fst (run_loop registry_exec registry_stops registry_init
        [RC_Create ''a'' ''INBOX'', RC_Create ''a'' ''x'', RC_Delete ''a'' ''INBOX'']))) ''a'' ''x'' = Some info \<and>
      mi_id info = key_id (''a'', ''x'')"
proof -
  let ?s = "state (fst (run_loop registry_exec registry_stops registry_init
        [RC_Create ''a'' ''INBOX'', RC_Create ''a'' ''x'', RC_Delete ''a'' ''INBOX'']))"
  have "reg_id_to_key ?s (key_id (''a'', ''x'')) = Some (''a'', ''x'')"
    by (simp add: registry_init_def reg_op_defs reg_get_def mailbox_info_new_def key_id_def Let_def)
  then show ?thesis
    using registry_consistent [of "[RC_Create ''a'' ''INBOX'', RC_Create ''a'' ''x'', RC_Delete ''a'' ''INBOX'']"]
    unfolding Let_def by blast
qed

text \<open>
  A listing holds exactly the user's own mailboxes whose name the filter accepts, each once.
\<close>

theorem listing_is_exact:
  assumes "registry_up mb"
  shows "\<exists>is. list_mailboxes rx u f mb = Ok is \<and> distinct is \<and>
    set is = {i. \<exists>n. get_mailbox u n mb = Ok (Some i) \<and> filter_accepts rx f n}"
  using mbs.listing_exact [OF assms] by (simp add: mbs.get_lookup)

theorem listing_is_exact_witness:
  "\<exists>is. list_mailboxes (\<lambda>_. None) ''a'' (MF_Prefix ''IN'') (fst (create_mailbox [] ''a'' ''INBOX'' mailboxes_new)) = Ok is \<and>
    distinct is \<and> set is = {i. \<exists>n. get_mailbox ''a'' n (fst (create_mailbox [] ''a'' ''INBOX'' mailboxes_new)) = Ok (Some i)
      \<and> filter_accepts (\<lambda>_. None) (MF_Prefix ''IN'') n}"
  by (rule listing_is_exact) (rule mbs.create_up [OF registry_up_new])

text \<open>No operation of one user changes what another user's listing holds.\<close>

theorem listing_user_isolation:
  assumes "registry_up mb" and "u \<noteq> v"
    and "list_mailboxes rx v f mb = Ok is"
    and "list_mailboxes rx v f (fst (create_mailbox [] u n mb)) = Ok js"
    and "list_mailboxes rx v f (fst (delete_mailbox [] u n mb)) = Ok ks"
  shows "set js = set is \<and> set ks = set is"
  using assms by (rule mbs.listing_isolated)

theorem listing_user_isolation_witness:
  "\<exists>is js ks. list_mailboxes (\<lambda>_. None) ''b'' MF_All mailboxes_new = Ok is \<and>
    list_mailboxes (\<lambda>_. None) ''b'' MF_All (fst (create_mailbox [] ''a'' ''x'' mailboxes_new)) = Ok js \<and>
    list_mailboxes (\<lambda>_. None) ''b'' MF_All (fst (delete_mailbox [] ''a'' ''x'' mailboxes_new)) = Ok ks \<and>
    set js = set is \<and> set ks = set is"
  using listing_user_isolation [OF registry_up_new, of "''a''" "''b''" "\<lambda>_. None" MF_All _ "''x''"]
  by (auto simp: list_mailboxes_def)

section \<open>Counters\<close>

text \<open>The UIDs handed out for one mailbox, while it exists and nobody sets its counter.\<close>

fun uid_for :: "string \<Rightarrow> string \<Rightarrow> registry_command \<Rightarrow> registry_reply \<Rightarrow> u32 option" where
  "uid_for u n (RC_GetNextUid u' n') (RR_Uid (Inr x)) = (if u' = u \<and> n' = n then Some x else None)"
| "uid_for u n _ _ = None"

fun keeps_counter :: "string \<Rightarrow> string \<Rightarrow> registry_command \<Rightarrow> bool" where
  "keeps_counter u n (RC_Delete u' n') = (\<not> (u' = u \<and> n' = n))"
| "keeps_counter u n (RC_UpdateNextUid i x) = (i \<noteq> key_id (u, n))"
| "keeps_counter u n _ = True"

definition next_uid_of :: "string \<Rightarrow> string \<Rightarrow> registry \<Rightarrow> u32" where
  "next_uid_of u n s = (case reg_get s u n of Some info \<Rightarrow> mi_next_uid info | None \<Rightarrow> 0)"

lemma reg_modify_next_uid:
  assumes "reg_inv s" and "reg_get s u n \<noteq> None"
    and "i \<noteq> key_id (u, n) \<or> (\<forall>info. mi_next_uid (f info) = mi_next_uid info)"
  shows "reg_get (fst (reg_modify i f s)) u n \<noteq> None \<and> next_uid_of u n (fst (reg_modify i f s)) = next_uid_of u n s"
proof (cases "reg_id_to_key s i")
  case (Some k)
  then have "i = key_id k" using assms(1) by (cases k) (simp add: reg_inv_def)
  then show ?thesis using Some assms(2,3)
    by (auto simp: reg_modify_def reg_get_def next_uid_of_def split: option.splits)
qed (simp add: reg_modify_def assms(2))

lemma registry_counter_step:
  assumes "reg_inv s" and "reg_get s u n \<noteq> None" and "keeps_counter u n c"
  shows "reg_get (fst (registry_exec s c)) u n \<noteq> None \<and>
    (case uid_for u n c (snd (registry_exec s c)) of
       None \<Rightarrow> next_uid_of u n (fst (registry_exec s c)) = next_uid_of u n s
     | Some v \<Rightarrow> v = next_uid_of u n s \<and> next_uid_of u n (fst (registry_exec s c)) = next_uid_of u n s + 1)"
proof (cases c)
  case (RC_Create u' n')
  then show ?thesis using assms by (auto simp: reg_create_def reg_get_def next_uid_of_def Let_def)
next
  case (RC_Delete u' n')
  then show ?thesis using assms by (auto simp: reg_delete_def reg_get_def next_uid_of_def split: option.splits)
next
  case (RC_GetNextUid u' n')
  then show ?thesis using assms by (auto simp: reg_next_uid_def reg_get_def next_uid_of_def split: option.splits)
next
  case (RC_UpdateNextUid i x)
  then show ?thesis using assms reg_modify_next_uid [of s u n i]
    by (simp add: reg_update_next_uid_def case_prod_beta)
next
  case (RC_UpdateUidValidity i v)
  then show ?thesis using assms reg_modify_next_uid [of s u n i]
    by (simp add: reg_update_uid_validity_def case_prod_beta)
next
  case (RC_UpdateCounts i m x r)
  then show ?thesis using assms reg_modify_next_uid [of s u n i]
    by (simp add: reg_update_counts_def case_prod_beta)
qed (use assms in simp)

interpretation ruc: counter_loop registry_exec registry_stops
    "\<lambda>s. reg_inv s \<and> reg_get s u n \<noteq> None" "keeps_counter u n" "next_uid_of u n" "uid_for u n" for u n
  by unfold_locales (use registry_counter_step registry_exec_inv in fastforce)+

text \<open>
  C26: any number of sessions and listeners ask for UIDs of a mailbox at the same time, among
  all other commands: as long as the mailbox is not deleted and its counter not set, the UIDs
  that they get are strictly ascending, so no two of them are equal.
\<close>

theorem next_uids_ascending:
  assumes "reg_inv s" and "reg_get s u n \<noteq> None" and "\<forall>c\<in>set cs. keeps_counter u n c"
    and "unat (next_uid_of u n s) + length cs < 2 ^ 32"
  shows "sorted_wrt (<) (handed_out (uid_for u n) cs (snd (run_loop registry_exec registry_stops s cs)))"
  using ruc.handed_out_ascending [of s u n cs] assms by simp

theorem next_uids_ascending_witness:
  "sorted_wrt (<) (handed_out (uid_for ''a'' ''x'')
     [RC_GetNextUid ''a'' ''x'', RC_Create ''b'' ''x'', RC_GetNextUid ''b'' ''x'', RC_GetNextUid ''a'' ''x'']
     (snd (run_loop registry_exec registry_stops (fst (reg_create ''a'' ''x'' registry_init))
       [RC_GetNextUid ''a'' ''x'', RC_Create ''b'' ''x'', RC_GetNextUid ''b'' ''x'', RC_GetNextUid ''a'' ''x''])))"
proof (rule next_uids_ascending)
  show "reg_inv (fst (reg_create ''a'' ''x'' registry_init))" by (intro reg_create_inv reg_inv_init)
qed (simp_all add: reg_create_def reg_get_def registry_init_def mailbox_info_new_def next_uid_of_def Let_def)

text \<open>The UIDVALIDITY values that a run's successful creations return.\<close>

fun validity_given :: "registry_command \<Rightarrow> registry_reply \<Rightarrow> u32 option" where
  "validity_given (RC_Create u n) (RR_Info (Inr info)) = Some (mi_uid_validity info)"
| "validity_given _ _ = None"

interpretation rvc: counter_loop registry_exec registry_stops "\<lambda>_. True" "\<lambda>_. True" reg_next_uid_validity validity_given
proof (unfold_locales, simp)
  fix s c
  show "validity_given c (snd (registry_exec s c)) = None \<Longrightarrow>
      reg_next_uid_validity (fst (registry_exec s c)) = reg_next_uid_validity s"
    by (cases c) (auto simp: reg_op_defs Let_def split: option.splits if_splits)
  fix v
  show "validity_given c (snd (registry_exec s c)) = Some v \<Longrightarrow>
      v = reg_next_uid_validity s \<and> reg_next_uid_validity (fst (registry_exec s c)) = reg_next_uid_validity s + 1"
    by (cases c) (auto simp: reg_op_defs mailbox_info_new_def Let_def split: option.splits if_splits)
qed

text \<open>
  C27: every mailbox is created with a UIDVALIDITY that is larger than all given out before,
  over all users and also when a name is used again after a deletion, where the UIDs restart.
\<close>

theorem uid_validity_ascending:
  assumes "length cs < 2 ^ 32 - 1"
  shows "sorted_wrt (<) (handed_out validity_given cs (snd (run_loop registry_exec registry_stops registry_init cs)))"
  using rvc.handed_out_ascending [where s = registry_init and cs = cs] assms by (simp add: registry_init_def)

theorem uid_validity_ascending_witness:
  "let cs = [RC_Create ''a'' ''x'', RC_Delete ''a'' ''x'', RC_Create ''a'' ''x''];
       vs = handed_out validity_given cs (snd (run_loop registry_exec registry_stops registry_init cs)) in
   sorted_wrt (<) vs \<and> vs = [1, 2]"
  using uid_validity_ascending [of "[RC_Create ''a'' ''x'', RC_Delete ''a'' ''x'', RC_Create ''a'' ''x'']"]
  unfolding Let_def by (simp add: registry_init_def reg_op_defs reg_get_def mailbox_info_new_def Let_def)

end
