(* ===== verification/List_Pattern.thy ===== *)
theory List_Pattern
  imports Mailbox_Registry
begin

text \<open>
  The pattern half of src/handlers/list.rs: which filter an IMAP LIST pattern is turned into,
  and the regular expression of the general case, against a direct definition of what the two
  wildcards mean.
\<close>

section \<open>The code\<close>

definition regex_special :: "string" where
  "regex_special = ''.+?^$()[]{}|'' @ [CHR 0x5C]"

definition regex_piece :: "char \<Rightarrow> string" where
  "regex_piece ch =
     (if ch = CHR ''*'' then ''.*''
      else if ch = CHR ''%'' then ''[^/]*''
      else if ch \<in> set regex_special then [CHR 0x5C, ch]
      else [ch])"

definition imap_pattern_to_regex :: "string \<Rightarrow> string" where
  "imap_pattern_to_regex pattern = ''^'' @ foldl (\<lambda>regex ch. regex @ regex_piece ch) [] pattern @ ''$''"

definition pattern_to_filter :: "string \<Rightarrow> mailbox_filter" where
  "pattern_to_filter pattern =
     (if pattern = ''*'' then MF_All
      else if CHR ''*'' \<notin> set pattern \<and> CHR ''%'' \<notin> set pattern then MF_Exact pattern
      else if last pattern = CHR ''*'' \<and> CHR ''*'' \<notin> set (butlast pattern) \<and> CHR ''%'' \<notin> set pattern
        then MF_Prefix (butlast pattern)
      else if hd pattern = CHR ''*'' \<and> CHR ''*'' \<notin> set (tl pattern) \<and> CHR ''%'' \<notin> set pattern
        then MF_Suffix (tl pattern)
      else MF_Regex (imap_pattern_to_regex pattern))"

section \<open>What a pattern means\<close>

text \<open>
  The specification: a star stands for any text, a percent sign for any text without the
  hierarchy separator, every other character for itself.
\<close>

function glob :: "string \<Rightarrow> string \<Rightarrow> bool" where
  "glob [] n = (n = [])"
| "glob (p # ps) n =
     (if p = CHR ''*'' then glob ps n \<or> (case n of [] \<Rightarrow> False | c # n' \<Rightarrow> glob (p # ps) n')
      else if p = CHR ''%'' then glob ps n \<or> (case n of [] \<Rightarrow> False | c # n' \<Rightarrow> c \<noteq> CHR ''/'' \<and> glob (p # ps) n')
      else (case n of [] \<Rightarrow> False | c # n' \<Rightarrow> c = p \<and> glob ps n'))"
  by pat_completeness auto
termination by (relation "measure (\<lambda>(p, n). length p + length n)") auto

declare glob.simps(2) [simp del]

lemma glob_literal: "CHR ''*'' \<notin> set p \<Longrightarrow> CHR ''%'' \<notin> set p \<Longrightarrow> glob (p @ q) n \<longleftrightarrow> (\<exists>m. n = p @ m \<and> glob q m)"
proof (induction p arbitrary: n)
  case (Cons c p)
  then show ?case by (cases n) (auto simp: glob.simps(2))
qed simp

lemma split_Cons_iff:
  "(\<exists>u v. c # n = u @ v \<and> P u \<and> Q v) \<longleftrightarrow> (P [] \<and> Q (c # n)) \<or> (\<exists>u v. n = u @ v \<and> P (c # u) \<and> Q v)"
  (is "?l \<longleftrightarrow> ?r")
proof
  assume ?l
  then obtain u v where "c # n = u @ v" "P u" "Q v" by blast
  then show ?r by (cases u) auto
next
  assume ?r
  then show ?l
  proof
    assume "\<exists>u v. n = u @ v \<and> P (c # u) \<and> Q v"
    then obtain u v where "n = u @ v" "P (c # u)" "Q v" by blast
    then show ?l by (intro exI [of _ "c # u"] exI [of _ v]) simp
  qed auto
qed

lemma glob_star: "glob (CHR ''*'' # ps) n \<longleftrightarrow> (\<exists>u v. n = u @ v \<and> glob ps v)"
proof (induction n)
  case Nil
  then show ?case by (simp add: glob.simps(2))
next
  case (Cons c n)
  have "glob (CHR ''*'' # ps) (c # n) \<longleftrightarrow> glob ps (c # n) \<or> (\<exists>u v. n = u @ v \<and> glob ps v)"
    by (subst glob.simps(2)) (simp add: Cons.IH)
  then show ?case using split_Cons_iff [of c n "\<lambda>_. True" "glob ps"] by simp
qed

lemma glob_percent: "glob (CHR ''%'' # ps) n \<longleftrightarrow> (\<exists>u v. n = u @ v \<and> CHR ''/'' \<notin> set u \<and> glob ps v)"
proof (induction n)
  case Nil
  then show ?case by (simp add: glob.simps(2))
next
  case (Cons c n)
  have "glob (CHR ''%'' # ps) (c # n) \<longleftrightarrow>
      glob ps (c # n) \<or> (c \<noteq> CHR ''/'' \<and> (\<exists>u v. n = u @ v \<and> CHR ''/'' \<notin> set u \<and> glob ps v))"
    by (subst glob.simps(2)) (simp add: Cons.IH)
  then show ?case using split_Cons_iff [of c n "\<lambda>u. CHR ''/'' \<notin> set u" "glob ps"] by auto
qed

section \<open>The documented behaviour of the regex crate\<close>

text \<open>
  The fragment of the crate's syntax that the source emits: a dot with a star, the class of
  everything but a slash with a star, an escaped special character, a plain character.
  \<open>regex_read\<close> reads the text between the anchors.
\<close>

datatype regex_item = RI_Dots | RI_Not_Slash | RI_Char char

definition regex_meta :: "string" where
  "regex_meta = ''.+*?^$()[]{}|'' @ [CHR 0x5C]"

fun regex_read :: "string \<Rightarrow> regex_item list option" where
  "regex_read [] = Some []"
| "regex_read (c # s) =
     (if c = CHR ''.'' then
        (case s of [] \<Rightarrow> None | d # s' \<Rightarrow> if d = CHR ''*'' then map_option (Cons RI_Dots) (regex_read s') else None)
      else if c = CHR ''['' then
        (if prefix ''^/]*'' s then map_option (Cons RI_Not_Slash) (regex_read (drop 4 s)) else None)
      else if c = CHR 0x5C then
        (case s of [] \<Rightarrow> None | d # s' \<Rightarrow>
           if d \<in> set regex_meta then map_option (Cons (RI_Char d)) (regex_read s') else None)
      else if c \<in> set regex_meta then None
      else map_option (Cons (RI_Char c)) (regex_read s))"

fun items_match :: "regex_item list \<Rightarrow> string \<Rightarrow> bool" where
  "items_match [] n = (n = [])"
| "items_match (RI_Char c # is) n = (n \<noteq> [] \<and> hd n = c \<and> items_match is (tl n))"
| "items_match (RI_Dots # is) n =
     (\<exists>k\<in>{0..length n}. CHR 0x0A \<notin> set (take k n) \<and> items_match is (drop k n))"
| "items_match (RI_Not_Slash # is) n =
     (\<exists>k\<in>{0..length n}. CHR ''/'' \<notin> set (take k n) \<and> items_match is (drop k n))"

text \<open>
  What the code relies on: an expression of the fragment, anchored at both ends, compiles, and
  matches the whole texts that its items spell. A dot does not match a line feed.
\<close>

definition regex_documented :: "(string \<Rightarrow> (string \<Rightarrow> bool) option) \<Rightarrow> bool" where
  "regex_documented rx \<longleftrightarrow>
     (\<forall>body is. regex_read body = Some is \<longrightarrow> rx (''^'' @ body @ ''$'') = Some (items_match is))"

text \<open>A matcher with that behaviour.\<close>

definition regex_model :: "string \<Rightarrow> (string \<Rightarrow> bool) option" where
  "regex_model e = map_option items_match (regex_read (butlast (tl e)))"

lemma regex_model_documented: "regex_documented regex_model"
  by (simp add: regex_documented_def regex_model_def)

section \<open>The translation\<close>

fun pattern_items :: "string \<Rightarrow> regex_item list" where
  "pattern_items [] = []"
| "pattern_items (c # p) =
     (if c = CHR ''*'' then RI_Dots else if c = CHR ''%'' then RI_Not_Slash else RI_Char c) # pattern_items p"

lemma regex_read_piece:
  "regex_read (regex_piece c @ s) = map_option (Cons (hd (pattern_items [c]))) (regex_read s)"
  by (auto simp: regex_piece_def regex_special_def regex_meta_def)

lemma foldl_pieces: "foldl (\<lambda>regex ch. regex @ regex_piece ch) a p = a @ concat (map regex_piece p)"
  by (induction p arbitrary: a) simp_all

lemma regex_read_pattern: "regex_read (concat (map regex_piece p)) = Some (pattern_items p)"
  by (induction p) (simp_all add: regex_read_piece del: regex_read.simps(2))

lemma split_at_iff: "(\<exists>u v. n = u @ v \<and> P u \<and> Q v) \<longleftrightarrow> (\<exists>k\<in>{0..length n}. P (take k n) \<and> Q (drop k n))"
proof
  assume "\<exists>u v. n = u @ v \<and> P u \<and> Q v"
  then obtain u v where "n = u @ v" "P u" "Q v" by blast
  then show "\<exists>k\<in>{0..length n}. P (take k n) \<and> Q (drop k n)" by (intro bexI [of _ "length u"]) auto
qed (metis append_take_drop_id)

lemma items_match_pattern:
  "CHR 0x0A \<notin> set n \<Longrightarrow> items_match (pattern_items p) n \<longleftrightarrow> glob p n"
proof (induction p arbitrary: n)
  case (Cons c p)
  have IH: "items_match (pattern_items p) (drop k n) \<longleftrightarrow> glob p (drop k n)" for k
    using Cons.prems in_set_dropD [of _ k n] by (intro Cons.IH) blast
  have nl: "CHR 0x0A \<notin> set (take k n)" for k using Cons.prems in_set_takeD by metis
  consider (star) "c = CHR ''*''" | (percent) "c = CHR ''%''" | (lit) "c \<noteq> CHR ''*''" "c \<noteq> CHR ''%''" by blast
  then show ?case
  proof cases
    case star
    then show ?thesis using split_at_iff [of n "\<lambda>_. True" "glob p"] by (simp add: glob_star IH nl)
  next
    case percent
    then show ?thesis using split_at_iff [of n "\<lambda>u. CHR ''/'' \<notin> set u" "glob p"] by (simp add: glob_percent IH)
  next
    case lit
    then show ?thesis using IH [of 1] by (cases n) (auto simp: glob.simps(2))
  qed
qed simp

lemma regex_filter_accepts:
  "regex_documented rx \<Longrightarrow> CHR 0x0A \<notin> set n \<Longrightarrow>
   filter_accepts rx (MF_Regex (imap_pattern_to_regex p)) n \<longleftrightarrow> glob p n"
  using items_match_pattern [of n p]
  by (simp add: regex_documented_def imap_pattern_to_regex_def foldl_pieces regex_read_pattern)

lemma glob_prefix_filter: "CHR ''*'' \<notin> set p \<Longrightarrow> CHR ''%'' \<notin> set p \<Longrightarrow> glob (p @ ''*'') n \<longleftrightarrow> starts_with n p"
  by (simp add: glob_literal glob_star starts_with_def prefix_def)

lemma glob_suffix_filter: "CHR ''*'' \<notin> set p \<Longrightarrow> CHR ''%'' \<notin> set p \<Longrightarrow> glob (CHR ''*'' # p) n \<longleftrightarrow> ends_with n p"
  using glob_literal [of p "[]"] by (simp add: glob_star ends_with_def suffix_def)

lemma glob_exact: "CHR ''*'' \<notin> set p \<Longrightarrow> CHR ''%'' \<notin> set p \<Longrightarrow> glob p n \<longleftrightarrow> n = p"
  using glob_literal [of p "[]" n] by simp

text \<open>The INBOX in any letter case is named by a pattern without wildcards only.\<close>

definition inbox_match :: "string \<Rightarrow> string \<Rightarrow> bool" where
  "inbox_match p n \<longleftrightarrow> CHR ''*'' \<notin> set p \<and> CHR ''%'' \<notin> set p \<and>
     eq_ignore_ascii_case p ''INBOX'' \<and> eq_ignore_ascii_case n ''INBOX''"

lemma pattern_filter_accepts:
  assumes "regex_documented rx" and "CHR 0x0A \<notin> set n"
  shows "filter_accepts rx (pattern_to_filter p) n \<longleftrightarrow> glob p n \<or> inbox_match p n"
proof (cases "CHR ''*'' \<in> set p \<or> CHR ''%'' \<in> set p")
  case False
  then show ?thesis by (auto simp: pattern_to_filter_def glob_exact inbox_match_def)
next
  case wild: True
  then have ni: "\<not> inbox_match p n" by (auto simp: inbox_match_def)
  have "p \<noteq> []" using wild by auto
  then have ends: "p = butlast p @ [last p]" "p = hd p # tl p" by auto
  consider (all) "p = ''*''" | (pre) "p \<noteq> ''*''" "last p = CHR ''*''" "CHR ''*'' \<notin> set (butlast p)" "CHR ''%'' \<notin> set p"
    | (suf) "p \<noteq> ''*''" "\<not> (last p = CHR ''*'' \<and> CHR ''*'' \<notin> set (butlast p))" "hd p = CHR ''*''" "CHR ''*'' \<notin> set (tl p)" "CHR ''%'' \<notin> set p"
    | (rx) "p \<noteq> ''*''" "\<not> (last p = CHR ''*'' \<and> CHR ''*'' \<notin> set (butlast p) \<and> CHR ''%'' \<notin> set p)"
        "\<not> (hd p = CHR ''*'' \<and> CHR ''*'' \<notin> set (tl p) \<and> CHR ''%'' \<notin> set p)"
    by blast
  then show ?thesis
  proof cases
    case all
    then show ?thesis by (simp add: pattern_to_filter_def glob_star)
  next
    case pre
    then have "pattern_to_filter p = MF_Prefix (butlast p)" using wild by (simp add: pattern_to_filter_def)
    moreover have "glob p n \<longleftrightarrow> starts_with n (butlast p)"
      using glob_prefix_filter [of "butlast p" n] pre ends(1) in_set_butlastD [of "CHR ''%''" p] by metis
    ultimately show ?thesis using ni by simp
  next
    case suf
    then have "pattern_to_filter p = MF_Suffix (tl p)" using wild by (auto simp: pattern_to_filter_def)
    moreover have "glob p n \<longleftrightarrow> ends_with n (tl p)"
      using glob_suffix_filter [of "tl p" n] suf ends(2) list.set_sel(2) [of p "CHR ''%''"] \<open>p \<noteq> []\<close> by metis
    ultimately show ?thesis using ni by simp
  next
    case rx
    then have "pattern_to_filter p = MF_Regex (imap_pattern_to_regex p)"
      using wild unfolding pattern_to_filter_def by auto
    then show ?thesis using ni regex_filter_accepts [OF assms] by simp
  qed
qed

section \<open>Properties\<close>

text \<open>
  C14: whichever filter the code picks for a LIST pattern (all, exact, prefix, suffix or the
  translation to a regular expression), it accepts exactly the names that the pattern's
  wildcards describe, and INBOX in any letter case for a pattern that spells it.
\<close>

theorem list_pattern_exact:
  assumes "regex_documented rx" and "CHR 0x0A \<notin> set n"
  shows "filter_accepts rx (pattern_to_filter p) n \<longleftrightarrow> glob p n \<or> inbox_match p n"
  using assms by (rule pattern_filter_accepts)

theorem list_pattern_exact_witness:
  "filter_accepts regex_model (pattern_to_filter ''a.%/c*'') ''a.b/cd'' \<and>
   \<not> filter_accepts regex_model (pattern_to_filter ''a.%/c*'') ''axb/cd'' \<and>
   filter_accepts regex_model (pattern_to_filter ''inbox'') ''INBOX''"
proof -
  have "glob ''a.%/c*'' ''a.b/cd''" "\<not> glob ''a.%/c*'' ''axb/cd''" "\<not> inbox_match ''a.%/c*'' ''axb/cd''"
    "inbox_match ''inbox'' ''INBOX''" by code_simp+
  then show ?thesis
    using list_pattern_exact [OF regex_model_documented, of "''a.b/cd''" "''a.%/c*''"]
      list_pattern_exact [OF regex_model_documented, of "''axb/cd''" "''a.%/c*''"]
      list_pattern_exact [OF regex_model_documented, of "''INBOX''" "''inbox''"] by simp
qed

text \<open>
  The percent sign lists one level of the hierarchy: the names below a parent that hold no
  further separator, and no others.
\<close>

theorem percent_lists_children:
  assumes "regex_documented rx" and "CHR 0x0A \<notin> set n"
    and "CHR ''*'' \<notin> set parent" and "CHR ''%'' \<notin> set parent"
  shows "filter_accepts rx (pattern_to_filter (parent @ ''/%'')) n \<longleftrightarrow>
    (\<exists>child. n = parent @ ''/'' @ child \<and> CHR ''/'' \<notin> set child)"
proof -
  have "glob (parent @ ''/%'') n \<longleftrightarrow> (\<exists>child. n = parent @ ''/'' @ child \<and> CHR ''/'' \<notin> set child)"
    using glob_literal [of "parent @ ''/''" "''%''" n] assms(3,4) by (auto simp: glob_percent)
  then show ?thesis using pattern_filter_accepts [OF assms(1,2)] by (simp add: inbox_match_def)
qed

theorem percent_lists_children_witness:
  "filter_accepts regex_model (pattern_to_filter ''lists/%'') ''lists/rust'' \<and>
   \<not> filter_accepts regex_model (pattern_to_filter ''lists/%'') ''lists/rust/help''"
  using percent_lists_children [OF regex_model_documented, of "''lists/rust''" "''lists''"]
    percent_lists_children [OF regex_model_documented, of "''lists/rust/help''" "''lists''"] by simp

end
