(* ===== verification/Handlers.thy ===== *)
theory Handlers
  imports Connection List_Pattern
begin

text \<open>
  src/command_handler.rs and the eight built-in handlers of src/handlers/. A handler works on
  a world: the client's connection and the session context, of which the handlers use the
  authenticator and the mailbox store. The trait object of the authenticator is a function in
  the world, the mailbox store the in-memory registry. A handler makes at most one call to
  the store, so the commands of other sessions, which come before or after that call, are
  steps between the handlers (theory Session).
\<close>

section \<open>Worlds and replies\<close>

record world =
  w_conn :: connection
  w_mailboxes :: mailboxes
  w_authenticate :: "credentials \<Rightarrow> bool result"
  w_regex :: "string \<Rightarrow> (string \<Rightarrow> bool) option"
  w_shared :: shared_state

type_synonym state_update = "session_state option result"

text \<open>
  \<open>connection.write_response(..).await?\<close> followed by the rest of the handler, and
  \<open>let _ = connection.write_response(..).await\<close>.
\<close>

definition respond :: "response \<Rightarrow> (world \<Rightarrow> world \<times> 'a result) \<Rightarrow> world \<Rightarrow> world \<times> 'a result" where
  "respond r k w = (case write_response r (w_conn w) of
     (c, Err e) \<Rightarrow> (w\<lparr>w_conn := c\<rparr>, Err e)
   | (c, Ok _) \<Rightarrow> k (w\<lparr>w_conn := c\<rparr>))"

definition tell :: "response \<Rightarrow> world \<Rightarrow> world" where
  "tell r w = w\<lparr>w_conn := fst (write_response r (w_conn w))\<rparr>"

definition finish :: "session_state option \<Rightarrow> world \<Rightarrow> world \<times> state_update" where
  "finish s w = (w, Ok s)"

text \<open>The trait: the name, the two requirements and the method.\<close>

record handler =
  h_name :: string
  h_requires_auth :: bool
  h_requires_selected :: bool
  h_handle :: "string \<Rightarrow> string \<Rightarrow> session_state \<Rightarrow> world \<Rightarrow> world \<times> state_update"

section \<open>The built-in handlers\<close>

definition capability_handle :: "bool \<Rightarrow> string \<Rightarrow> string \<Rightarrow> session_state \<Rightarrow> world \<Rightarrow> world \<times> state_update" where
  "capability_handle is_tls tag args st =
     (let capabilities = ''IMAP4rev1'' # (if \<not> is_tls then [''STARTTLS''] else []) in
      respond (Response_Ok (Some tag) (''CAPABILITY '' @ join_with '' '' capabilities)) (finish None))"

definition noop_handle :: "string \<Rightarrow> string \<Rightarrow> session_state \<Rightarrow> world \<Rightarrow> world \<times> state_update" where
  "noop_handle tag args st = respond (Response_Ok (Some tag) ''NOOP completed'') (finish None)"

definition logout_handle :: "string \<Rightarrow> string \<Rightarrow> session_state \<Rightarrow> world \<Rightarrow> world \<times> state_update" where
  "logout_handle tag args st =
     respond (Response_Bye ''Logging out'')
       (respond (Response_Ok (Some tag) ''LOGOUT completed'') (finish (Some SS_Logout)))"

definition login_parse_args :: "string \<Rightarrow> (string \<times> string) option" where
  "login_parse_args args =
     (case split_whitespace args of [u, p] \<Rightarrow> Some (u, p) | _ \<Rightarrow> None)"

definition login_handle :: "string \<Rightarrow> string \<Rightarrow> session_state \<Rightarrow> world \<Rightarrow> world \<times> state_update" where
  "login_handle tag args st w =
     (case login_parse_args args of
        None \<Rightarrow> respond (Response_Bad (Some tag) ''Invalid LOGIN syntax'') (finish None) w
      | Some (username, password) \<Rightarrow>
          (case w_authenticate w \<lparr>cred_username = username, cred_password = password\<rparr> of
             Ok True \<Rightarrow>
               respond (Response_Ok (Some tag) ''LOGIN completed'') (finish (Some (SS_Authenticated username))) w
           | Ok False \<Rightarrow>
               respond (Response_No (Some tag) ''LOGIN failed: invalid credentials'') (finish None) w
           | Err e \<Rightarrow>
               respond (Response_No (Some tag) (''LOGIN failed: '' @ error_display e)) (finish None) w))"

definition select_handle :: "string \<Rightarrow> string \<Rightarrow> session_state \<Rightarrow> world \<Rightarrow> world \<times> state_update" where
  "select_handle tag args st w =
     (let mailbox_name = trim args in
      if mailbox_name = [] then
        respond (Response_Bad (Some tag) ''SELECT requires a mailbox name'') (finish None) w
      else case state_user st of
          None \<Rightarrow> respond (Response_No (Some tag) ''Not authenticated'') (finish None) w
        | Some username \<Rightarrow>
            (case get_mailbox username mailbox_name (w_mailboxes w) of
               Err e \<Rightarrow> (w, Err e)
             | Ok None \<Rightarrow>
                 respond (Response_No (Some tag) (''Mailbox does not exist: '' @ mailbox_name)) (finish None) w
             | Ok (Some info) \<Rightarrow>
                 respond (Response_Ok (Some tag) (''SELECT completed for '' @ mailbox_name))
                   (finish (Some (SS_Selected username mailbox_name))) w))"

definition create_handle :: "string \<Rightarrow> string \<Rightarrow> session_state \<Rightarrow> world \<Rightarrow> world \<times> state_update" where
  "create_handle tag args st w =
     (let mailbox_name = trim args in
      if mailbox_name = [] then
        respond (Response_Bad (Some tag) ''CREATE requires a mailbox name'') (finish None) w
      else case state_user st of
          None \<Rightarrow> respond (Response_No (Some tag) ''Not authenticated'') (finish None) w
        | Some username \<Rightarrow>
            (case create_mailbox [] username mailbox_name (w_mailboxes w) of
               (mb, Ok _) \<Rightarrow>
                 respond (Response_Ok (Some tag) (''CREATE completed for '' @ mailbox_name)) (finish None)
                   (w\<lparr>w_mailboxes := mb\<rparr>)
             | (mb, Err e) \<Rightarrow>
                 respond (Response_No (Some tag) (''CREATE failed: '' @ error_display e)) (finish None)
                   (w\<lparr>w_mailboxes := mb\<rparr>)))"

definition delete_handle :: "string \<Rightarrow> string \<Rightarrow> session_state \<Rightarrow> world \<Rightarrow> world \<times> state_update" where
  "delete_handle tag args st w =
     (let mailbox_name = trim args in
      if mailbox_name = [] then
        respond (Response_Bad (Some tag) ''DELETE requires a mailbox name'') (finish None) w
      else if eq_ignore_ascii_case mailbox_name ''INBOX'' then
        respond (Response_No (Some tag) ''Cannot delete INBOX'') (finish None) w
      else case state_user st of
          None \<Rightarrow> respond (Response_No (Some tag) ''Not authenticated'') (finish None) w
        | Some username \<Rightarrow>
            (case delete_mailbox [] username mailbox_name (w_mailboxes w) of
               (mb, Ok _) \<Rightarrow>
                 respond (Response_Ok (Some tag) (''DELETE completed for '' @ mailbox_name)) (finish None)
                   (w\<lparr>w_mailboxes := mb\<rparr>)
             | (mb, Err e) \<Rightarrow>
                 respond (Response_No (Some tag) (''DELETE failed: '' @ error_display e)) (finish None)
                   (w\<lparr>w_mailboxes := mb\<rparr>)))"

definition list_parse_args :: "string \<Rightarrow> (string \<times> string) option" where
  "list_parse_args args =
     (case split_whitespace args of [] \<Rightarrow> None | [p] \<Rightarrow> Some ([], p) | r # p # _ \<Rightarrow> Some (r, p))"

definition effective_pattern :: "string \<Rightarrow> string \<Rightarrow> string" where
  "effective_pattern reference pattern =
     (let clean_ref = trim_matches CHR 0x22 reference; clean_pattern = trim_matches CHR 0x22 pattern in
      if clean_ref \<noteq> [] then clean_ref @ clean_pattern else clean_pattern)"

definition list_response :: "mailbox_info \<Rightarrow> response" where
  "list_response m = Response_Untagged
     (''LIST () '' @ [CHR 0x22] @ ''/'' @ [CHR 0x22] @ '' '' @ [CHR 0x22] @ id_name (mi_id m) @ [CHR 0x22])"

definition list_handle :: "string \<Rightarrow> string \<Rightarrow> session_state \<Rightarrow> world \<Rightarrow> world \<times> state_update" where
  "list_handle tag args st w =
     (case list_parse_args args of
        None \<Rightarrow> respond (Response_Bad (Some tag) ''Invalid LIST syntax'') (finish None) w
      | Some (reference, pattern) \<Rightarrow>
          (case state_user st of
             None \<Rightarrow> respond (Response_No (Some tag) ''Not authenticated'') (finish None) w
           | Some username \<Rightarrow>
               (let flt = pattern_to_filter (effective_pattern reference pattern) in
                case list_mailboxes (w_regex w) username flt (w_mailboxes w) of
                  Ok ms \<Rightarrow>
                    foldr (\<lambda>m. respond (list_response m)) ms
                      (respond (Response_Ok (Some tag) ''LIST completed'') (finish None)) w
                | Err e \<Rightarrow>
                    respond (Response_No (Some tag) (''LIST failed: '' @ error_display e)) (finish None) w)))"

text \<open>The handler objects. No built-in handler requires a selected mailbox.\<close>

definition capability_handler :: "bool \<Rightarrow> handler" where
  "capability_handler is_tls = \<lparr>h_name = ''CAPABILITY'', h_requires_auth = False, h_requires_selected = False,
     h_handle = capability_handle is_tls\<rparr>"

definition noop_handler :: handler where
  "noop_handler = \<lparr>h_name = ''NOOP'', h_requires_auth = True, h_requires_selected = False, h_handle = noop_handle\<rparr>"

definition logout_handler :: handler where
  "logout_handler = \<lparr>h_name = ''LOGOUT'', h_requires_auth = False, h_requires_selected = False, h_handle = logout_handle\<rparr>"

definition login_handler :: handler where
  "login_handler = \<lparr>h_name = ''LOGIN'', h_requires_auth = False, h_requires_selected = False, h_handle = login_handle\<rparr>"

definition select_handler :: handler where
  "select_handler = \<lparr>h_name = ''SELECT'', h_requires_auth = True, h_requires_selected = False, h_handle = select_handle\<rparr>"

definition create_handler :: handler where
  "create_handler = \<lparr>h_name = ''CREATE'', h_requires_auth = True, h_requires_selected = False, h_handle = create_handle\<rparr>"

definition delete_handler :: handler where
  "delete_handler = \<lparr>h_name = ''DELETE'', h_requires_auth = True, h_requires_selected = False, h_handle = delete_handle\<rparr>"

definition list_handler :: handler where
  "list_handler = \<lparr>h_name = ''LIST'', h_requires_auth = True, h_requires_selected = False, h_handle = list_handle\<rparr>"

lemmas handle_defs = capability_handle_def noop_handle_def logout_handle_def login_handle_def select_handle_def
  create_handle_def delete_handle_def list_handle_def
lemmas handler_defs = capability_handler_def noop_handler_def logout_handler_def login_handler_def
  select_handler_def create_handler_def delete_handler_def list_handler_def

section \<open>What a handler may do\<close>

text \<open>Two worlds that differ in what was written to the client only.\<close>

definition only_writes :: "world \<Rightarrow> world \<Rightarrow> bool" where
  "only_writes w w' \<longleftrightarrow> (\<exists>c. w' = w\<lparr>w_conn := c\<rparr> \<and> conn_input c = conn_input (w_conn w) \<and>
     conn_input_end c = conn_input_end (w_conn w) \<and> conn_tls c = conn_tls (w_conn w) \<and>
     conn_write_error c = conn_write_error (w_conn w))"

lemma only_writes_refl [simp, intro]: "only_writes w w"
  by (auto simp: only_writes_def intro: exI [of _ "w_conn w"])

lemma only_writes_trans: "only_writes w w' \<Longrightarrow> only_writes w' w'' \<Longrightarrow> only_writes w w''"
  by (auto simp: only_writes_def)

lemma only_writes_response [simp, intro]: "only_writes w (w\<lparr>w_conn := fst (write_response r (w_conn w))\<rparr>)"
  by (auto simp: only_writes_def)

lemma only_writes_tell [simp, intro]: "only_writes w (tell r w)"
  by (simp add: tell_def)

lemma only_writes_finish [simp, intro]: "only_writes w (fst (finish s w))"
  by (simp add: finish_def)

lemma only_writes_fields:
  assumes "only_writes w w'"
  shows "w_mailboxes w' = w_mailboxes w" and "w_authenticate w' = w_authenticate w" and "w_regex w' = w_regex w"
    and "w_shared w' = w_shared w" and "conn_input (w_conn w') = conn_input (w_conn w)"
    and "conn_tls (w_conn w') = conn_tls (w_conn w)" and "conn_writable (w_conn w') = conn_writable (w_conn w)"
  using assms by (auto simp: only_writes_def conn_writable_def)

lemma respond_cases:
  "(\<exists>e. respond r k w = (w\<lparr>w_conn := fst (write_response r (w_conn w))\<rparr>, Err e)) \<or>
   respond r k w = k (w\<lparr>w_conn := fst (write_response r (w_conn w))\<rparr>)"
  by (auto simp: respond_def split: prod.splits sum.splits)

lemma respond_only_writes:
  assumes "\<And>w. only_writes w (fst (k w))"
  shows "only_writes w (fst (respond r k w))"
  using respond_cases [of r k w] assms only_writes_trans [OF only_writes_response assms] by auto

lemma respond_finish_only_writes [simp, intro]: "only_writes w (fst (respond r (finish s) w))"
  by (rule respond_only_writes) simp

lemma respond_result:
  assumes "snd (respond r k w) = Ok x"
  shows "\<exists>w'. snd (k w') = Ok x"
  using respond_cases [of r k w] assms by (metis snd_conv sum.distinct(1))

lemma respond_finish_result: "snd (respond r (finish s) w) = Ok x \<Longrightarrow> x = s"
  using respond_result [of r "finish s" w x] by (auto simp: finish_def)

lemma list_responses_only_writes [simp, intro]:
  "only_writes w (fst (foldr (\<lambda>m. respond (list_response m)) ms (respond r (finish s)) w))"
proof (induction ms arbitrary: w)
  case (Cons m ms)
  then show ?case using respond_only_writes [of "foldr (\<lambda>m. respond (list_response m)) ms (respond r (finish s))"] by simp
qed simp

lemma list_responses_result:
  "snd (foldr (\<lambda>m. respond (list_response m)) ms (respond r (finish s)) w) = Ok x \<Longrightarrow> x = s"
proof (induction ms arbitrary: w)
  case (Cons m ms)
  then show ?case using respond_result [of "list_response m" "foldr (\<lambda>m. respond (list_response m)) ms (respond r (finish s))" w x] by auto
qed (simp add: respond_finish_result)

text \<open>What a command of the user of \<open>st\<close> may do to the mailbox store.\<close>

definition store_frame :: "session_state \<Rightarrow> mailboxes \<Rightarrow> mailboxes \<Rightarrow> bool" where
  "store_frame st mb mb' \<longleftrightarrow>
     (registry_up mb \<longrightarrow> registry_up mb' \<and>
        (\<forall>v n. state_user st \<noteq> Some v \<longrightarrow> registry_lookup mb' (v, n) = registry_lookup mb (v, n)) \<and>
        (\<forall>v n. eq_ignore_ascii_case n ''INBOX'' \<and> registry_lookup mb (v, n) \<noteq> None \<longrightarrow>
           registry_lookup mb' (v, n) \<noteq> None)) \<and>
     (state_user st = None \<longrightarrow> mb' = mb)"

definition handler_frame :: "session_state \<Rightarrow> world \<Rightarrow> world \<Rightarrow> bool" where
  "handler_frame st w w' \<longleftrightarrow>
     only_writes (w\<lparr>w_mailboxes := w_mailboxes w'\<rparr>) w' \<and> store_frame st (w_mailboxes w) (w_mailboxes w')"

lemma handler_frame_same [intro]: "only_writes w w' \<Longrightarrow> handler_frame st w w'"
  by (auto simp: handler_frame_def store_frame_def only_writes_fields(1) only_writes_def)

lemma handler_frame_store:
  "store_frame st (w_mailboxes w) mb \<Longrightarrow> only_writes (w\<lparr>w_mailboxes := mb\<rparr>) w' \<Longrightarrow> handler_frame st w w'"
  using only_writes_fields(1) [of "w\<lparr>w_mailboxes := mb\<rparr>" w'] by (simp add: handler_frame_def)

lemma store_frame_create: "store_frame st mb (fst (create_mailbox [] u n mb))" if "state_user st = Some u"
proof -
  have "registry_lookup (fst (create_mailbox [] u n mb)) (v, m) \<noteq> None"
    if "registry_up mb" "registry_lookup mb (v, m) \<noteq> None" for v m
    using that mbs.create_dup [of mb u n] mbs.create_fresh [of mb u n] by (cases "registry_lookup mb (u, n)") auto
  then show ?thesis using that mbs.create_up [of mb u n] mbs.lookup_other [of mb _ _ u n]
    by (auto simp: store_frame_def)
qed

lemma store_frame_delete: "store_frame st mb (fst (delete_mailbox [] u n mb))"
  if "state_user st = Some u" and "\<not> eq_ignore_ascii_case n ''INBOX''"
proof -
  have "registry_lookup (fst (delete_mailbox [] u n mb)) (v, m) \<noteq> None"
    if "registry_up mb" "registry_lookup mb (v, m) \<noteq> None" "eq_ignore_ascii_case m ''INBOX''" for v m
    using that \<open>\<not> eq_ignore_ascii_case n ''INBOX''\<close> mbs.lookup_other [of mb v m u n] by (cases "(v, m) = (u, n)") auto
  then show ?thesis using that mbs.delete_up [of mb u n] mbs.lookup_other [of mb _ _ u n]
    by (auto simp: store_frame_def)
qed

text \<open>
  The contract of a command handler towards the session: it reads nothing from the client, it
  leaves a store that serves, it touches no mailboxes but those of the user of the current
  state and never removes an INBOX, and a state update keeps the user or names one that the
  authenticator has just accepted.
\<close>

locale command_handler =
  fixes handle :: "string \<Rightarrow> string \<Rightarrow> session_state \<Rightarrow> world \<Rightarrow> world \<times> state_update"
  assumes handle_frame: "handler_frame st w (fst (handle tag args st w))"
    and handle_user: "snd (handle tag args st w) = Ok (Some s) \<Longrightarrow> state_user s = Some u \<Longrightarrow>
      state_user st = Some u \<or> (\<exists>p. w_authenticate w \<lparr>cred_username = u, cred_password = p\<rparr> = Ok True)"
begin

lemma keeps_connection:
  "conn_input (w_conn (fst (handle tag args st w))) = conn_input (w_conn w) \<and>
   conn_tls (w_conn (fst (handle tag args st w))) = conn_tls (w_conn w) \<and>
   conn_writable (w_conn (fst (handle tag args st w))) = conn_writable (w_conn w)"
  using handle_frame [of st w tag args] by (auto simp: handler_frame_def dest: only_writes_fields)

lemma keeps_environment:
  "w_authenticate (fst (handle tag args st w)) = w_authenticate w \<and> w_regex (fst (handle tag args st w)) = w_regex w"
  using handle_frame [of st w tag args] by (auto simp: handler_frame_def dest: only_writes_fields)

lemma keeps_store_frame: "store_frame st (w_mailboxes w) (w_mailboxes (fst (handle tag args st w)))"
  using handle_frame [of st w tag args] by (simp add: handler_frame_def)

end

interpretation hcap: command_handler "capability_handle b" for b
  by unfold_locales (auto simp: capability_handle_def dest: respond_finish_result)

interpretation hnoop: command_handler noop_handle
  by unfold_locales (auto simp: noop_handle_def dest: respond_finish_result)

interpretation hlogout: command_handler logout_handle
proof
  show "handler_frame st w (fst (logout_handle tag args st w))" for w tag args st
    unfolding logout_handle_def by (intro handler_frame_same respond_only_writes respond_finish_only_writes)
qed (auto simp: logout_handle_def dest!: respond_result respond_finish_result)

interpretation hlogin: command_handler login_handle
  by unfold_locales
    (auto simp: login_handle_def dest!: respond_finish_result split: option.splits prod.splits sum.splits bool.splits)

interpretation hselect: command_handler select_handle
  by unfold_locales
    (auto simp: select_handle_def Let_def dest!: respond_finish_result split: option.splits sum.splits if_splits)

lemma create_handle_frame: "handler_frame st w (fst (create_handle tag args st w))"
proof (cases "trim args = [] \<or> state_user st = None")
  case True
  then show ?thesis by (auto simp: create_handle_def Let_def)
next
  case False
  then obtain u where u: "state_user st = Some u" by auto
  obtain mb r where r: "create_mailbox [] u (trim args) (w_mailboxes w) = (mb, r)" by force
  have "store_frame st (w_mailboxes w) mb"
    using store_frame_create [where st = st and u = u and n = "trim args" and mb = "w_mailboxes w"] u r False by simp
  then show ?thesis using False u r
    by (cases r) (auto simp: create_handle_def Let_def intro!: handler_frame_store)
qed

lemma create_handle_result: "snd (create_handle tag args st w) = Ok x \<Longrightarrow> x = None"
  unfolding create_handle_def Let_def
  by (auto dest: respond_finish_result split: if_splits option.splits prod.splits sum.splits)

interpretation hcreate: command_handler create_handle
  by unfold_locales (auto simp: create_handle_frame dest: create_handle_result)

lemma delete_handle_frame: "handler_frame st w (fst (delete_handle tag args st w))"
proof (cases "trim args = [] \<or> eq_ignore_ascii_case (trim args) ''INBOX'' \<or> state_user st = None")
  case True
  then show ?thesis by (auto simp: delete_handle_def Let_def)
next
  case False
  then obtain u where u: "state_user st = Some u" by auto
  obtain mb r where r: "delete_mailbox [] u (trim args) (w_mailboxes w) = (mb, r)" by force
  have "store_frame st (w_mailboxes w) mb"
    using store_frame_delete [where st = st and u = u and n = "trim args" and mb = "w_mailboxes w"] u r False by simp
  then show ?thesis using False u r
    by (cases r) (auto simp: delete_handle_def Let_def intro!: handler_frame_store)
qed

lemma delete_handle_result: "snd (delete_handle tag args st w) = Ok x \<Longrightarrow> x = None"
  unfolding delete_handle_def Let_def
  by (auto dest: respond_finish_result split: if_splits option.splits prod.splits sum.splits)

interpretation hdelete: command_handler delete_handle
  by unfold_locales (auto simp: delete_handle_frame dest: delete_handle_result)

interpretation hlist: command_handler list_handle
  by unfold_locales
    (auto simp: list_handle_def Let_def dest!: respond_finish_result list_responses_result
      split: option.splits prod.splits sum.splits)

section \<open>Answers\<close>

text \<open>
  On a connection that takes every write, a handler answers with untagged responses and then
  one response with the command's tag, and reports no error.
\<close>

fun response_tag :: "response \<Rightarrow> string option" where
  "response_tag (Response_Ok t m) = t"
| "response_tag (Response_No t m) = t"
| "response_tag (Response_Bad t m) = t"
| "response_tag _ = None"

definition answered :: "string \<Rightarrow> connection \<Rightarrow> connection \<Rightarrow> bool" where
  "answered tag c c' \<longleftrightarrow> (\<exists>us r. conn_sent c' = conn_sent c @ map response_display us @ [response_display r] \<and>
     (\<forall>u\<in>set us. response_tag u = None) \<and> response_tag r = Some tag)"

lemma answered_tell:
  "conn_writable (w_conn w) \<Longrightarrow> response_tag r = Some tag \<Longrightarrow> answered tag (w_conn w) (w_conn (tell r w))"
  unfolding answered_def by (intro exI [of _ "[]"] exI [of _ r]) (simp add: tell_def)

lemma answered_respond_finish:
  "conn_writable (w_conn w) \<Longrightarrow> response_tag r = Some tag \<Longrightarrow>
   answered tag (w_conn w) (w_conn (fst (respond r (finish s) w))) \<and> snd (respond r (finish s) w) = Ok s"
  unfolding answered_def by (intro conjI exI [of _ "[]"] exI [of _ r]) (simp_all add: respond_def finish_def)

lemma answered_untagged:
  assumes "conn_writable (w_conn w)" and "response_tag u = None"
    and "\<And>w. conn_writable (w_conn w) \<Longrightarrow> answered tag (w_conn w) (w_conn (fst (k w))) \<and> snd (k w) = Ok s"
  shows "answered tag (w_conn w) (w_conn (fst (respond u k w))) \<and> snd (respond u k w) = Ok s"
proof -
  let ?c = "(w_conn w)\<lparr>conn_writes := conn_writes (w_conn w) + 1, conn_sent := conn_sent (w_conn w) @ [response_display u]\<rparr>"
  have k: "respond u k w = k (w\<lparr>w_conn := ?c\<rparr>)" using assms(1) by (simp add: respond_def)
  have "answered tag ?c (w_conn (fst (k (w\<lparr>w_conn := ?c\<rparr>)))) \<and> snd (k (w\<lparr>w_conn := ?c\<rparr>)) = Ok s"
    using assms(3) [of "w\<lparr>w_conn := ?c\<rparr>"] assms(1) by simp
  then obtain us r where "conn_sent (w_conn (fst (k (w\<lparr>w_conn := ?c\<rparr>)))) =
      conn_sent (w_conn w) @ map response_display (u # us) @ [response_display r]"
    "\<forall>x\<in>set us. response_tag x = None" "response_tag r = Some tag" "snd (k (w\<lparr>w_conn := ?c\<rparr>)) = Ok s"
    by (auto simp: answered_def)
  then show ?thesis unfolding k answered_def using assms(2)
    by (intro conjI exI [of _ "u # us"] exI [of _ r]) simp_all
qed

lemma answered_list:
  "conn_writable (w_conn w) \<Longrightarrow> response_tag r = Some tag \<Longrightarrow>
   answered tag (w_conn w) (w_conn (fst (foldr (\<lambda>m. respond (list_response m)) ms (respond r (finish s)) w))) \<and>
   snd (foldr (\<lambda>m. respond (list_response m)) ms (respond r (finish s)) w) = Ok s"
proof (induction ms arbitrary: w)
  case (Cons m ms)
  then show ?case
    using answered_untagged [of w "list_response m" tag "foldr (\<lambda>m. respond (list_response m)) ms (respond r (finish s))" s]
    by (simp add: list_response_def)
qed (simp add: answered_respond_finish)

locale answering_handler = command_handler +
  assumes handle_answers: "conn_writable (w_conn w) \<Longrightarrow>
    answered tag (w_conn w) (w_conn (fst (handle tag args st w))) \<and> (\<exists>s. snd (handle tag args st w) = Ok s)"

interpretation acap: answering_handler "capability_handle b" for b
  by unfold_locales (simp add: capability_handle_def Let_def answered_respond_finish)

interpretation anoop: answering_handler noop_handle
  by unfold_locales (simp add: noop_handle_def answered_respond_finish)

interpretation alogout: answering_handler logout_handle
proof
  fix w :: world and tag args st
  assume "conn_writable (w_conn w)"
  then show "answered tag (w_conn w) (w_conn (fst (logout_handle tag args st w))) \<and> (\<exists>s. snd (logout_handle tag args st w) = Ok s)"
    using answered_untagged [of w "Response_Bye ''Logging out''" tag
        "respond (Response_Ok (Some tag) ''LOGOUT completed'') (finish (Some SS_Logout))" "Some SS_Logout"]
    by (simp add: logout_handle_def answered_respond_finish)
qed

interpretation alogin: answering_handler login_handle
  by unfold_locales
    (simp add: login_handle_def answered_respond_finish split: option.split prod.split sum.split bool.split)

interpretation aselect: answering_handler select_handle
  by unfold_locales
    (simp add: select_handle_def get_mailbox_def Let_def answered_respond_finish split: option.split)

interpretation acreate: answering_handler create_handle
proof
  fix w :: world and tag args st
  assume "conn_writable (w_conn w)"
  moreover have "conn_writable (w_conn (w\<lparr>w_mailboxes := mb\<rparr>))" for mb using calculation by simp
  ultimately show "answered tag (w_conn w) (w_conn (fst (create_handle tag args st w))) \<and> (\<exists>s. snd (create_handle tag args st w) = Ok s)"
    using answered_respond_finish [where w = "w\<lparr>w_mailboxes := _\<rparr>"]
    by (simp add: create_handle_def Let_def answered_respond_finish split: option.split prod.split sum.split)
qed

interpretation adelete: answering_handler delete_handle
proof
  fix w :: world and tag args st
  assume "conn_writable (w_conn w)"
  moreover have "conn_writable (w_conn (w\<lparr>w_mailboxes := mb\<rparr>))" for mb using calculation by simp
  ultimately show "answered tag (w_conn w) (w_conn (fst (delete_handle tag args st w))) \<and> (\<exists>s. snd (delete_handle tag args st w) = Ok s)"
    using answered_respond_finish [where w = "w\<lparr>w_mailboxes := _\<rparr>"]
    by (simp add: delete_handle_def Let_def answered_respond_finish split: option.split prod.split sum.split)
qed

interpretation alist: answering_handler list_handle
  by unfold_locales
    (simp add: list_handle_def list_mailboxes_def Let_def answered_respond_finish answered_list split: option.split prod.split)

section \<open>Properties\<close>

lemma list_responses_sent:
  "conn_writable (w_conn w) \<Longrightarrow>
   conn_sent (w_conn (fst (foldr (\<lambda>m. respond (list_response m)) ms (respond r (finish s)) w))) =
     conn_sent (w_conn w) @ map (\<lambda>m. response_display (list_response m)) ms @ [response_display r]"
  by (induction ms arbitrary: w) (simp_all add: respond_def finish_def)

text \<open>A world for the examples: one user's two mailboxes, a client that takes every write.\<close>

definition example_store :: mailboxes where
  "example_store = fst (create_mailbox [] ''bob'' ''lists/rust'' (fst (create_mailbox [] ''bob'' ''INBOX'' mailboxes_new)))"

definition example_world :: "string \<Rightarrow> world" where
  "example_world inp = \<lparr>w_conn = \<lparr>conn_tls = False, conn_peer = ''127.0.0.1'', conn_input = inp,
      conn_input_end = None, conn_write_error = (\<lambda>_. None), conn_writes = 0, conn_sent = []\<rparr>,
    w_mailboxes = example_store, w_authenticate = (\<lambda>c. Ok (c = \<lparr>cred_username = ''bob'', cred_password = ''pw''\<rparr>)),
    w_regex = regex_model, w_shared = ctx_new\<rparr>"

lemma example_store_up: "registry_up example_store"
  unfolding example_store_def by (intro mbs.create_up registry_up_new)

lemma example_world_writable [simp]: "conn_writable (w_conn (example_world inp))"
  by (simp add: example_world_def conn_writable_def)

lemma example_lookup:
  "registry_lookup example_store (u, n) \<noteq> None \<longleftrightarrow> u = ''bob'' \<and> (n = ''INBOX'' \<or> n = ''lists/rust'')"
  by (auto simp: example_store_def registry_lookup_def registry_handle_defs actor_simps mailboxes_new_def
      registry_init_def reg_create_def reg_get_def mailbox_info_new_def Let_def)

text \<open>
  C9: LIST, from the words of the client to the lines on the wire: one untagged line for each
  mailbox of the user whose name the wildcards describe (reference and pattern put together),
  each once and no others, then the tagged completion.
\<close>

theorem list_handler_exact:
  assumes "registry_up (w_mailboxes w)" and "regex_documented (w_regex w)" and "conn_writable (w_conn w)"
    and "state_user st = Some u" and "list_parse_args args = Some (r, p)"
    and "\<forall>n. registry_lookup (w_mailboxes w) (u, n) \<noteq> None \<longrightarrow> CHR 0x0A \<notin> set n"
  shows "\<exists>ms. snd (list_handle tag args st w) = Ok None \<and>
    conn_sent (w_conn (fst (list_handle tag args st w))) =
      conn_sent (w_conn w) @ map (\<lambda>m. response_display (list_response m)) ms
        @ [response_display (Response_Ok (Some tag) ''LIST completed'')] \<and>
    distinct ms \<and>
    set ms = {m. \<exists>n. registry_lookup (w_mailboxes w) (u, n) = Some m \<and>
                     (glob (effective_pattern r p) n \<or> inbox_match (effective_pattern r p) n)}"
proof -
  let ?flt = "pattern_to_filter (effective_pattern r p)"
  obtain ms where ms: "list_mailboxes (w_regex w) u ?flt (w_mailboxes w) = Ok ms" "distinct ms"
    "set ms = {m. \<exists>n. registry_lookup (w_mailboxes w) (u, n) = Some m \<and> filter_accepts (w_regex w) ?flt n}"
    using mbs.listing_exact [OF assms(1)] by blast
  have "filter_accepts (w_regex w) ?flt n \<longleftrightarrow>
      glob (effective_pattern r p) n \<or> inbox_match (effective_pattern r p) n"
    if "registry_lookup (w_mailboxes w) (u, n) = Some m" for n m
    using that assms(6) pattern_filter_accepts [OF assms(2)] by simp
  then have "set ms = {m. \<exists>n. registry_lookup (w_mailboxes w) (u, n) = Some m \<and>
      (glob (effective_pattern r p) n \<or> inbox_match (effective_pattern r p) n)}"
    using ms(3) by blast
  moreover have "list_handle tag args st w =
      foldr (\<lambda>m. respond (list_response m)) ms (respond (Response_Ok (Some tag) ''LIST completed'') (finish None)) w"
    using assms(4,5) ms(1) by (simp add: list_handle_def)
  ultimately show ?thesis
    using ms(2) list_responses_sent [OF assms(3)] answered_list [OF assms(3)] by (intro exI [of _ ms]) simp
qed

theorem list_handler_exact_witness:
  "\<exists>ms. conn_sent (w_conn (fst (list_handle ''A1'' ''lists/%'' (SS_Authenticated ''bob'') (example_world [])))) =
      map (\<lambda>m. response_display (list_response m)) ms @ [response_display (Response_Ok (Some ''A1'') ''LIST completed'')] \<and>
    set ms = {m. registry_lookup example_store (''bob'', ''lists/rust'') = Some m}"
proof -
  have p: "list_parse_args ''lists/%'' = Some ([], ''lists/%'')" by code_simp
  have e: "effective_pattern [] ''lists/%'' = ''lists/%''" by code_simp
  have g: "glob ''lists/%'' ''lists/rust''" "\<not> glob ''lists/%'' ''INBOX''" by code_simp+
  have i: "\<not> inbox_match ''lists/%'' n" for n by (simp add: inbox_match_def)
  have names: "n = ''INBOX'' \<or> n = ''lists/rust''" if "registry_lookup example_store (''bob'', n) = Some m" for n m
    using that example_lookup [of "''bob''" n] by simp
  have seteq: "{m. \<exists>n. registry_lookup example_store (''bob'', n) = Some m \<and>
      (glob ''lists/%'' n \<or> inbox_match ''lists/%'' n)} = {m. registry_lookup example_store (''bob'', ''lists/rust'') = Some m}"
  proof (intro Collect_cong iffI)
    fix m
    assume "\<exists>n. registry_lookup example_store (''bob'', n) = Some m \<and> (glob ''lists/%'' n \<or> inbox_match ''lists/%'' n)"
    then obtain n where n: "registry_lookup example_store (''bob'', n) = Some m" "glob ''lists/%'' n" using i by blast
    then show "registry_lookup example_store (''bob'', ''lists/rust'') = Some m" using names [OF n(1)] g(2) by auto
  next
    fix m
    assume "registry_lookup example_store (''bob'', ''lists/rust'') = Some m"
    then show "\<exists>n. registry_lookup example_store (''bob'', n) = Some m \<and> (glob ''lists/%'' n \<or> inbox_match ''lists/%'' n)"
      using g(1) by (intro exI [of _ "''lists/rust''"]) simp
  qed
  have nl: "\<forall>n. registry_lookup (w_mailboxes (example_world [])) (''bob'', n) \<noteq> None \<longrightarrow> CHR 0x0A \<notin> set n"
    by (auto simp: example_lookup example_world_def simp del: not_None_eq)
  have w: "w_mailboxes (example_world []) = example_store" "w_regex (example_world []) = regex_model"
    "conn_sent (w_conn (example_world [])) = []" by (simp_all add: example_world_def)
  have up: "registry_up (w_mailboxes (example_world []))" "regex_documented (w_regex (example_world []))"
    unfolding w by (rule example_store_up, rule regex_model_documented)
  note list_handler_exact [OF up example_world_writable state_user.simps(1) p nl, of "''A1''", unfolded e w append_Nil seteq]
  then show ?thesis by (elim exE conjE) (rule exI, rule conjI)
qed

end
