(* ===== verification/Command_Registry.thy ===== *)
theory Command_Registry
  imports Handlers
begin

text \<open>
  src/command_handlers.rs: the registry of command handlers and its dispatch, and the set of
  built-in handlers that src/server.rs registers.
\<close>

section \<open>The registry\<close>

type_synonym command_handlers = "string \<rightharpoonup> handler"

definition ch_new :: command_handlers where
  "ch_new = Map.empty"

definition ch_register :: "handler \<Rightarrow> command_handlers \<Rightarrow> command_handlers \<times> unit result" where
  "ch_register h hs =
     (let name = to_uppercase (h_name h) in
      if hs name \<noteq> None then (hs, Err (Internal (''Command handler already registered: '' @ name)))
      else (hs(name \<mapsto> h), Ok ()))"

definition ch_get :: "string \<Rightarrow> command_handlers \<Rightarrow> handler option" where
  "ch_get name hs = hs (to_uppercase name)"

definition ch_handle ::
  "command_handlers \<Rightarrow> string \<Rightarrow> string \<Rightarrow> string \<Rightarrow> session_state \<Rightarrow> world \<Rightarrow> world \<times> session_state option" where
  "ch_handle hs name tag args st w =
     (case ch_get name hs of
        Some h \<Rightarrow>
          if h_requires_auth h \<and> st = SS_NotAuthenticated then
            (tell (Response_No (Some tag) ''Command requires authentication'') w, None)
          else if h_requires_selected h \<and> (case st of SS_Selected _ _ \<Rightarrow> False | _ \<Rightarrow> True) then
            (tell (Response_No (Some tag) ''Command requires a selected mailbox'') w, None)
          else (case h_handle h tag args st w of
              (w', Ok upd) \<Rightarrow> (w', upd)
            | (w', Err e) \<Rightarrow> (tell (Response_Bad (Some tag) (''Handler error: '' @ error_display e)) w', None))
      | None \<Rightarrow> (tell (Response_Bad (Some tag) (''Unknown command: '' @ name)) w, None))"

definition ch_list_commands :: "command_handlers \<Rightarrow> string set" where
  "ch_list_commands hs = dom hs"

definition ch_has_command :: "string \<Rightarrow> command_handlers \<Rightarrow> bool" where
  "ch_has_command name hs = (hs (to_uppercase name) \<noteq> None)"

section \<open>The built-in handlers\<close>

definition register_all :: "handler list \<Rightarrow> command_handlers \<Rightarrow> command_handlers" where
  "register_all hl hs = fold (\<lambda>h hs. fst (ch_register h hs)) hl hs"

definition builtin_handlers :: "handler list" where
  "builtin_handlers = [capability_handler False, noop_handler, logout_handler, login_handler,
     select_handler, create_handler, delete_handler, list_handler]"

definition server_handlers :: command_handlers where
  "server_handlers = register_all builtin_handlers ch_new"

section \<open>Every registered handler meets the contract\<close>

definition all_handlers :: "((string \<Rightarrow> string \<Rightarrow> session_state \<Rightarrow> world \<Rightarrow> world \<times> state_update) \<Rightarrow> bool) \<Rightarrow>
    command_handlers \<Rightarrow> bool" where
  "all_handlers P hs \<longleftrightarrow> (\<forall>n h. hs n = Some h \<longrightarrow> P (h_handle h))"

lemma all_handlers_register: "all_handlers P hs \<Longrightarrow> P (h_handle h) \<Longrightarrow> all_handlers P (fst (ch_register h hs))"
  by (simp add: all_handlers_def ch_register_def Let_def)

lemma all_handlers_register_all:
  "\<forall>h\<in>set hl. P (h_handle h) \<Longrightarrow> all_handlers P hs \<Longrightarrow> all_handlers P (register_all hl hs)"
  by (induction hl arbitrary: hs) (simp_all add: register_all_def all_handlers_register)

lemma server_handlers_ok: "all_handlers command_handler server_handlers"
  unfolding server_handlers_def
  by (rule all_handlers_register_all)
    (simp_all add: builtin_handlers_def handler_defs all_handlers_def ch_new_def
      hcap.command_handler_axioms hnoop.command_handler_axioms hlogout.command_handler_axioms
      hlogin.command_handler_axioms hselect.command_handler_axioms hcreate.command_handler_axioms
      hdelete.command_handler_axioms hlist.command_handler_axioms)

lemma server_handlers_answer: "all_handlers answering_handler server_handlers"
  unfolding server_handlers_def
  by (rule all_handlers_register_all)
    (simp_all add: builtin_handlers_def handler_defs all_handlers_def ch_new_def
      acap.answering_handler_axioms anoop.answering_handler_axioms alogout.answering_handler_axioms
      alogin.answering_handler_axioms aselect.answering_handler_axioms acreate.answering_handler_axioms
      adelete.answering_handler_axioms alist.answering_handler_axioms)

section \<open>Dispatch\<close>

lemma handler_frame_writes: "handler_frame st w w' \<Longrightarrow> only_writes w' w'' \<Longrightarrow> handler_frame st w w''"
  using only_writes_trans [of "w\<lparr>w_mailboxes := w_mailboxes w'\<rparr>" w' w''] only_writes_fields(1) [of w' w'']
  by (simp add: handler_frame_def)

lemma ch_handle_frame:
  assumes "all_handlers command_handler hs"
  shows "handler_frame st w (fst (ch_handle hs name tag args st w))"
proof (cases "ch_get name hs")
  case (Some h)
  obtain w' r where r: "h_handle h tag args st w = (w', r)" by force
  have "command_handler (h_handle h)" using assms Some by (auto simp: all_handlers_def ch_get_def)
  then have "handler_frame st w w'" using command_handler.handle_frame [of "h_handle h" st w tag args] r by simp
  then have "handler_frame st w (fst (case (w', r) of (w', Ok upd) \<Rightarrow> (w', upd)
      | (w', Err e) \<Rightarrow> (tell (Response_Bad (Some tag) (''Handler error: '' @ error_display e)) w', None)))"
    by (cases r) (auto intro: handler_frame_writes)
  then show ?thesis using Some r by (auto simp: ch_handle_def)
qed (auto simp: ch_handle_def)

lemma ch_handle_user:
  assumes "all_handlers command_handler hs" and "snd (ch_handle hs name tag args st w) = Some s" and "state_user s = Some u"
  shows "state_user st = Some u \<or> (\<exists>p. w_authenticate w \<lparr>cred_username = u, cred_password = p\<rparr> = Ok True)"
proof (cases "ch_get name hs")
  case (Some h)
  have "command_handler (h_handle h)" using assms(1) Some by (auto simp: all_handlers_def ch_get_def)
  moreover have "snd (h_handle h tag args st w) = Ok (Some s)"
    using assms(2) Some by (auto simp: ch_handle_def split: if_splits prod.splits sum.splits)
  ultimately show ?thesis using command_handler.handle_user assms(3) by metis
qed (use assms(2) in \<open>simp add: ch_handle_def\<close>)

lemma ch_handle_answers:
  assumes "all_handlers answering_handler hs" and "conn_writable (w_conn w)"
  shows "answered tag (w_conn w) (w_conn (fst (ch_handle hs name tag args st w)))"
proof (cases "ch_get name hs")
  case (Some h)
  have "answering_handler (h_handle h)" using assms(1) Some by (auto simp: all_handlers_def ch_get_def)
  then have "answered tag (w_conn w) (w_conn (fst (h_handle h tag args st w))) \<and> (\<exists>s. snd (h_handle h tag args st w) = Ok s)"
    using answering_handler.handle_answers [of "h_handle h" w tag args st] assms(2) by blast
  then show ?thesis using Some assms(2) by (cases "h_handle h tag args st w") (auto simp: ch_handle_def answered_tell)
qed (simp add: ch_handle_def assms(2) answered_tell)

lemma ch_handle_builtin_frame [simp, intro]: "handler_frame st w (fst (ch_handle server_handlers name tag args st w))"
  by (rule ch_handle_frame [OF server_handlers_ok])

section \<open>Properties\<close>

lemma register_all_lookup:
  "register_all hl hs n = (case hs n of Some h \<Rightarrow> Some h | None \<Rightarrow> find (\<lambda>h. to_uppercase (h_name h) = n) hl)"
proof (induction hl arbitrary: hs)
  case (Cons h hl)
  have "register_all (h # hl) hs n = register_all hl (fst (ch_register h hs)) n" by (simp add: register_all_def)
  then show ?case using Cons [of "fst (ch_register h hs)"] by (auto simp: ch_register_def Let_def split: option.splits)
qed (simp add: register_all_def split: option.split)

text \<open>
  Whatever handlers are registered, a command is dispatched to the first one registered
  under its name, in any letter case of both; a later handler of the same name never
  replaces it.
\<close>

theorem dispatch_first_registered:
  "ch_get name (register_all hl ch_new) = find (\<lambda>h. eq_ignore_ascii_case (h_name h) name) hl \<and>
   (ch_has_command name (register_all hl ch_new) \<longleftrightarrow> (\<exists>h\<in>set hl. eq_ignore_ascii_case (h_name h) name)) \<and>
   ch_list_commands (register_all hl ch_new) = (\<lambda>h. to_uppercase (h_name h)) ` set hl"
proof (intro conjI)
  show "ch_has_command name (register_all hl ch_new) \<longleftrightarrow> (\<exists>h\<in>set hl. eq_ignore_ascii_case (h_name h) name)"
    using find_None_iff [of "\<lambda>h. to_uppercase (h_name h) = to_uppercase name" hl]
    by (auto simp: ch_has_command_def register_all_lookup ch_new_def eq_ignore_ascii_case_def)
  show "ch_list_commands (register_all hl ch_new) = (\<lambda>h. to_uppercase (h_name h)) ` set hl"
    by (simp add: ch_list_commands_def dom_def register_all_lookup ch_new_def find_None_iff del: not_None_eq) blast
qed (simp add: ch_get_def register_all_lookup ch_new_def eq_ignore_ascii_case_def)

theorem dispatch_first_registered_witness:
  "ch_get ''noop'' (register_all [noop_handler, noop_handler\<lparr>h_requires_auth := False\<rparr>] ch_new) = Some noop_handler"
proof -
  have "eq_ignore_ascii_case ''NOOP'' ''noop''" by code_simp
  then show ?thesis
    using dispatch_first_registered [of "''noop''" "[noop_handler, noop_handler\<lparr>h_requires_auth := False\<rparr>]"]
    by (simp add: noop_handler_def)
qed

text \<open>
  Before authentication the server runs three commands only. Any other command, known or
  not, gets one refusal and has no effect on the stores or the session state.
\<close>

theorem unauthenticated_commands:
  assumes "to_uppercase name \<notin> {''CAPABILITY'', ''LOGOUT'', ''LOGIN''}"
  shows "ch_handle server_handlers name tag args SS_NotAuthenticated w =
    (tell (if to_uppercase name \<in> {''NOOP'', ''SELECT'', ''CREATE'', ''DELETE'', ''LIST''}
           then Response_No (Some tag) ''Command requires authentication''
           else Response_Bad (Some tag) (''Unknown command: '' @ name)) w, None)"
proof -
  have up: "to_uppercase ''NOOP'' = ''NOOP''" "to_uppercase ''SELECT'' = ''SELECT''" "to_uppercase ''CREATE'' = ''CREATE''"
    "to_uppercase ''DELETE'' = ''DELETE''" "to_uppercase ''LIST'' = ''LIST''" "to_uppercase ''LOGIN'' = ''LOGIN''"
    "to_uppercase ''LOGOUT'' = ''LOGOUT''" "to_uppercase ''CAPABILITY'' = ''CAPABILITY''" by code_simp+
  show ?thesis using assms
    by (auto simp: ch_handle_def ch_get_def server_handlers_def register_all_lookup ch_new_def builtin_handlers_def
        handler_defs up)
qed

theorem unauthenticated_commands_witness:
  "ch_handle server_handlers ''DELETE'' ''A1'' ''lists'' SS_NotAuthenticated (example_world []) =
     (tell (Response_No (Some ''A1'') ''Command requires authentication'') (example_world []), None)"
proof -
  have "to_uppercase ''DELETE'' = ''DELETE''" by code_simp
  then show ?thesis using unauthenticated_commands [of "''DELETE''" "''A1''" "''lists''" "example_world []"] by simp
qed

end
