(* ===== verification/Session.thy ===== *)
theory Session
  imports Command_Registry
begin

text \<open>
  src/session.rs: the tag history, the sequence map and the command loop of a session.
  The loop is a function over turns. A turn is one pass through the loop with what the
  environment contributes to it: the two clock readings, the branch that \<open>tokio::select!\<close>
  takes, the commands of other sessions that the mailbox store executes before this session's
  next call (a handler makes at most one), the authenticator's answers at that time, and the
  outcome of a TLS handshake.
\<close>

section \<open>Tag history and sequence map\<close>

record tag_history =
  th_tags :: "string set"
  th_max :: nat

definition default_max_tag_history :: nat where
  "default_max_tag_history = 10000"

definition tag_history_new :: "nat \<Rightarrow> tag_history" where
  "tag_history_new m = \<lparr>th_tags = {}, th_max = m\<rparr>"

definition tag_history_default :: tag_history where
  "tag_history_default = tag_history_new default_max_tag_history"

definition tag_register :: "string \<Rightarrow> tag_history \<Rightarrow> tag_history \<times> unit result" where
  "tag_register tag th =
     (if tag \<in> th_tags th then (th, Err (ProtocolError (''Duplicate tag: '' @ tag)))
      else if card (th_tags th) \<ge> th_max th then (th, Err (ProtocolError ''Maximum tag history exceeded''))
      else (th\<lparr>th_tags := insert tag (th_tags th)\<rparr>, Ok ()))"

definition tag_clear :: "tag_history \<Rightarrow> tag_history" where
  "tag_clear th = th\<lparr>th_tags := {}\<rparr>"

type_synonym sequence_map = "(u32 \<rightharpoonup> uid) option"

definition seq_new :: sequence_map where
  "seq_new = None"

text \<open>The loop over \<open>enumerate()\<close>, \<open>seq\<close> counting from the first argument on.\<close>

fun seq_insert_all :: "nat \<Rightarrow> uid list \<Rightarrow> (u32 \<rightharpoonup> uid) \<Rightarrow> (u32 \<rightharpoonup> uid)" where
  "seq_insert_all seq [] m = m"
| "seq_insert_all seq (u # us) m = seq_insert_all (seq + 1) us (m(of_nat (seq + 1) \<mapsto> u))"

definition seq_initialize :: "uid list \<Rightarrow> sequence_map" where
  "seq_initialize uids = Some (seq_insert_all 0 uids Map.empty)"

definition seq_get_uid :: "u32 \<Rightarrow> sequence_map \<Rightarrow> uid result" where
  "seq_get_uid i sm = (case sm of
     None \<Rightarrow> Err (ProtocolError (''Invalid sequence ID: '' @ show_nat (unat i)))
   | Some m \<Rightarrow> (case m i of None \<Rightarrow> Err (ProtocolError (''Invalid sequence ID: '' @ show_nat (unat i))) | Some u \<Rightarrow> Ok u))"

definition seq_clear :: "sequence_map \<Rightarrow> sequence_map" where
  "seq_clear sm = None"

definition seq_is_initialized :: "sequence_map \<Rightarrow> bool" where
  "seq_is_initialized sm = (sm \<noteq> None)"

section \<open>The session\<close>

record session =
  ses_max_duration :: nat
  ses_max_idle :: nat
  ses_tags :: tag_history
  ses_sequence_map :: sequence_map
  ses_user :: "user option"
  ses_selected :: "mailbox_id option"
  ses_handlers :: command_handlers

definition session_new :: "command_handlers \<Rightarrow> nat \<Rightarrow> nat \<Rightarrow> session" where
  "session_new hs max_duration max_idle =
     \<lparr>ses_max_duration = max_duration, ses_max_idle = max_idle, ses_tags = tag_history_default,
      ses_sequence_map = seq_new, ses_user = None, ses_selected = None, ses_handlers = hs\<rparr>"

datatype branch = Br_Untagged "response option" | Br_Read | Br_Shutdown

record turn =
  t_session_elapsed :: nat
  t_idle_elapsed :: nat
  t_branch :: branch
  t_others :: "registry_command list"
  t_authenticate :: "credentials \<Rightarrow> bool result"
  t_handshake :: "string + string"

text \<open>The variables of the loop that change, and how a pass ends.\<close>

record loop_vars =
  lv_state :: session_state
  lv_tags :: tag_history

datatype pass = Continue loop_vars | Return "unit result"

text \<open>What \<open>handle_command_static\<close> makes of a command: a refusal, or a name with arguments.\<close>

fun static_call :: "command \<Rightarrow> string + string \<times> string" where
  "static_call Cmd_Capability = Inr (''CAPABILITY'', [])"
| "static_call Cmd_Noop = Inr (''NOOP'', [])"
| "static_call Cmd_Logout = Inr (''LOGOUT'', [])"
| "static_call Cmd_Starttls = Inl ''STARTTLS handling error''"
| "static_call (Cmd_Login u p) = Inr (''LOGIN'', u @ '' '' @ p)"
| "static_call (Cmd_Select m) = Inr (''SELECT'', m)"
| "static_call (Cmd_Create m) = Inr (''CREATE'', m)"
| "static_call (Cmd_Delete m) = Inr (''DELETE'', m)"
| "static_call (Cmd_List r p) = Inr (''LIST'', r @ '' '' @ p)"
| "static_call (Cmd_Custom n args) = Inr (n, args)"
| "static_call _ = Inl ''Command not yet implemented''"

definition handle_command_static ::
  "string \<Rightarrow> command \<Rightarrow> command_handlers \<Rightarrow> session_state \<Rightarrow> world \<Rightarrow> world \<times> session_state option" where
  "handle_command_static tag cmd hs st w =
     (case static_call cmd of
        Inl m \<Rightarrow> (tell (Response_Bad (Some tag) m) w, None)
      | Inr (name, args) \<Rightarrow> ch_handle hs name tag args st w)"

definition pop_newline :: "string \<Rightarrow> string" where
  "pop_newline line =
     (if line \<noteq> [] \<and> last line = CHR 0x0A
      then (let l = butlast line in if l \<noteq> [] \<and> last l = CHR 0x0D then butlast l else l)
      else line)"

text \<open>STARTTLS; \<open>tls\<close> says whether the server has an acceptor.\<close>

definition handle_starttls :: "bool \<Rightarrow> string + string \<Rightarrow> string \<Rightarrow> loop_vars \<Rightarrow> world \<Rightarrow> world \<times> pass" where
  "handle_starttls tls handshake tag lv w =
     (let response =
        (if conn_tls (w_conn w) then Response_Bad (Some tag) ''Already using TLS''
         else if \<not> tls then Response_Bad (Some tag) ''STARTTLS not available''
         else Response_Ok (Some tag) ''Ready for TLS handshake'')
      in case write_response response (w_conn w) of
          (c, Err e) \<Rightarrow> (w\<lparr>w_conn := c\<rparr>, Return (Ok ()))
        | (c, Ok _) \<Rightarrow>
            (case response of
               Response_Ok _ _ \<Rightarrow>
                 (case upgrade_to_tls handshake c of
                    Err e \<Rightarrow> (w\<lparr>w_conn := c\<rparr>, Return (Err e))
                  | Ok c' \<Rightarrow> (w\<lparr>w_conn := c'\<rparr>, Continue lv))
             | _ \<Rightarrow> (w\<lparr>w_conn := c\<rparr>, Continue lv)))"

definition handle_line :: "session \<Rightarrow> bool \<Rightarrow> string + string \<Rightarrow> string \<Rightarrow> loop_vars \<Rightarrow> world \<Rightarrow> world \<times> pass" where
  "handle_line ses tls handshake line lv w =
     (let parts = splitn2 CHR '' '' line in
      if length parts < 2 then (tell (Response_Bad None ''Invalid command format'') w, Continue lv)
      else
        let tag = parts ! 0; command_line = parts ! 1 in
        case tag_register tag (lv_tags lv) of
          (th, Err e) \<Rightarrow> (tell (Response_Bad (Some tag) (''Tag error: '' @ error_display e)) w, Continue (lv\<lparr>lv_tags := th\<rparr>))
        | (th, Ok _) \<Rightarrow>
            (case parse_command tag command_line of
               Err e \<Rightarrow> (tell (Response_Bad (Some tag) (''Parse error: '' @ error_display e)) w, Continue (lv\<lparr>lv_tags := th\<rparr>))
             | Ok command \<Rightarrow>
                 if command = Cmd_Starttls then handle_starttls tls handshake tag (lv\<lparr>lv_tags := th\<rparr>) w
                 else (case handle_command_static tag command (ses_handlers ses) (lv_state lv) w of
                     (w', Some SS_Logout) \<Rightarrow> (w', Return (Ok ()))
                   | (w', Some new_state) \<Rightarrow> (w', Continue (lv\<lparr>lv_tags := th, lv_state := new_state\<rparr>))
                   | (w', None) \<Rightarrow> (w', Continue (lv\<lparr>lv_tags := th\<rparr>)))))"

definition handle_read :: "session \<Rightarrow> bool \<Rightarrow> string + string \<Rightarrow> loop_vars \<Rightarrow> world \<Rightarrow> world \<times> pass" where
  "handle_read ses tls handshake lv w =
     (case read_line (w_conn w) of
        (c, Ok line) \<Rightarrow>
          if line = [] then (w\<lparr>w_conn := c\<rparr>, Return (Ok ()))
          else handle_line ses tls handshake (pop_newline line) lv (w\<lparr>w_conn := c\<rparr>)
      | (c, Err e) \<Rightarrow> (w\<lparr>w_conn := c\<rparr>, Return (Ok ())))"

text \<open>
  The commands of other sessions, executed by the store's writer loop, and what the
  environment sets for the turn.
\<close>

definition store_step :: "registry_command list \<Rightarrow> mailboxes \<Rightarrow> mailboxes" where
  "store_step cs mb = (if alive mb then fst (run_loop registry_exec registry_stops (state mb) cs) else mb)"

definition turn_world :: "turn \<Rightarrow> world \<Rightarrow> world" where
  "turn_world t w = w\<lparr>w_mailboxes := store_step (t_others t) (w_mailboxes w), w_authenticate := t_authenticate t\<rparr>"

text \<open>
  One pass. The idle check measures the time since the assignment at the top of the same
  pass.
\<close>

definition session_turn :: "session \<Rightarrow> bool \<Rightarrow> turn \<Rightarrow> loop_vars \<Rightarrow> world \<Rightarrow> world \<times> pass" where
  "session_turn ses tls t lv w0 =
     (let w = turn_world t w0 in
      if t_session_elapsed t > ses_max_duration ses then
        (tell (Response_Bye ''Session duration exceeded'') w, Return (Err (ProtocolError ''Session duration exceeded'')))
      else if t_idle_elapsed t > ses_max_idle ses then
        (tell (Response_Bye ''Session idle timeout'') w, Return (Err (ProtocolError ''Session idle timeout'')))
      else case t_branch t of
          Br_Untagged None \<Rightarrow> (w, Continue lv)
        | Br_Untagged (Some r) \<Rightarrow>
            (case write_response r (w_conn w) of
               (c, Err e) \<Rightarrow> (w\<lparr>w_conn := c\<rparr>, Return (Ok ()))
             | (c, Ok _) \<Rightarrow> (w\<lparr>w_conn := c\<rparr>, Continue lv))
        | Br_Read \<Rightarrow> handle_read ses tls (t_handshake t) lv w
        | Br_Shutdown \<Rightarrow> (tell (Response_Bye ''Server shutdown'') w, Return (Ok ())))"

fun session_loop :: "session \<Rightarrow> bool \<Rightarrow> turn list \<Rightarrow> loop_vars \<Rightarrow> world \<Rightarrow> world \<times> pass" where
  "session_loop ses tls [] lv w = (w, Continue lv)"
| "session_loop ses tls (t # ts) lv w =
     (case session_turn ses tls t lv w of
        (w', Continue lv') \<Rightarrow> session_loop ses tls ts lv' w'
      | (w', Return r) \<Rightarrow> (w', Return r))"

definition session_handle :: "session \<Rightarrow> bool \<Rightarrow> turn list \<Rightarrow> world \<Rightarrow> world \<times> pass" where
  "session_handle ses tls ts w =
     (case write_response (Response_Ok None ''IMAP server ready'') (w_conn w) of
        (c, Err e) \<Rightarrow> (w\<lparr>w_conn := c\<rparr>, Return (Err e))
      | (c, Ok _) \<Rightarrow>
          session_loop ses tls ts \<lparr>lv_state = SS_NotAuthenticated, lv_tags = ses_tags ses\<rparr>
            (w\<lparr>w_conn := c, w_shared := ctx_new\<rparr>))"

section \<open>What one pass may do\<close>

lemma store_frame_refl [simp, intro]: "store_frame st mb mb"
  by (simp add: store_frame_def)

definition pass_ok :: "bool \<Rightarrow> loop_vars \<Rightarrow> world \<Rightarrow> world \<times> pass \<Rightarrow> bool" where
  "pass_ok tls lv w res \<longleftrightarrow>
     store_frame (lv_state lv) (w_mailboxes w) (w_mailboxes (fst res)) \<and>
     (\<not> tls \<longrightarrow> conn_input (w_conn (fst res)) = conn_input (w_conn w)) \<and>
     (\<forall>lv' u. snd res = Continue lv' \<and> state_user (lv_state lv') = Some u \<longrightarrow>
        state_user (lv_state lv) = Some u \<or>
        (\<exists>p. w_authenticate w \<lparr>cred_username = u, cred_password = p\<rparr> = Ok True))"

lemma pass_ok_quiet:
  "w_mailboxes w' = w_mailboxes w \<Longrightarrow> conn_input (w_conn w') = conn_input (w_conn w) \<Longrightarrow>
   (\<And>lv'. p = Continue lv' \<Longrightarrow> lv_state lv' = lv_state lv) \<Longrightarrow> pass_ok tls lv w (w', p)"
  unfolding pass_ok_def fst_conv snd_conv by (metis store_frame_refl)

lemma tell_fields [simp]:
  "w_mailboxes (tell r w) = w_mailboxes w" "w_authenticate (tell r w) = w_authenticate w"
  "conn_input (w_conn (tell r w)) = conn_input (w_conn w)" "conn_tls (w_conn (tell r w)) = conn_tls (w_conn w)"
  by (simp_all add: tell_def)

lemma handle_command_static_frame:
  "all_handlers command_handler hs \<Longrightarrow> handler_frame st w (fst (handle_command_static tag cmd hs st w))"
  by (cases "static_call cmd") (auto simp: handle_command_static_def ch_handle_frame)

lemma handle_command_static_user:
  assumes "all_handlers command_handler hs" and "snd (handle_command_static tag cmd hs st w) = Some s" and "state_user s = Some u"
  shows "state_user st = Some u \<or> (\<exists>p. w_authenticate w \<lparr>cred_username = u, cred_password = p\<rparr> = Ok True)"
  using assms(2) ch_handle_user [OF assms(1) _ assms(3)]
  by (cases "static_call cmd") (fastforce simp: handle_command_static_def)+

lemma handle_starttls_ok: "pass_ok tls lv w (handle_starttls tls hsk tag lv w)"
proof -
  define m where "m = (if conn_tls (w_conn w) then Response_Bad (Some tag) ''Already using TLS''
    else if \<not> tls then Response_Bad (Some tag) ''STARTTLS not available''
    else Response_Ok (Some tag) ''Ready for TLS handshake'')"
  obtain c r where c: "write_response m (w_conn w) = (c, r)" by force
  have i: "conn_input c = conn_input (w_conn w)" using write_response_fields(2) [of m "w_conn w"] c by simp
  have h: "handle_starttls tls hsk tag lv w = (case r of
        Err e \<Rightarrow> (w\<lparr>w_conn := c\<rparr>, Return (Ok ()))
      | Ok _ \<Rightarrow> (case m of
            Response_Ok _ _ \<Rightarrow> (case upgrade_to_tls hsk c of
                Err e \<Rightarrow> (w\<lparr>w_conn := c\<rparr>, Return (Err e))
              | Ok c' \<Rightarrow> (w\<lparr>w_conn := c'\<rparr>, Continue lv))
          | _ \<Rightarrow> (w\<lparr>w_conn := c\<rparr>, Continue lv)))"
    unfolding handle_starttls_def Let_def m_def [symmetric] c by simp
  show ?thesis
  proof (cases "tls \<and> \<not> conn_tls (w_conn w)")
    case True
    then show ?thesis unfolding h by (simp add: pass_ok_def split: sum.split response.split)
  next
    case False
    then have "\<exists>t. m = Response_Bad (Some tag) t" by (auto simp: m_def)
    then obtain t where "m = Response_Bad (Some tag) t" ..
    then show ?thesis unfolding h using i by (simp add: pass_ok_def split: sum.split)
  qed
qed

lemma handle_line_ok:
  assumes "all_handlers command_handler (ses_handlers ses)"
  shows "pass_ok tls lv w (handle_line ses tls hsk line lv w)"
proof -
  obtain th r where th: "tag_register (splitn2 CHR '' '' line ! 0) (lv_tags lv) = (th, r)" by force
  have st: "pass_ok tls lv w (handle_starttls tls hsk tag (lv\<lparr>lv_tags := th\<rparr>) w)" for tag
    using handle_starttls_ok [of tls "lv\<lparr>lv_tags := th\<rparr>" w] by (simp add: pass_ok_def)
  have cmd: "pass_ok tls lv w (case handle_command_static tag c (ses_handlers ses) (lv_state lv) w of
        (w', Some SS_Logout) \<Rightarrow> (w', Return (Ok ()))
      | (w', Some new_state) \<Rightarrow> (w', Continue (lv\<lparr>lv_tags := th, lv_state := new_state\<rparr>))
      | (w', None) \<Rightarrow> (w', Continue (lv\<lparr>lv_tags := th\<rparr>)))" for tag c
  proof -
    obtain w' s where s: "handle_command_static tag c (ses_handlers ses) (lv_state lv) w = (w', s)" by force
    have "handler_frame (lv_state lv) w w'"
      using handle_command_static_frame [OF assms, of "lv_state lv" w tag c] s by simp
    then have f: "store_frame (lv_state lv) (w_mailboxes w) (w_mailboxes w')" "conn_input (w_conn w') = conn_input (w_conn w)"
      by (auto simp: handler_frame_def dest: only_writes_fields)
    have u: "s = Some x \<Longrightarrow> state_user x = Some u \<Longrightarrow> state_user (lv_state lv) = Some u \<or>
        (\<exists>p. w_authenticate w \<lparr>cred_username = u, cred_password = p\<rparr> = Ok True)" for x u
      using handle_command_static_user [OF assms, of tag c "lv_state lv" w x u] s by simp
    show ?thesis using f u unfolding s
      by (cases s) (auto simp: pass_ok_def split: session_state.splits)
  qed
  show ?thesis
    using st cmd by (auto simp: handle_line_def Let_def th intro!: pass_ok_quiet split: sum.split)
qed

lemma handle_read_ok:
  assumes "all_handlers command_handler (ses_handlers ses)"
  shows "store_frame (lv_state lv) (w_mailboxes w) (w_mailboxes (fst (handle_read ses tls hsk lv w)))"
    and "snd (handle_read ses False hsk lv w) = Continue lv' \<Longrightarrow>
      length (conn_input (w_conn (fst (handle_read ses False hsk lv w)))) < length (conn_input (w_conn w))"
    and "snd (handle_read ses tls hsk lv w) = Continue lv' \<Longrightarrow> state_user (lv_state lv') = Some u \<Longrightarrow>
      state_user (lv_state lv) = Some u \<or> (\<exists>p. w_authenticate w \<lparr>cred_username = u, cred_password = p\<rparr> = Ok True)"
proof -
  obtain c r where c: "read_line (w_conn w) = (c, r)" by force
  have ok: "pass_ok b lv (w\<lparr>w_conn := c\<rparr>) (handle_line ses b hsk l lv (w\<lparr>w_conn := c\<rparr>))" for b l
    by (rule handle_line_ok [OF assms])
  show "store_frame (lv_state lv) (w_mailboxes w) (w_mailboxes (fst (handle_read ses tls hsk lv w)))"
    using ok [of tls] by (auto simp: handle_read_def c pass_ok_def split: sum.split)
  show "snd (handle_read ses tls hsk lv w) = Continue lv' \<Longrightarrow> state_user (lv_state lv') = Some u \<Longrightarrow>
      state_user (lv_state lv) = Some u \<or> (\<exists>p. w_authenticate w \<lparr>cred_username = u, cred_password = p\<rparr> = Ok True)"
    using ok [of tls] by (auto simp: handle_read_def c pass_ok_def split: sum.splits if_splits)
  show "snd (handle_read ses False hsk lv w) = Continue lv' \<Longrightarrow>
      length (conn_input (w_conn (fst (handle_read ses False hsk lv w)))) < length (conn_input (w_conn w))"
    using ok [of False] read_line_shorter [of "w_conn w" c] c
    by (auto simp: handle_read_def pass_ok_def split: sum.splits if_splits)
qed

lemma session_turn_store:
  assumes "all_handlers command_handler (ses_handlers ses)"
  shows "store_frame (lv_state lv) (store_step (t_others t) (w_mailboxes w)) (w_mailboxes (fst (session_turn ses tls t lv w)))"
  using handle_read_ok(1) [OF assms, of lv "turn_world t w"]
  by (auto simp: session_turn_def Let_def turn_world_def split: branch.split option.split prod.split sum.split)

lemma session_turn_user:
  assumes "all_handlers command_handler (ses_handlers ses)"
    and "snd (session_turn ses tls t lv w) = Continue lv'" and "state_user (lv_state lv') = Some u"
  shows "state_user (lv_state lv) = Some u \<or> (\<exists>p. t_authenticate t \<lparr>cred_username = u, cred_password = p\<rparr> = Ok True)"
  using assms(2,3) handle_read_ok(3) [OF assms(1), of tls "t_handshake t" lv "turn_world t w" lv' u]
  by (auto simp: session_turn_def Let_def turn_world_def split: if_splits branch.splits option.splits prod.splits sum.splits)

lemma session_turn_read:
  assumes "all_handlers command_handler (ses_handlers ses)"
    and "snd (session_turn ses False t lv w) = Continue lv'" and "t_branch t = Br_Read"
  shows "length (conn_input (w_conn (fst (session_turn ses False t lv w)))) < length (conn_input (w_conn w))"
  using assms(2,3) handle_read_ok(2) [OF assms(1), of "t_handshake t" lv "turn_world t w" lv']
  by (auto simp: session_turn_def Let_def turn_world_def split: if_splits)

section \<open>Whole sessions\<close>

fun pass_vars :: "loop_vars \<Rightarrow> pass \<Rightarrow> loop_vars" where
  "pass_vars lv (Continue lv') = lv'"
| "pass_vars lv (Return r) = lv"

text \<open>What every pass keeps holds at the end of the loop.\<close>

lemma session_loop_inv:
  assumes "\<And>t lv w. t \<in> set ts \<Longrightarrow> I lv w \<Longrightarrow>
      I (pass_vars lv (snd (session_turn ses tls t lv w))) (fst (session_turn ses tls t lv w))"
    and "I lv w"
  shows "\<exists>lv'. I lv' (fst (session_loop ses tls ts lv w))"
  using assms
proof (induction ts arbitrary: lv w)
  case (Cons t ts)
  obtain w' p where p: "session_turn ses tls t lv w = (w', p)" by force
  then have "I (pass_vars lv p) w'" using Cons.prems(1) [of t lv w] Cons.prems(2) by simp
  then show ?case using Cons p by (cases p) auto
qed auto

lemma session_handle_cases:
  "(\<exists>c e. session_handle ses tls ts w = (w\<lparr>w_conn := c\<rparr>, Return (Err e))) \<or>
   (\<exists>c. session_handle ses tls ts w =
      session_loop ses tls ts \<lparr>lv_state = SS_NotAuthenticated, lv_tags = ses_tags ses\<rparr> (w\<lparr>w_conn := c, w_shared := ctx_new\<rparr>)
      \<and> conn_input c = conn_input (w_conn w))"
proof -
  obtain c r where c: "write_response (Response_Ok None ''IMAP server ready'') (w_conn w) = (c, r)" by force
  then have "conn_input c = conn_input (w_conn w)"
    using write_response_fields(2) [of "Response_Ok None ''IMAP server ready''" "w_conn w"] by simp
  then show ?thesis using c by (cases r) (auto simp: session_handle_def)
qed

lemma session_handle_inv:
  assumes "\<And>t lv w. t \<in> set ts \<Longrightarrow> I lv w \<Longrightarrow>
      I (pass_vars lv (snd (session_turn ses tls t lv w))) (fst (session_turn ses tls t lv w))"
    and "\<And>c x lv. lv_state lv = SS_NotAuthenticated \<Longrightarrow> I lv (w\<lparr>w_conn := c, w_shared := x\<rparr>)"
  shows "\<exists>lv'. I lv' (fst (session_handle ses tls ts w))"
proof -
  consider (greet) c e where "session_handle ses tls ts w = (w\<lparr>w_conn := c\<rparr>, Return (Err e))"
    | (run) c where "session_handle ses tls ts w =
        session_loop ses tls ts \<lparr>lv_state = SS_NotAuthenticated, lv_tags = ses_tags ses\<rparr> (w\<lparr>w_conn := c, w_shared := ctx_new\<rparr>)"
    using session_handle_cases [of ses tls ts w] by blast
  then show ?thesis
  proof cases
    case greet
    then show ?thesis
      using assms(2) [where lv = "\<lparr>lv_state = SS_NotAuthenticated, lv_tags = ses_tags ses\<rparr>" and c = c and x = "w_shared w"] by auto
  next
    case run
    show ?thesis unfolding run by (rule session_loop_inv) (use assms in auto)
  qed
qed

lemma store_step_Nil [simp]: "store_step [] mb = mb"
  by (simp add: store_step_def)

lemma server_session_ok: "ses_handlers ses = server_handlers \<Longrightarrow> all_handlers command_handler (ses_handlers ses)"
  by (simp add: server_handlers_ok)

section \<open>Properties\<close>

text \<open>The passes and the session of the examples.\<close>

definition example_turn :: turn where
  "example_turn = \<lparr>t_session_elapsed = 0, t_idle_elapsed = 0, t_branch = Br_Read, t_others = [],
     t_authenticate = (\<lambda>c. Ok (c = \<lparr>cred_username = ''bob'', cred_password = ''pw''\<rparr>)), t_handshake = Inl ''no''\<rparr>"

definition example_session :: session where
  "example_session = session_new server_handlers 3600 1800"

definition example_input :: string where
  "example_input = ''A1 LOGIN bob pw'' @ crlf @ ''A2 DELETE INBOX'' @ crlf @ ''A3 DELETE lists/rust'' @ crlf"

lemma example_session_handlers [simp]: "ses_handlers example_session = server_handlers"
  by (simp add: example_session_def session_new_def)

lemma store_step_other:
  assumes "registry_up mb" and "\<forall>c\<in>set cs. leaves_user v c"
  shows "registry_up (store_step cs mb) \<and> registry_lookup (store_step cs mb) (v, n) = registry_lookup mb (v, n)"
  using registry_run_other [of "state mb" cs v n] assms
  by (simp add: registry_up_def registry_lookup_def store_step_def)

lemma session_keeps_others:
  assumes "ses_handlers ses = server_handlers" and "registry_up (w_mailboxes w)"
    and "\<forall>t\<in>set ts. (\<forall>c\<in>set (t_others t). leaves_user v c) \<and>
      (\<forall>p. t_authenticate t \<lparr>cred_username = v, cred_password = p\<rparr> \<noteq> Ok True)"
  shows "registry_up (w_mailboxes (fst (session_handle ses tls ts w))) \<and>
    registry_lookup (w_mailboxes (fst (session_handle ses tls ts w))) (v, n) = registry_lookup (w_mailboxes w) (v, n)"
proof -
  let ?I = "\<lambda>(lv :: loop_vars) (w' :: world). registry_up (w_mailboxes w') \<and> state_user (lv_state lv) \<noteq> Some v \<and>
     registry_lookup (w_mailboxes w') (v, n) = registry_lookup (w_mailboxes w) (v, n)"
  have "\<exists>lv'. ?I lv' (fst (session_handle ses tls ts w))"
  proof (rule session_handle_inv [where I = ?I])
    fix t lv x
    assume t: "t \<in> set ts" and I: "?I lv x"
    have "registry_up (store_step (t_others t) (w_mailboxes x)) \<and>
        registry_lookup (store_step (t_others t) (w_mailboxes x)) (v, n) = registry_lookup (w_mailboxes x) (v, n)"
      using I assms(3) t by (intro store_step_other) simp_all
    moreover have "store_frame (lv_state lv) (store_step (t_others t) (w_mailboxes x)) (w_mailboxes (fst (session_turn ses tls t lv x)))"
      by (rule session_turn_store [OF server_session_ok [OF assms(1)]])
    moreover have "state_user (lv_state (pass_vars lv (snd (session_turn ses tls t lv x)))) \<noteq> Some v"
      using session_turn_user [OF server_session_ok [OF assms(1)], of tls t lv x _ v] I assms(3) t
      by (cases "snd (session_turn ses tls t lv x)") auto
    ultimately show "?I (pass_vars lv (snd (session_turn ses tls t lv x))) (fst (session_turn ses tls t lv x))"
      using I by (simp add: store_frame_def)
  qed (simp add: assms(2))
  then show ?thesis by blast
qed

text \<open>
  C2: a session acts only as users whose password it was given: whatever a client sends, in
  any order, and whatever other sessions do meanwhile to the mailboxes of others, the mailboxes
  of a user as whom the authenticator has accepted nobody in this session are after the session
  what they were before it.
\<close>

theorem session_confined_to_its_users:
  assumes "ses_handlers ses = server_handlers" and "registry_up (w_mailboxes w)"
    and "\<forall>t\<in>set ts. (\<forall>c\<in>set (t_others t). leaves_user v c) \<and>
      (\<forall>p. t_authenticate t \<lparr>cred_username = v, cred_password = p\<rparr> \<noteq> Ok True)"
  shows "registry_lookup (w_mailboxes (fst (session_handle ses tls ts w))) (v, n) = registry_lookup (w_mailboxes w) (v, n)"
  using session_keeps_others [OF assms] by (rule conjunct2)

theorem session_confined_to_its_users_witness:
  "registry_lookup (w_mailboxes (fst (session_handle example_session False (replicate 4 example_turn)
     (example_world example_input)))) (''alice'', ''INBOX'') = registry_lookup example_store (''alice'', ''INBOX'')"
proof -
  have "w_mailboxes (example_world example_input) = example_store" by (simp add: example_world_def)
  then show ?thesis
    using session_confined_to_its_users [of example_session "example_world example_input" "replicate 4 example_turn" "''alice''" False]
    by (simp add: example_store_up example_turn_def)
qed

text \<open>
  C3: a client that has not logged in has no effect: whatever it sends, the mailbox store goes
  through exactly the commands of the other sessions, as far as the session lasts.
\<close>

theorem session_without_login_has_no_effect:
  assumes "ses_handlers ses = server_handlers" and "\<forall>t\<in>set ts. \<forall>c. t_authenticate t c \<noteq> Ok True"
  shows "\<exists>k\<le>length ts. w_mailboxes (fst (session_handle ses tls ts w)) =
    fold (\<lambda>t. store_step (t_others t)) (take k ts) (w_mailboxes w)"
proof -
  have loop: "\<exists>k\<le>length ts. w_mailboxes (fst (session_loop ses tls ts lv x)) =
      fold (\<lambda>t. store_step (t_others t)) (take k ts) (w_mailboxes x)"
    if "state_user (lv_state lv) = None" "\<forall>t\<in>set ts. \<forall>c. t_authenticate t c \<noteq> Ok True" for ts lv and x :: world
    using that
  proof (induction ts arbitrary: lv x)
    case (Cons t ts)
    obtain x' p where p: "session_turn ses tls t lv x = (x', p)" by force
    have x': "w_mailboxes x' = store_step (t_others t) (w_mailboxes x)"
      using session_turn_store [OF server_session_ok [OF assms(1)], of lv t x tls] Cons.prems(1) p
      by (simp add: store_frame_def)
    show ?case
    proof (cases p)
      case (Continue lv')
      have "state_user (lv_state lv') = None"
        using session_turn_user [OF server_session_ok [OF assms(1)], of tls t lv x lv'] Cons.prems p Continue
        by (cases "state_user (lv_state lv')") auto
      then obtain k where k: "k \<le> length ts" "w_mailboxes (fst (session_loop ses tls ts lv' x')) =
          fold (\<lambda>t. store_step (t_others t)) (take k ts) (w_mailboxes x')"
        using Cons.IH [of lv' x'] Cons.prems(2) by auto
      then show ?thesis using p Continue x' by (intro exI [of _ "Suc k"]) simp
    next
      case (Return r)
      then show ?thesis using p x' by (intro exI [of _ 1]) simp
    qed
  qed simp
  consider (greet) c e where "session_handle ses tls ts w = (w\<lparr>w_conn := c\<rparr>, Return (Err e))"
    | (run) c where "session_handle ses tls ts w =
        session_loop ses tls ts \<lparr>lv_state = SS_NotAuthenticated, lv_tags = ses_tags ses\<rparr> (w\<lparr>w_conn := c, w_shared := ctx_new\<rparr>)"
    using session_handle_cases [of ses tls ts w] by blast
  then show ?thesis
  proof cases
    case greet
    then show ?thesis by (intro exI [of _ 0]) simp
  next
    case run
    then show ?thesis
      using loop [of "\<lparr>lv_state = SS_NotAuthenticated, lv_tags = ses_tags ses\<rparr>" ts "w\<lparr>w_conn := c, w_shared := ctx_new\<rparr>"] assms(2)
      by simp
  qed
qed

theorem session_without_login_has_no_effect_witness:
  "w_mailboxes (fst (session_handle example_session False (replicate 4 (example_turn\<lparr>t_authenticate := \<lambda>c. Ok False\<rparr>))
     (example_world example_input))) = example_store"
proof -
  have "fold (\<lambda>t. store_step (t_others t)) (replicate k (example_turn\<lparr>t_authenticate := \<lambda>c. Ok False\<rparr>)) mb = mb" for k mb
    by (induction k) (simp_all add: example_turn_def)
  moreover have "w_mailboxes (example_world example_input) = example_store" by (simp add: example_world_def)
  ultimately show ?thesis
    using session_without_login_has_no_effect [of example_session "replicate 4 (example_turn\<lparr>t_authenticate := \<lambda>c. Ok False\<rparr>)"
        False "example_world example_input"] by auto
qed

text \<open>
  C25: no session removes an INBOX, of any user and in any letter case of the name, among
  whatever other sessions do that does not remove it.
\<close>

theorem session_keeps_inbox:
  assumes "ses_handlers ses = server_handlers" and "registry_up (w_mailboxes w)" and "\<forall>t\<in>set ts. \<forall>c\<in>set (t_others t). keeps_key (v, n) c"
    and "eq_ignore_ascii_case n ''INBOX''" and "registry_lookup (w_mailboxes w) (v, n) \<noteq> None"
  shows "registry_lookup (w_mailboxes (fst (session_handle ses tls ts w))) (v, n) \<noteq> None"
proof -
  let ?I = "\<lambda>(lv :: loop_vars) (w' :: world). registry_up (w_mailboxes w') \<and> registry_lookup (w_mailboxes w') (v, n) \<noteq> None"
  have "\<exists>lv'. ?I lv' (fst (session_handle ses tls ts w))"
  proof (rule session_handle_inv [where I = ?I])
    fix t lv x
    assume t: "t \<in> set ts" and I: "?I lv x"
    have "registry_up (store_step (t_others t) (w_mailboxes x)) \<and>
        registry_lookup (store_step (t_others t) (w_mailboxes x)) (v, n) \<noteq> None"
      using I assms(3) t registry_run_keeps [of "state (w_mailboxes x)" "t_others t" "(v, n)"]
      by (simp add: registry_up_def registry_lookup_def store_step_def)
    moreover have "store_frame (lv_state lv) (store_step (t_others t) (w_mailboxes x)) (w_mailboxes (fst (session_turn ses tls t lv x)))"
      by (rule session_turn_store [OF server_session_ok [OF assms(1)]])
    ultimately show "?I (pass_vars lv (snd (session_turn ses tls t lv x))) (fst (session_turn ses tls t lv x))"
      using I assms(4) unfolding store_frame_def by blast
  qed (use assms(2,5) in simp)
  then show ?thesis by blast
qed

theorem session_keeps_inbox_witness:
  "registry_lookup (w_mailboxes (fst (session_handle example_session False (replicate 4 example_turn)
     (example_world example_input)))) (''bob'', ''INBOX'') \<noteq> None"
proof (rule session_keeps_inbox)
  show "registry_up (w_mailboxes (example_world example_input))" by (simp add: example_world_def example_store_up)
  show "registry_lookup (w_mailboxes (example_world example_input)) (''bob'', ''INBOX'') \<noteq> None"
    unfolding example_lookup [symmetric] by (simp add: example_world_def example_lookup del: not_None_eq)
qed (simp_all add: example_turn_def)



section \<open>Tags and sequence numbers\<close>

text \<open>The tags of a list that the history accepts, one after the other.\<close>

fun tags_accepted :: "tag_history \<Rightarrow> string list \<Rightarrow> string list" where
  "tags_accepted th [] = []"
| "tags_accepted th (t # ts) =
     (case tag_register t th of (th', Ok _) \<Rightarrow> t # tags_accepted th' ts | (th', Err e) \<Rightarrow> tags_accepted th' ts)"

text \<open>The first occurrences in a list.\<close>

fun first_uses :: "string set \<Rightarrow> string list \<Rightarrow> string list" where
  "first_uses seen [] = []"
| "first_uses seen (t # ts) = (if t \<in> seen then first_uses seen ts else t # first_uses (insert t seen) ts)"

lemma tags_accepted_full:
  "finite (th_tags th) \<Longrightarrow> th_max th \<le> card (th_tags th) \<Longrightarrow> tags_accepted th ts = []"
  by (induction ts) (simp_all add: tag_register_def)

lemma tags_accepted_first_uses:
  "finite (th_tags th) \<Longrightarrow> card (th_tags th) \<le> th_max th \<Longrightarrow>
   tags_accepted th ts = take (th_max th - card (th_tags th)) (first_uses (th_tags th) ts)"
proof (induction ts arbitrary: th)
  case (Cons t ts)
  consider (seen) "t \<in> th_tags th" | (full) "t \<notin> th_tags th" "th_max th \<le> card (th_tags th)"
    | (new) "t \<notin> th_tags th" "card (th_tags th) < th_max th" by linarith
  then show ?case
  proof cases
    case seen
    then show ?thesis using Cons by (simp add: tag_register_def)
  next
    case full
    then show ?thesis using Cons.prems by (simp add: tag_register_def tags_accepted_full)
  next
    case new
    let ?th = "th\<lparr>th_tags := insert t (th_tags th)\<rparr>"
    have "tags_accepted ?th ts = take (th_max th - Suc (card (th_tags th))) (first_uses (insert t (th_tags th)) ts)"
      using Cons.IH [of ?th] Cons.prems new by simp
    moreover have "th_max th - card (th_tags th) = Suc (th_max th - Suc (card (th_tags th)))" using new by simp
    ultimately show ?thesis using new by (simp add: tag_register_def)
  qed
qed simp

text \<open>
  Of all the tags a client uses in a session, the history accepts the first use of each,
  up to the limit of ten thousand, and rejects every other use.
\<close>

theorem tag_history_accepts:
  "tags_accepted tag_history_default ts = take 10000 (first_uses {} ts)"
  by (simp add: tag_history_default_def tag_history_new_def default_max_tag_history_def tags_accepted_first_uses)

lemma seq_insert_all_lookup:
  assumes "seq + length us < 2 ^ 32"
  shows "seq_insert_all seq us m i =
    (if seq < unat i \<and> unat i \<le> seq + length us then Some (us ! (unat i - seq - 1)) else m i)"
  using assms
proof (induction seq us m rule: seq_insert_all.induct)
  case (2 seq u us m)
  have s: "unat (of_nat (seq + 1) :: u32) = seq + 1"
    using "2.prems" by (simp only: unat_of_nat) simp
  have e: "i = of_nat (seq + 1) \<longleftrightarrow> unat i = seq + 1" by (simp only: word_unat_eq_iff s)
  have "seq_insert_all (seq + 1) us (m(of_nat (seq + 1) \<mapsto> u)) i =
      (if seq + 1 < unat i \<and> unat i \<le> seq + 1 + length us then Some (us ! (unat i - (seq + 1) - 1))
       else (m(of_nat (seq + 1) \<mapsto> u)) i)"
    by (rule "2.IH") (use "2.prems" in simp)
  then show ?case
    unfolding seq_insert_all.simps(2) fun_upd_apply e by (auto simp: nth_Cons')
qed auto

text \<open>
  C38: sequence numbers count from one: after the map was set up from a mailbox's UIDs, each
  number from one to their count leads to the UID in that place, and all others are an error.
\<close>

theorem sequence_map_spec:
  assumes "length uids < 2 ^ 32"
  shows "seq_get_uid i (seq_initialize uids) =
    (if 1 \<le> unat i \<and> unat i \<le> length uids then Ok (uids ! (unat i - 1))
     else Err (ProtocolError (''Invalid sequence ID: '' @ show_nat (unat i))))"
  using seq_insert_all_lookup [of 0 uids Map.empty i] assms
  by (simp add: seq_get_uid_def seq_initialize_def Suc_le_eq)

theorem sequence_map_spec_witness:
  "seq_get_uid 2 (seq_initialize [10, 20, 35]) = Ok 20 \<and> seq_get_uid 0 (seq_initialize [10, 20, 35]) = Err (ProtocolError (''Invalid sequence ID: '' @ show_nat 0))"
  using sequence_map_spec [of "[10, 20, 35]" 2] sequence_map_spec [of "[10, 20, 35]" 0] by simp

section \<open>Every line is answered\<close>

lemma handle_command_static_answers:
  assumes "ses_handlers ses = server_handlers" and "conn_writable (w_conn w)"
  shows "answered tag (w_conn w) (w_conn (fst (handle_command_static tag c (ses_handlers ses) st w)))"
  using ch_handle_answers [OF server_handlers_answer assms(2)] assms
  by (cases "static_call c") (auto simp: handle_command_static_def answered_tell)

lemma handle_starttls_answers:
  assumes "conn_writable (w_conn w)"
  shows "answered tag (w_conn w) (w_conn (fst (handle_starttls tls hsk tag lv w)))"
proof -
  define m where "m = (if conn_tls (w_conn w) then Response_Bad (Some tag) ''Already using TLS''
    else if \<not> tls then Response_Bad (Some tag) ''STARTTLS not available''
    else Response_Ok (Some tag) ''Ready for TLS handshake'')"
  have "conn_sent (w_conn (fst (handle_starttls tls hsk tag lv w))) = conn_sent (w_conn w) @ [response_display m]"
    using assms by (auto simp: handle_starttls_def m_def upgrade_to_tls_def conn_secured_def Let_def split: sum.split)
  moreover have "response_tag m = Some tag" by (simp add: m_def)
  ultimately show ?thesis unfolding answered_def by (intro exI [of _ "[]"] exI [of _ m]) simp
qed

lemma handle_line_answers:
  assumes "ses_handlers ses = server_handlers" and "conn_writable (w_conn w)" and "CHR '' '' \<notin> set tag"
  shows "answered tag (w_conn w) (w_conn (fst (handle_line ses tls hsk (tag @ CHR '' '' # cmd) lv w)))"
proof -
  obtain th r where th: "tag_register tag (lv_tags lv) = (th, r)" by force
  have cmd: "answered tag (w_conn w) (w_conn (fst (case handle_command_static tag c (ses_handlers ses) (lv_state lv) w of
        (w', Some SS_Logout) \<Rightarrow> (w', Return (Ok ()))
      | (w', Some new_state) \<Rightarrow> (w', Continue (lv\<lparr>lv_tags := th, lv_state := new_state\<rparr>))
      | (w', None) \<Rightarrow> (w', Continue (lv\<lparr>lv_tags := th\<rparr>)))))" for c
    using handle_command_static_answers [OF assms(1,2), of tag c "lv_state lv"]
    by (auto split: prod.split option.split session_state.split)
  show ?thesis
    using cmd handle_starttls_answers [OF assms(2)]
    by (auto simp: handle_line_def splitn2_found [OF assms(3)] th answered_tell assms(2) split: sum.split)
qed

lemma pop_newline_crlf: "pop_newline (l @ crlf) = l"
  by (simp add: pop_newline_def crlf_def butlast_append Let_def)

text \<open>
  C10: every line with a tag is answered by exactly one response with that tag, after any number
  of untagged ones: unknown commands, repeated tags and failures included.
\<close>

theorem every_command_is_answered:
  assumes "ses_handlers ses = server_handlers" and "conn_writable (w_conn w)"
    and "conn_input (w_conn w) = (tag @ CHR '' '' # cmd) @ crlf @ rest"
    and "CHR '' '' \<notin> set tag" and "CHR 0x0A \<notin> set tag" and "CHR 0x0A \<notin> set cmd"
    and "t_branch t = Br_Read" and "t_session_elapsed t \<le> ses_max_duration ses" and "t_idle_elapsed t \<le> ses_max_idle ses"
  shows "\<exists>us r. conn_sent (w_conn (fst (session_turn ses tls t lv w))) =
      conn_sent (w_conn w) @ map response_display us @ [response_display r] \<and>
    (\<forall>u\<in>set us. response_tag u = None) \<and> response_tag r = Some tag"
proof -
  let ?l = "tag @ CHR '' '' # cmd"
  have free: "\<forall>x\<in>set (?l @ [CHR 0x0D]). x \<noteq> CHR 0x0A" using assms(5,6) by auto
  have input: "conn_input (w_conn w) = (?l @ [CHR 0x0D]) @ CHR 0x0A # rest" using assms(3) by (simp add: crlf_def)
  have read: "read_line (w_conn w) = ((w_conn w)\<lparr>conn_input := rest\<rparr>, Ok (?l @ crlf))"
    using takeWhile_stop [OF free, of "CHR 0x0A" rest] dropWhile_stop [OF free, of "CHR 0x0A" rest]
    unfolding read_line_def input by (simp add: crlf_def)
  let ?w = "(turn_world t w)\<lparr>w_conn := (w_conn w)\<lparr>conn_input := rest\<rparr>\<rparr>"
  have "session_turn ses tls t lv w = handle_line ses tls (t_handshake t) ?l lv ?w"
    using assms(7-9) read pop_newline_crlf [of ?l]
    by (simp add: session_turn_def handle_read_def turn_world_def Let_def)
  moreover have "answered tag (w_conn ?w) (w_conn (fst (handle_line ses tls (t_handshake t) ?l lv ?w)))"
    using handle_line_answers [OF assms(1) _ assms(4), of ?w] assms(2) by simp
  ultimately show ?thesis by (simp add: answered_def)
qed

theorem every_command_is_answered_witness:
  "\<exists>us r. conn_sent (w_conn (fst (session_turn example_session False example_turn
        \<lparr>lv_state = SS_NotAuthenticated, lv_tags = tag_history_default\<rparr> (example_world (''A1 FROB'' @ crlf))))) =
      map response_display us @ [response_display r] \<and> response_tag r = Some ''A1''"
proof -
  let ?w = "example_world (''A1 FROB'' @ crlf)"
  let ?lv = "\<lparr>lv_state = SS_NotAuthenticated, lv_tags = tag_history_default\<rparr>"
  have "\<exists>us r. conn_sent (w_conn (fst (session_turn example_session False example_turn ?lv ?w))) =
      conn_sent (w_conn ?w) @ map response_display us @ [response_display r] \<and>
      (\<forall>u\<in>set us. response_tag u = None) \<and> response_tag r = Some ''A1''"
    by (rule every_command_is_answered [where cmd = "''FROB''" and rest = "[]"])
      (simp_all add: example_session_def session_new_def example_turn_def example_world_def conn_writable_def)
  moreover have "conn_sent (w_conn ?w) = []" by (simp add: example_world_def)
  ultimately show ?thesis by (simp only: append_Nil) blast
qed

end
