(* ===== verification/Server.thy ===== *)
theory Server
  imports Session
begin

text \<open>
  src/server.rs: the server object with its handlers and limits, and the accept loops. What
  the listener and the TLS library answer for each client in turn is the input of a loop; the
  sessions that it spawns are its output.
\<close>

section \<open>The server object\<close>

record server =
  sv_handlers :: command_handlers
  sv_max_session :: nat
  sv_max_idle :: nat
  sv_tls :: bool

definition default_max_session_duration :: nat where
  "default_max_session_duration = 3600"

definition default_max_idle_duration :: nat where
  "default_max_idle_duration = 1800"

definition server_new :: server where
  "server_new = \<lparr>sv_handlers = server_handlers, sv_max_session = default_max_session_duration,
     sv_max_idle = default_max_idle_duration, sv_tls = False\<rparr>"

definition with_max_session_duration :: "nat \<Rightarrow> server \<Rightarrow> server" where
  "with_max_session_duration d sv = sv\<lparr>sv_max_session := d\<rparr>"

definition with_max_idle_duration :: "nat \<Rightarrow> server \<Rightarrow> server" where
  "with_max_idle_duration d sv = sv\<lparr>sv_max_idle := d\<rparr>"

text \<open>\<open>acceptor\<close> is what the TLS library makes of the identity, \<open>identity\<close> what it makes of the PEM files.\<close>

definition with_tls_identity :: "string + unit \<Rightarrow> server \<Rightarrow> server result" where
  "with_tls_identity acceptor sv = (case acceptor of
     Inl e \<Rightarrow> Err (TlsError (''Failed to create TLS acceptor: '' @ e))
   | Inr _ \<Rightarrow> Ok (sv\<lparr>sv_tls := True\<rparr>))"

definition with_tls_pem :: "string + unit \<Rightarrow> string + unit \<Rightarrow> server \<Rightarrow> server result" where
  "with_tls_pem identity acceptor sv = (case identity of
     Inl e \<Rightarrow> Err (TlsError (''Failed to create identity from PEM: '' @ e))
   | Inr _ \<Rightarrow> with_tls_identity acceptor sv)"

definition register_handler :: "handler \<Rightarrow> server \<Rightarrow> server \<times> unit result" where
  "register_handler h sv = (case ch_register h (sv_handlers sv) of (hs, r) \<Rightarrow> (sv\<lparr>sv_handlers := hs\<rparr>, r))"

definition new_session :: "server \<Rightarrow> session" where
  "new_session sv = session_new (sv_handlers sv) (sv_max_session sv) (sv_max_idle sv)"

section \<open>The accept loops\<close>

text \<open>
  One answer of the listener: its error, or a stream, given by the outcome of
  \<open>Connection::plain\<close> on it. A loop that is still waiting has the result None.
\<close>

type_synonym spawned = "(session \<times> connection \<times> bool) list"

fun listen_on :: "server \<Rightarrow> (string + connection result) list \<Rightarrow> spawned \<times> unit result option" where
  "listen_on sv [] = ([], None)"
| "listen_on sv (Inl e # rest) = ([], Some (Err (Io e)))"
| "listen_on sv (Inr (Inl e) # rest) = listen_on sv rest"
| "listen_on sv (Inr (Inr c) # rest) =
     (case listen_on sv rest of (ss, r) \<Rightarrow> ((new_session sv, c, sv_tls sv) # ss, r))"

definition listen :: "server \<Rightarrow> string + unit \<Rightarrow> (string + connection result) list \<Rightarrow> spawned \<times> unit result option" where
  "listen sv bound clients = (case bound of Inl e \<Rightarrow> ([], Some (Err (Io e))) | Inr _ \<Rightarrow> listen_on sv clients)"

text \<open>With implicit TLS: a stream is given by the outcome of its handshake.\<close>

fun tls_accept_loop :: "server \<Rightarrow> (string + string + connection) list \<Rightarrow> spawned \<times> unit result option" where
  "tls_accept_loop sv [] = ([], None)"
| "tls_accept_loop sv (Inl e # rest) = ([], Some (Err (Io e)))"
| "tls_accept_loop sv (Inr (Inl e) # rest) = ([], Some (Err (TlsError (''TLS handshake failed: '' @ e))))"
| "tls_accept_loop sv (Inr (Inr c) # rest) =
     (case tls_accept_loop sv rest of (ss, r) \<Rightarrow> ((new_session sv, conn_secured c, True) # ss, r))"

definition tls_not_configured :: error where
  "tls_not_configured = TlsError ''TLS not configured. Call with_tls_identity() or with_tls_pem() first.''"

definition listen_on_tls :: "server \<Rightarrow> (string + string + connection) list \<Rightarrow> spawned \<times> unit result option" where
  "listen_on_tls sv clients =
     (if \<not> sv_tls sv then ([], Some (Err tls_not_configured)) else tls_accept_loop sv clients)"

definition listen_tls :: "server \<Rightarrow> string + unit \<Rightarrow> (string + string + connection) list \<Rightarrow> spawned \<times> unit result option" where
  "listen_tls sv bound clients =
     (if \<not> sv_tls sv then ([], Some (Err tls_not_configured))
      else case bound of Inl e \<Rightarrow> ([], Some (Err (Io e))) | Inr _ \<Rightarrow> tls_accept_loop sv clients)"

section \<open>Properties\<close>

lemma listen_on_spawns:
  "\<forall>a\<in>set clients. \<not> isl a \<Longrightarrow>
   listen_on sv clients = (map (\<lambda>c. (new_session sv, c, sv_tls sv)) (concat (map (case_sum (\<lambda>_. []) (case_sum (\<lambda>_. []) (\<lambda>c. [c]))) clients)), None)"
  by (induction sv clients rule: listen_on.induct) auto

lemma tls_accept_loop_spawns:
  "tls_accept_loop sv (map (Inr \<circ> Inr) good @ Inr (Inl e) # rest) =
     (map (\<lambda>c. (new_session sv, conn_secured c, True)) good, Some (Err (TlsError (''TLS handshake failed: '' @ e))))"
  by (induction good) simp_all

text \<open>
  The plain listener serves every client: a client whose connection cannot be set up is
  skipped, every other one gets a fresh session, and the loop goes on.
\<close>

theorem plain_listener_serves_all:
  assumes "\<forall>a\<in>set clients. \<not> isl a"
  shows "snd (listen_on sv clients) = None \<and>
    map (\<lambda>(s, c, b). c) (fst (listen_on sv clients)) = [c. Inr (Inr c) \<leftarrow> clients] \<and>
    (\<forall>(s, c, b)\<in>set (fst (listen_on sv clients)). s = new_session sv \<and> b = sv_tls sv)"
proof -
  have "concat (map (case_sum (\<lambda>_. []) (case_sum (\<lambda>_. []) (\<lambda>c. [c]))) clients) = [c. Inr (Inr c) \<leftarrow> clients]"
    by (induction clients) (auto split: sum.split)
  then show ?thesis by (simp add: listen_on_spawns [OF assms] comp_def)
qed

theorem plain_listener_serves_all_witness:
  "length (fst (listen_on server_new [Inr (Inl (Io ''gone'')), Inr (Inr (w_conn (example_world [])))])) = 1"
  using plain_listener_serves_all [of "[Inr (Inl (Io ''gone'')), Inr (Inr (w_conn (example_world [])))]" server_new]
  by simp

text \<open>
  C35: the listener with implicit TLS does not: the first client whose handshake fails ends the
  loop with an error, and no client after it is ever served.
\<close>

theorem failed_handshake_stops_tls_listener:
  assumes "sv_tls sv"
  shows "listen_on_tls sv (map (Inr \<circ> Inr) good @ Inr (Inl e) # rest) =
    (map (\<lambda>c. (new_session sv, conn_secured c, True)) good, Some (Err (TlsError (''TLS handshake failed: '' @ e))))"
  using assms by (simp add: listen_on_tls_def tls_accept_loop_spawns)

theorem failed_handshake_stops_tls_listener_witness:
  "listen_on_tls (server_new\<lparr>sv_tls := True\<rparr>) [Inr (Inl ''eof''), Inr (Inr (w_conn (example_world [])))] =
     ([], Some (Err (TlsError (''TLS handshake failed: '' @ ''eof''))))"
  using failed_handshake_stops_tls_listener [of "server_new\<lparr>sv_tls := True\<rparr>" "[]" "''eof''" "[Inr (Inr (w_conn (example_world [])))]"]
  by simp

text \<open>
  Registering custom handlers never replaces a built-in one: after any registrations each
  built-in command still leads to its own handler in every session of the server.
\<close>

theorem builtin_handlers_stay:
  assumes "h \<in> set builtin_handlers" and "eq_ignore_ascii_case name (h_name h)"
  shows "ch_get name (ses_handlers (new_session (fold (\<lambda>h sv. fst (register_handler h sv)) custom server_new))) = Some h"
proof -
  have "sv_handlers (fold (\<lambda>h sv. fst (register_handler h sv)) custom sv) = register_all custom (sv_handlers sv)" for sv
    by (induction custom arbitrary: sv) (simp_all add: register_all_def register_handler_def case_prod_beta)
  moreover have "distinct (map (to_uppercase \<circ> h_name) builtin_handlers)" by code_simp
  then have "find (\<lambda>g. to_uppercase (h_name g) = to_uppercase (h_name h)) builtin_handlers = Some h"
    using assms(1) by (auto simp: find_Some_iff distinct_conv_nth in_set_conv_nth)
  ultimately show ?thesis using assms(2)
    by (simp add: new_session_def session_new_def server_new_def server_handlers_def ch_get_def register_all_lookup
        ch_new_def eq_ignore_ascii_case_def)
qed

theorem builtin_handlers_stay_witness:
  "ch_get ''noop'' (ses_handlers (new_session (fold (\<lambda>h sv. fst (register_handler h sv)) [list_handler\<lparr>h_name := ''Noop''\<rparr>] server_new))) =
     Some noop_handler"
proof (rule builtin_handlers_stay)
  show "eq_ignore_ascii_case ''noop'' (h_name noop_handler)" unfolding noop_handler_def by code_simp
qed (simp add: builtin_handlers_def)

end
