(* ===== verification/File_System.thy ===== *)
theory File_System
  imports Core_Types
begin

text \<open>
  The file system as the source uses it through \<open>std::path\<close> and \<open>tokio::fs\<close>: paths, a tree
  of directories and files, and the calls on it. Any call can also fail for a reason outside
  the model (a full disk, a permission); the state says for the k-th call whether it does.
  Symbolic links are not modelled.
\<close>

section \<open>Paths\<close>

text \<open>
  A path is the list of its normal components from the file system's root on; \<open>..\<close> is kept
  as a component, as \<open>PathBuf\<close> does, and resolved by the calls.
\<close>

type_synonym path = "string list"

fun split_on :: "char \<Rightarrow> string \<Rightarrow> string list" where
  "split_on d [] = [[]]"
| "split_on d (c # s) = (if c = d then [] # split_on d s else (c # hd (split_on d s)) # tl (split_on d s))"

definition path_components :: "string \<Rightarrow> path" where
  "path_components s = filter (\<lambda>c. c \<noteq> [] \<and> c \<noteq> ''.'') (split_on CHR ''/'' s)"

definition path_join :: "path \<Rightarrow> string \<Rightarrow> path" where
  "path_join p s = (if starts_with s ''/'' then path_components s else p @ path_components s)"

definition path_parent :: "path \<Rightarrow> path option" where
  "path_parent p = (if p = [] then None else Some (butlast p))"

definition path_file_name :: "path \<Rightarrow> string option" where
  "path_file_name p = (if p = [] \<or> last p = ''..'' then None else Some (last p))"

definition path_strip_prefix :: "path \<Rightarrow> path \<Rightarrow> path option" where
  "path_strip_prefix root p = (if prefix root p then Some (drop (length root) p) else None)"

fun resolve_onto :: "path \<Rightarrow> path \<Rightarrow> path" where
  "resolve_onto acc [] = acc"
| "resolve_onto acc (c # p) = resolve_onto (if c = ''..'' then butlast acc else acc @ [c]) p"

definition resolve :: "path \<Rightarrow> path" where
  "resolve p = resolve_onto [] p"

lemma resolve_onto_plain: "''..'' \<notin> set p \<Longrightarrow> resolve_onto acc p = acc @ p"
  by (induction p arbitrary: acc) auto

lemma resolve_plain [simp]: "''..'' \<notin> set p \<Longrightarrow> resolve p = p"
  by (simp add: resolve_def resolve_onto_plain)

lemma split_on_nonempty [simp]: "split_on d s \<noteq> []"
  by (induction s) auto

lemma split_on_plain: "d \<notin> set s \<Longrightarrow> split_on d s = [s]"
  by (induction s) auto

lemma split_on_append: "d \<notin> set s \<Longrightarrow> split_on d (s @ d # t) = s # split_on d t"
  by (induction s) auto

text \<open>A component that a name without separators spells.\<close>

definition plain_name :: "string \<Rightarrow> bool" where
  "plain_name s \<longleftrightarrow> s \<noteq> [] \<and> s \<noteq> ''.'' \<and> s \<noteq> ''..'' \<and> CHR ''/'' \<notin> set s"

lemma path_components_join: "\<forall>s\<in>set p. plain_name s \<Longrightarrow> path_components (join_with ''/'' p) = p"
proof (induction "''/''" p rule: join_with.induct)
  case (2 x)
  then show ?case by (simp add: path_components_def plain_name_def split_on_plain)
next
  case (3 x y ys)
  then show ?case by (simp add: path_components_def plain_name_def split_on_append)
qed (simp add: path_components_def)

lemma join_relative: "\<forall>s\<in>set p. plain_name s \<Longrightarrow> \<not> starts_with (join_with ''/'' p) ''/''"
proof (cases p)
  case (Cons x ys)
  assume "\<forall>s\<in>set p. plain_name s"
  then have x: "x \<noteq> []" "hd x \<noteq> CHR ''/''" using Cons by (cases x; auto simp: plain_name_def)+
  obtain t where "join_with ''/'' p = x @ t" using Cons by (cases ys) auto
  then show ?thesis using x by (cases x) (auto simp: starts_with_def)
qed (simp add: starts_with_def)

lemma path_join_names: "\<forall>s\<in>set p. plain_name s \<Longrightarrow> path_join root (join_with ''/'' p) = root @ p"
  by (simp add: path_join_def join_relative path_components_join)

lemma path_join_name: "plain_name s \<Longrightarrow> path_join root s = root @ [s]"
  using path_join_names [of "[s]" root] by simp

section \<open>The tree\<close>

datatype node = Dir | File bytes

type_synonym tree = "path \<rightharpoonup> node"

record fs =
  fs_tree :: tree
  fs_fault :: "nat \<Rightarrow> string option"
  fs_calls :: nat

text \<open>Every entry but the root lies in a directory.\<close>

definition tree_wf :: "tree \<Rightarrow> bool" where
  "tree_wf n \<longleftrightarrow> n [] = Some Dir \<and> (\<forall>p. n p \<noteq> None \<and> p \<noteq> [] \<longrightarrow> n (butlast p) = Some Dir)"

definition tree_create_dir_all :: "path \<Rightarrow> tree \<Rightarrow> tree \<times> (string + unit)" where
  "tree_create_dir_all p n =
     (if \<exists>q\<in>set (prefixes p). n q \<noteq> None \<and> n q \<noteq> Some Dir then (n, Inl ''Not a directory'')
      else (\<lambda>q. if prefix q p then Some Dir else n q, Inr ()))"

text \<open>\<open>File::create\<close>: an empty file, a file that is there is cut to nothing.\<close>

definition tree_create_file :: "path \<Rightarrow> tree \<Rightarrow> tree \<times> (string + unit)" where
  "tree_create_file p n =
     (if p = [] \<or> n p = Some Dir then (n, Inl ''Is a directory'')
      else if n (butlast p) \<noteq> Some Dir then (n, Inl ''No such file or directory'')
      else (n(p \<mapsto> File []), Inr ()))"

text \<open>
  \<open>write_all\<close> on a file opened at its start: the bytes replace those of the file as far as
  they reach. A file that is removed while it is open takes the bytes with it.
\<close>

definition tree_overwrite :: "path \<Rightarrow> bytes \<Rightarrow> tree \<Rightarrow> tree \<times> (string + unit)" where
  "tree_overwrite p c n = (case n p of
     Some (File old) \<Rightarrow> (n(p \<mapsto> File (c @ drop (length c) old)), Inr ())
   | _ \<Rightarrow> (n, Inr ()))"

definition tree_remove_file :: "path \<Rightarrow> tree \<Rightarrow> tree \<times> (string + unit)" where
  "tree_remove_file p n = (case n p of
     Some (File c) \<Rightarrow> (n(p := None), Inr ())
   | Some Dir \<Rightarrow> (n, Inl ''Is a directory'')
   | None \<Rightarrow> (n, Inl ''No such file or directory''))"

definition tree_read_file :: "path \<Rightarrow> tree \<Rightarrow> tree \<times> (string + bytes)" where
  "tree_read_file p n = (n, case n p of
     Some (File c) \<Rightarrow> Inr c | Some Dir \<Rightarrow> Inl ''Is a directory'' | None \<Rightarrow> Inl ''No such file or directory'')"

text \<open>\<open>rename\<close> replaces a file, or an empty directory by a directory with all below it.\<close>

definition tree_rename :: "path \<Rightarrow> path \<Rightarrow> tree \<Rightarrow> tree \<times> (string + unit)" where
  "tree_rename p q n =
     (if n p = None \<or> q = [] \<or> n (butlast q) \<noteq> Some Dir then (n, Inl ''No such file or directory'')
      else case the (n p) of
          File c \<Rightarrow> if n q = Some Dir then (n, Inl ''Is a directory'') else ((n(p := None))(q \<mapsto> File c), Inr ())
        | Dir \<Rightarrow>
            if p = q then (n, Inr ())
            else if prefix p q \<or> (n q \<noteq> None \<and> n q \<noteq> Some Dir) \<or> (\<exists>r. strict_prefix q r \<and> n r \<noteq> None)
            then (n, Inl ''Directory not empty'')
            else (\<lambda>r. if prefix q r then n (p @ drop (length q) r) else if prefix p r then None else n r, Inr ()))"

section \<open>Calls\<close>

definition fs_call :: "(tree \<Rightarrow> tree \<times> (string + 'a)) \<Rightarrow> fs \<Rightarrow> fs \<times> (string + 'a)" where
  "fs_call f s = (case fs_fault s (fs_calls s) of
     Some e \<Rightarrow> (s\<lparr>fs_calls := fs_calls s + 1\<rparr>, Inl e)
   | None \<Rightarrow> (case f (fs_tree s) of (n, r) \<Rightarrow> (s\<lparr>fs_tree := n, fs_calls := fs_calls s + 1\<rparr>, r)))"

definition fs_create_dir_all :: "path \<Rightarrow> fs \<Rightarrow> fs \<times> (string + unit)" where
  "fs_create_dir_all p = fs_call (tree_create_dir_all (resolve p))"

definition fs_create_file :: "path \<Rightarrow> fs \<Rightarrow> fs \<times> (string + unit)" where
  "fs_create_file p = fs_call (tree_create_file (resolve p))"

definition fs_write_all :: "path \<Rightarrow> bytes \<Rightarrow> fs \<Rightarrow> fs \<times> (string + unit)" where
  "fs_write_all p c = fs_call (tree_overwrite (resolve p) c)"

definition fs_sync_all :: "path \<Rightarrow> fs \<Rightarrow> fs \<times> (string + unit)" where
  "fs_sync_all p = fs_call (\<lambda>n. (n, Inr ()))"

definition fs_open :: "path \<Rightarrow> fs \<Rightarrow> fs \<times> (string + unit)" where
  "fs_open p = fs_call (\<lambda>n. (n, if n (resolve p) = None then Inl ''No such file or directory'' else Inr ()))"

definition fs_remove_file :: "path \<Rightarrow> fs \<Rightarrow> fs \<times> (string + unit)" where
  "fs_remove_file p = fs_call (tree_remove_file (resolve p))"

definition fs_read_file :: "path \<Rightarrow> fs \<Rightarrow> fs \<times> (string + bytes)" where
  "fs_read_file p = fs_call (tree_read_file (resolve p))"

definition fs_rename :: "path \<Rightarrow> path \<Rightarrow> fs \<Rightarrow> fs \<times> (string + unit)" where
  "fs_rename p q = fs_call (tree_rename (resolve p) (resolve q))"

text \<open>\<open>if let Some(parent) = path.parent() { create_dir_all(parent)? }\<close>.\<close>

definition create_parent :: "path \<Rightarrow> fs \<Rightarrow> fs \<times> (string + unit)" where
  "create_parent full s = (case path_parent full of Some parent \<Rightarrow> fs_create_dir_all parent s | None \<Rightarrow> (s, Inr ()))"

text \<open>\<open>try_exists(..).unwrap_or(false)\<close>.\<close>

definition fs_exists :: "path \<Rightarrow> fs \<Rightarrow> fs \<times> bool" where
  "fs_exists p s = (case fs_call (\<lambda>n. (n, Inr (n (resolve p) \<noteq> None))) s of
     (s', Inr b) \<Rightarrow> (s', b) | (s', Inl e) \<Rightarrow> (s', False))"

text \<open>The question mark on an \<open>io::Error\<close>.\<close>

definition fs_bind :: "(fs \<Rightarrow> fs \<times> (string + 'a)) \<Rightarrow> ('a \<Rightarrow> fs \<Rightarrow> fs \<times> 'b result) \<Rightarrow> fs \<Rightarrow> fs \<times> 'b result" where
  "fs_bind f k s = (case f s of (s', Inl e) \<Rightarrow> (s', Err (Io e)) | (s', Inr x) \<Rightarrow> k x s')"

text \<open>A file system on which only the calls' own errors occur.\<close>

definition faultless :: "fs \<Rightarrow> bool" where
  "faultless s \<longleftrightarrow> (\<forall>k. fs_fault s k = None)"

lemma fs_call_faultless:
  "faultless s \<Longrightarrow> fs_call f s = (s\<lparr>fs_tree := fst (f (fs_tree s)), fs_calls := fs_calls s + 1\<rparr>, snd (f (fs_tree s)))"
  by (simp add: fs_call_def faultless_def split: prod.split)

lemma faultless_update [simp]: "faultless (s\<lparr>fs_tree := n\<rparr>) = faultless s" "faultless (s\<lparr>fs_calls := k\<rparr>) = faultless s"
  by (simp_all add: faultless_def)

lemma fs_call_fault [simp]: "faultless (fst (fs_call f s)) = faultless s"
  by (simp add: fs_call_def faultless_def split: option.split prod.split)

lemma fs_exists_faultless:
  "faultless s \<Longrightarrow> fs_exists p s = (s\<lparr>fs_calls := fs_calls s + 1\<rparr>, fs_tree s (resolve p) \<noteq> None)"
  by (simp add: fs_exists_def fs_call_faultless)

section \<open>What the calls keep\<close>

lemma tree_wf_root: "tree_wf n \<Longrightarrow> n [] = Some Dir"
  by (simp add: tree_wf_def)

lemma tree_wf_prefix:
  assumes "tree_wf n" and "n (p @ q) \<noteq> None" and "q \<noteq> []"
  shows "n p = Some Dir"
  using assms(2,3)
proof (induction q rule: rev_induct)
  case (snoc c q)
  have d: "n (p @ q) = Some Dir"
    using assms(1) snoc.prems(1) unfolding tree_wf_def by (metis append_assoc append_is_Nil_conv butlast_snoc list.distinct(1))
  then show ?case using snoc.IH by (cases "q = []") auto
qed simp

lemma create_dir_all_wf: "tree_wf n \<Longrightarrow> tree_wf (fst (tree_create_dir_all p n))"
  unfolding tree_create_dir_all_def
proof (simp, intro impI)
  assume wf: "tree_wf n"
  show "tree_wf (\<lambda>q. if prefix q p then Some Dir else n q)"
    unfolding tree_wf_def
  proof (intro conjI allI impI)
    fix q
    assume q: "(if prefix q p then Some Dir else n q) \<noteq> None \<and> q \<noteq> []"
    show "(if prefix (butlast q) p then Some Dir else n (butlast q)) = Some Dir"
    proof (cases "prefix q p")
      case True
      then have "prefix (butlast q) p" using prefix_order.trans prefixeq_butlast by blast
      then show ?thesis by simp
    next
      case False
      then show ?thesis using q wf by (simp add: tree_wf_def)
    qed
  qed simp
qed

lemma create_file_wf: "tree_wf n \<Longrightarrow> tree_wf (fst (tree_create_file p n))"
  unfolding tree_create_file_def tree_wf_def by auto

lemma overwrite_wf: "tree_wf n \<Longrightarrow> tree_wf (fst (tree_overwrite p c n))"
  unfolding tree_overwrite_def tree_wf_def by (auto split: option.split node.split)

end
