(* ===== verification/Maildir.thy ===== *)
theory Maildir
  imports File_System
begin

text \<open>
  src/mailstore/format.rs and src/mailstore/watcher/maildir.rs: a mailbox format as an object
  of functions, and the Maildir format, which keeps a message's flags in its file name and
  whether it is new in the directory it lies in.
\<close>

section \<open>Formats\<close>

record parsed_message =
  pm_unique_id :: string
  pm_flags :: "message_flag list"
  pm_is_new :: bool
  pm_username :: string
  pm_mailbox :: string

record mailbox_format =
  mf_parse_message_path :: "path \<Rightarrow> path \<Rightarrow> parsed_message option"
  mf_watch_subdirectories :: "string list"
  mf_flags_to_filename_component :: "message_flag list \<Rightarrow> string"
  mf_is_valid_message_file :: "tree \<Rightarrow> path \<Rightarrow> bool"

section \<open>Maildir\<close>

fun parse_flag :: "char \<Rightarrow> message_flag option" where
  "parse_flag ch =
     (if ch = CHR ''D'' then Some Draft
      else if ch = CHR ''F'' then Some Flagged
      else if ch = CHR ''R'' then Some Answered
      else if ch = CHR ''S'' then Some Seen
      else if ch = CHR ''T'' then Some Deleted
      else None)"

definition parse_flags :: "string \<Rightarrow> message_flag list" where
  "parse_flags s = List.map_filter parse_flag s"

definition parse_filename :: "string \<Rightarrow> string \<times> message_flag list" where
  "parse_filename filename =
     (case find_split '':'' filename of
        Some (i, rest) \<Rightarrow> if starts_with rest '':2,'' then (i, parse_flags (drop 3 rest)) else (i, [])
      | None \<Rightarrow> (filename, []))"

definition parse_message_path :: "path \<Rightarrow> path \<Rightarrow> parsed_message option" where
  "parse_message_path p root =
     (case path_strip_prefix root p of
        None \<Rightarrow> None
      | Some components \<Rightarrow>
          if length components < 4 then None
          else let username = components ! 0; mailbox = components ! 1; subdir = components ! 2 in
            case (if subdir = ''new'' then Some True else if subdir = ''cur'' then Some False else None) of
              None \<Rightarrow> None
            | Some is_new \<Rightarrow>
                (case path_file_name p of
                   None \<Rightarrow> None
                 | Some filename \<Rightarrow>
                     (case parse_filename filename of (unique_id, flags) \<Rightarrow>
                        Some \<lparr>pm_unique_id = unique_id, pm_flags = flags, pm_is_new = is_new,
                          pm_username = username, pm_mailbox = mailbox\<rparr>)))"

definition watch_subdirectories :: "string list" where
  "watch_subdirectories = [''new'', ''cur'']"

fun flag_char :: "message_flag \<Rightarrow> char option" where
  "flag_char Draft = Some CHR ''D''"
| "flag_char Flagged = Some CHR ''F''"
| "flag_char Answered = Some CHR ''R''"
| "flag_char Seen = Some CHR ''S''"
| "flag_char Deleted = Some CHR ''T''"
| "flag_char Recent = None"
| "flag_char (Custom s) = None"

definition flags_to_filename_component :: "message_flag list \<Rightarrow> string" where
  "flags_to_filename_component flags =
     (let chars = sort (List.map_filter flag_char flags) in if chars = [] then [] else '':2,'' @ chars)"

definition is_valid_message_file :: "tree \<Rightarrow> path \<Rightarrow> bool" where
  "is_valid_message_file n p =
     (case n p of
        Some (File c) \<Rightarrow>
          (case path_parent p of
             Some parent \<Rightarrow>
               (case path_file_name parent of Some d \<Rightarrow> d = ''new'' \<or> d = ''cur'' | None \<Rightarrow> False)
           | None \<Rightarrow> False)
      | _ \<Rightarrow> False)"

definition maildir_format :: mailbox_format where
  "maildir_format = \<lparr>mf_parse_message_path = parse_message_path, mf_watch_subdirectories = watch_subdirectories,
     mf_flags_to_filename_component = flags_to_filename_component, mf_is_valid_message_file = is_valid_message_file\<rparr>"

lemma maildir_format_sel [simp]:
  "mf_parse_message_path maildir_format = parse_message_path"
  "mf_watch_subdirectories maildir_format = watch_subdirectories"
  "mf_flags_to_filename_component maildir_format = flags_to_filename_component"
  "mf_is_valid_message_file maildir_format = is_valid_message_file"
  by (simp_all add: maildir_format_def)

section \<open>Flags in file names\<close>

lemma parse_flag_char: "flag_char f = Some c \<Longrightarrow> parse_flag c = Some f"
  by (cases f) auto

lemma flag_char_parse: "parse_flag c = Some f \<Longrightarrow> flag_char f = Some c"
  by (auto split: if_splits)

lemma flag_char_plain: "flag_char f = Some c \<Longrightarrow> c \<noteq> CHR '':'' \<and> c \<noteq> CHR ''/''"
  by (cases f) auto

definition storable :: "message_flag \<Rightarrow> bool" where
  "storable f \<longleftrightarrow> flag_char f \<noteq> None"

lemma storable_simps [simp]:
  "storable Seen" "storable Answered" "storable Flagged" "storable Deleted" "storable Draft"
  "\<not> storable Recent" "\<not> storable (Custom s)"
  by (simp_all add: storable_def)

lemma storable_iff: "storable f \<longleftrightarrow> f \<noteq> Recent \<and> f \<notin> range Custom"
  by (cases f) auto

lemma map_filter_chars [simp]: "set (List.map_filter flag_char fs) = {c. \<exists>f\<in>set fs. flag_char f = Some c}"
  by (auto simp: List.map_filter_def) force

lemma parse_flags_chars:
  "\<forall>c\<in>set cs. parse_flag c \<noteq> None \<Longrightarrow> List.map_filter flag_char (parse_flags cs) = cs"
proof (induction cs)
  case (Cons c cs)
  then obtain f where f: "parse_flag c = Some f" by auto
  show ?case using Cons flag_char_parse [OF f] f by (simp add: parse_flags_def List.map_filter_def del: parse_flag.simps)
qed (simp add: parse_flags_def List.map_filter_def)

definition flag_chars :: "message_flag list \<Rightarrow> string" where
  "flag_chars fs = sort (List.map_filter flag_char fs)"

lemma flag_chars_sorted [simp]: "sort (flag_chars fs) = flag_chars fs"
  by (rule sorted_sort_id) (simp add: flag_chars_def)

lemma flag_chars_parse: "c \<in> set (flag_chars fs) \<Longrightarrow> parse_flag c \<noteq> None \<and> c \<noteq> CHR '':'' \<and> c \<noteq> CHR ''/''"
  using parse_flag_char flag_char_plain by (fastforce simp: flag_chars_def simp del: parse_flag.simps)

lemma flags_component: "flags_to_filename_component fs = (if flag_chars fs = [] then [] else '':2,'' @ flag_chars fs)"
  by (simp add: flags_to_filename_component_def flag_chars_def Let_def)

lemma no_flags_component [simp]: "flags_to_filename_component [] = []"
  by (simp add: flags_to_filename_component_def List.map_filter_def)

lemma parse_flags_set: "set (parse_flags (flag_chars fs)) = {f \<in> set fs. storable f}"
proof -
  have "f \<in> set (parse_flags (flag_chars fs)) \<longleftrightarrow> f \<in> set fs \<and> storable f" for f
  proof
    assume "f \<in> set (parse_flags (flag_chars fs))"
    then obtain c where c: "c \<in> set (flag_chars fs)" "parse_flag c = Some f"
      by (auto simp: parse_flags_def List.map_filter_def simp del: parse_flag.simps)
    then obtain g where g: "g \<in> set fs" "flag_char g = Some c" by (auto simp: flag_chars_def)
    then show "f \<in> set fs \<and> storable f" using parse_flag_char [OF g(2)] c(2) by (auto simp: storable_def)
  next
    assume f: "f \<in> set fs \<and> storable f"
    then obtain c where c: "flag_char f = Some c" by (auto simp: storable_def)
    then have "c \<in> set (flag_chars fs)" using f by (auto simp: flag_chars_def)
    then show "f \<in> set (parse_flags (flag_chars fs))" using parse_flag_char [OF c]
      by (force simp: parse_flags_def List.map_filter_def simp del: parse_flag.simps)
  qed
  then show ?thesis by blast
qed

lemma parse_filename_written:
  assumes "CHR '':'' \<notin> set i"
  shows "parse_filename (i @ flags_to_filename_component fs) = (i, parse_flags (flag_chars fs))"
proof (cases "flag_chars fs = []")
  case True
  then show ?thesis using find_split_absent [of "'':''" i] assms
    by (simp add: parse_filename_def flags_component parse_flags_def List.map_filter_def)
next
  case False
  then show ?thesis using find_split_found [of "'':''" i "'':2,'' @ flag_chars fs"] assms
    by (simp add: parse_filename_def flags_component starts_with_def)
qed

text \<open>The flags that a file name keeps, in the order in which it keeps them.\<close>

definition kept_flags :: "message_flag list \<Rightarrow> message_flag list" where
  "kept_flags fs = parse_flags (flag_chars fs)"

lemma kept_flags_set: "set (kept_flags fs) = {f \<in> set fs. storable f}"
  by (simp add: kept_flags_def parse_flags_set)

lemma kept_flags_chars: "flag_chars (kept_flags fs) = flag_chars fs"
  using parse_flags_chars [of "flag_chars fs"] flag_chars_parse
  by (simp add: kept_flags_def flag_chars_def [of "parse_flags (flag_chars fs)"] flag_chars_sorted del: parse_flag.simps)

lemma kept_flags_idem [simp]: "kept_flags (kept_flags fs) = kept_flags fs"
  by (simp add: kept_flags_def kept_flags_chars [unfolded kept_flags_def])

lemma component_kept: "flags_to_filename_component (kept_flags fs) = flags_to_filename_component fs"
  by (simp add: flags_component kept_flags_chars)

lemma component_plain: "CHR ''/'' \<notin> set (flags_to_filename_component fs)"
  using flag_chars_parse [of _ fs] by (auto simp: flags_component)

section \<open>The contract of a format\<close>

text \<open>
  What the storage and the watcher rely on: a file named after an identifier and flags, in a
  directory to watch, is read back with that identifier and the flags that the format keeps,
  and writing the flags that were read changes nothing.
\<close>

locale format_contract =
  fixes fmt :: mailbox_format and id_ok :: "string \<Rightarrow> bool" and kept :: "message_flag list \<Rightarrow> message_flag list"
    and fresh_dir :: "string \<Rightarrow> bool"
  assumes parse_written: "id_ok i \<Longrightarrow> d \<in> set (mf_watch_subdirectories fmt) \<Longrightarrow>
      mf_parse_message_path fmt (root @ [u, m, d, i @ mf_flags_to_filename_component fmt fs]) root =
        Some \<lparr>pm_unique_id = i, pm_flags = kept fs, pm_is_new = fresh_dir d, pm_username = u, pm_mailbox = m\<rparr>"
    and kept_kept: "mf_flags_to_filename_component fmt (kept fs) = mf_flags_to_filename_component fmt fs"
    and subdirectories_plain: "d \<in> set (mf_watch_subdirectories fmt) \<Longrightarrow> plain_name d"
begin

text \<open>A name that was written is determined by what is read from it.\<close>

lemma written_names_differ:
  assumes "id_ok i" and "id_ok j" and "d \<in> set (mf_watch_subdirectories fmt)" and "e \<in> set (mf_watch_subdirectories fmt)"
    and "mf_parse_message_path fmt (root @ [u, m, d, i @ mf_flags_to_filename_component fmt fs]) root =
      mf_parse_message_path fmt (root @ [v, l, e, j @ mf_flags_to_filename_component fmt gs]) root"
  shows "i @ mf_flags_to_filename_component fmt fs = j @ mf_flags_to_filename_component fmt gs \<and> u = v \<and> m = l"
  using assms(5) parse_written [OF assms(1,3)] parse_written [OF assms(2,4)] kept_kept [of fs] kept_kept [of gs]
  by auto

end

text \<open>A message identifier that a Maildir file name can carry.\<close>

definition maildir_id :: "string \<Rightarrow> bool" where
  "maildir_id i \<longleftrightarrow> plain_name i \<and> CHR '':'' \<notin> set i"

lemma maildir_filename_plain: "maildir_id i \<Longrightarrow> plain_name (i @ flags_to_filename_component fs)"
  using component_plain [of fs] flag_chars_parse [of _ fs]
  by (cases "flag_chars fs") (auto simp: maildir_id_def plain_name_def flags_component)

lemma parse_message_path_at:
  assumes "maildir_id i"
  shows "parse_message_path (root @ [u, m, d, i @ flags_to_filename_component fs]) root =
    (if d = ''new'' \<or> d = ''cur''
     then Some \<lparr>pm_unique_id = i, pm_flags = kept_flags fs, pm_is_new = (d = ''new''), pm_username = u, pm_mailbox = m\<rparr>
     else None)"
proof -
  have f: "path_file_name (root @ [u, m, d, i @ flags_to_filename_component fs]) = Some (i @ flags_to_filename_component fs)"
    using maildir_filename_plain [OF assms, of fs] by (simp add: path_file_name_def plain_name_def)
  have p: "parse_filename (i @ flags_to_filename_component fs) = (i, kept_flags fs)"
    using parse_filename_written [of i fs] assms by (simp add: maildir_id_def kept_flags_def)
  show ?thesis unfolding parse_message_path_def f by (simp add: path_strip_prefix_def p)
qed

interpretation maildir: format_contract maildir_format maildir_id kept_flags "\<lambda>d. d = ''new''"
  by unfold_locales (auto simp: parse_message_path_at component_kept watch_subdirectories_def plain_name_def)

section \<open>Properties\<close>

text \<open>
  C19: the Maildir names round-trip: a message file named after an identifier without separators
  and any flags is parsed as that identifier, with exactly the flags that Maildir can store,
  and it would be named the same again for the flags that were parsed.
\<close>

theorem maildir_name_roundtrip:
  assumes "maildir_id i" and "d \<in> set watch_subdirectories"
  shows "\<exists>fs'. parse_message_path (root @ [u, m, d, i @ flags_to_filename_component fs]) root =
      Some \<lparr>pm_unique_id = i, pm_flags = fs', pm_is_new = (d = ''new''), pm_username = u, pm_mailbox = m\<rparr> \<and>
    set fs' = set fs - {Recent} - range Custom \<and>
    flags_to_filename_component fs' = flags_to_filename_component fs"
proof -
  have "set (kept_flags fs) = set fs - {Recent} - range Custom"
    unfolding kept_flags_set storable_iff by blast
  then show ?thesis using maildir.parse_written [OF assms(1), of d root u m fs] assms(2) component_kept [of fs]
    by (intro exI [of _ "kept_flags fs"]) simp
qed

theorem maildir_name_roundtrip_witness:
  "\<exists>fs'. parse_message_path ([''srv''] @ [''amy'', ''INBOX'', ''cur'', ''17'' @ flags_to_filename_component [Seen, Recent, Draft]]) [''srv''] =
      Some \<lparr>pm_unique_id = ''17'', pm_flags = fs', pm_is_new = (''cur'' = ''new''), pm_username = ''amy'', pm_mailbox = ''INBOX''\<rparr> \<and>
    set fs' = set [Seen, Recent, Draft] - {Recent} - range Custom \<and>
    flags_to_filename_component fs' = flags_to_filename_component [Seen, Recent, Draft]"
  by (rule maildir_name_roundtrip) (simp_all add: maildir_id_def plain_name_def watch_subdirectories_def)

text \<open>
  A file of a mailbox whose name has two or more levels is never recognised as a message of
  it: the mailbox is read as the first level, and the directory in third place has to be
  \<open>new\<close> or \<open>cur\<close>.
\<close>

theorem nested_mailbox_unrecognised:
  assumes "a \<noteq> ''new''" and "a \<noteq> ''cur''"
  shows "parse_message_path (root @ [u, m, a] @ rest) root = None"
  using assms by (cases rest) (simp_all add: parse_message_path_def path_strip_prefix_def Let_def)

theorem nested_mailbox_unrecognised_witness:
  "parse_message_path ([''srv''] @ [''amy'', ''Work'', ''2024''] @ [''new'', ''17'']) [''srv''] = None"
  by (rule nested_mailbox_unrecognised) simp_all

end
