(* ===== verification/Mail_Layout.thy ===== *)
theory Mail_Layout
  imports Maildir
begin

text \<open>
  The shape of the tree below the root of a mail store, user / mailbox / directory / file, and
  what the file system calls of the two stores do to the files in it. The stores reach a
  message by a relative path of four components.
\<close>

section \<open>The layout\<close>

definition mail_layout :: "path \<Rightarrow> tree \<Rightarrow> bool" where
  "mail_layout root n \<longleftrightarrow> tree_wf n \<and> n root = Some Dir \<and> ''..'' \<notin> set root \<and>
     (\<forall>q. n (root @ q) = Some Dir \<longrightarrow> length q < 4) \<and>
     (\<forall>q c. n (root @ q) = Some (File c) \<longrightarrow> length q = 4)"

definition message_key :: "path \<Rightarrow> bool" where
  "message_key k \<longleftrightarrow> length k = 4 \<and> ''..'' \<notin> set k"

definition message_path :: "string \<Rightarrow> bool" where
  "message_path p \<longleftrightarrow> \<not> starts_with p ''/'' \<and> message_key (path_components p)"

text \<open>The abstraction: the contents of the message files by their components below the root.\<close>

definition stored :: "path \<Rightarrow> tree \<Rightarrow> path \<rightharpoonup> bytes" where
  "stored root n k = (case n (root @ k) of Some (File c) \<Rightarrow> Some c | _ \<Rightarrow> None)"

definition store_ready :: "path \<Rightarrow> fs \<Rightarrow> bool" where
  "store_ready root s \<longleftrightarrow> faultless s \<and> mail_layout root (fs_tree s)"

lemma message_pathD: "message_path p \<Longrightarrow> message_key (path_components p)"
  by (simp add: message_path_def)

lemma message_path_join: "message_path p \<Longrightarrow> path_join root p = root @ path_components p"
  by (simp add: message_path_def path_join_def)

lemma layout_resolve: "mail_layout root n \<Longrightarrow> message_key k \<Longrightarrow> resolve (root @ k) = root @ k"
  by (simp add: mail_layout_def message_key_def)

lemma message_key_split:
  assumes "message_key k"
  obtains u m d f where "k = [u, m, d, f]"
  using assms by (auto simp: message_key_def eval_nat_numeral length_Suc_conv)

lemma layout_entry:
  "mail_layout root n \<Longrightarrow> message_key k \<Longrightarrow>
   n (root @ k) = (case stored root n k of Some c \<Rightarrow> Some (File c) | None \<Rightarrow> None)"
  by (fastforce simp: mail_layout_def message_key_def stored_def split: option.splits node.splits)

lemma layout_up:
  assumes "mail_layout root n" and "prefix q root"
  shows "n q = Some Dir"
proof -
  obtain r where r: "root = q @ r" using assms(2) by (auto elim: prefixE)
  have n: "tree_wf n" "n (q @ r) = Some Dir" using assms(1) by (simp_all add: mail_layout_def r)
  show ?thesis
  proof (cases "r = []")
    case False
    then show ?thesis using tree_wf_prefix [OF n(1) _ False] n(2) by simp
  qed (use n(2) in simp)
qed

lemma layout_above:
  assumes "mail_layout root n" and "message_key k" and "prefix q (root @ butlast k)" and "n q \<noteq> None"
  shows "n q = Some Dir"
proof (cases "prefix root q")
  case True
  then obtain r where r: "q = root @ r" by (auto elim: prefixE)
  have "length r < 4" using assms(2) prefix_length_le [OF assms(3)] by (simp add: r message_key_def)
  obtain x where x: "n q = Some x" using assms(4) by auto
  then show ?thesis
  proof (cases x)
    case (File c)
    then have "length r = 4" using assms(1) x by (simp add: r mail_layout_def)
    then show ?thesis using \<open>length r < 4\<close> by simp
  qed simp
next
  case False
  then have "prefix q root" using prefix_same_cases [OF assms(3), of root] by auto
  then show ?thesis by (rule layout_up [OF assms(1)])
qed

section \<open>The calls on a message file\<close>

definition with_dirs :: "path \<Rightarrow> tree \<Rightarrow> tree" where
  "with_dirs p n = (\<lambda>q. if prefix q p then Some Dir else n q)"

lemma layout_create_dirs:
  assumes "mail_layout root n" and "message_key k"
  shows "tree_create_dir_all (root @ butlast k) n = (with_dirs (root @ butlast k) n, Inr ())"
proof -
  have "\<not> (\<exists>q\<in>set (prefixes (root @ butlast k)). n q \<noteq> None \<and> n q \<noteq> Some Dir)"
    using layout_above [OF assms] by (metis in_set_prefixes)
  then show ?thesis unfolding tree_create_dir_all_def with_dirs_def by (simp only: if_False)
qed

lemma with_dirs_wf: "tree_wf n \<Longrightarrow> tree_wf (with_dirs p n)"
  unfolding with_dirs_def tree_wf_def
  by (auto intro: prefix_order.trans [OF prefixeq_butlast])

lemma with_dirs_layout:
  assumes "mail_layout root n" and "message_key k"
  shows "mail_layout root (with_dirs (root @ butlast k) n)"
  unfolding mail_layout_def
proof (intro conjI allI impI)
  have l: "length r < 4" if "prefix (root @ r) (root @ butlast k)" for r
    using prefix_length_le [OF that] assms(2) by (simp add: message_key_def)
  show "length q < 4" if "with_dirs (root @ butlast k) n (root @ q) = Some Dir" for q
    using that l assms(1) by (auto simp: with_dirs_def mail_layout_def split: if_splits)
  show "length q = 4" if "with_dirs (root @ butlast k) n (root @ q) = Some (File c)" for q c
    using that assms(1) by (auto simp: with_dirs_def mail_layout_def split: if_splits)
qed (use assms(1) in \<open>auto simp: mail_layout_def with_dirs_wf, simp add: with_dirs_def\<close>)

lemma with_dirs_stored:
  assumes "mail_layout root n" and "message_key k"
  shows "stored root (with_dirs (root @ butlast k) n) = stored root n"
proof
  fix j
  show "stored root (with_dirs (root @ butlast k) n) j = stored root n j"
  proof (cases "prefix (root @ j) (root @ butlast k)")
    case True
    then have "n (root @ j) = Some Dir \<or> n (root @ j) = None" using layout_above [OF assms True] by blast
    then show ?thesis using True by (auto simp: stored_def with_dirs_def)
  qed (simp add: stored_def with_dirs_def)
qed

lemma with_dirs_parent [simp]: "with_dirs p n p = Some Dir"
  by (simp add: with_dirs_def)

text \<open>One message file set, changed or removed.\<close>

lemma layout_update:
  assumes "mail_layout root n" and "message_key k" and "n (root @ butlast k) = Some Dir"
  shows "mail_layout root (n(root @ k := map_option File v))"
    and "stored root (n(root @ k := map_option File v)) = (stored root n)(k := v)"
proof -
  have k: "k \<noteq> []" "length k = 4" using assms(2) by (auto simp: message_key_def)
  have kb: "butlast (root @ k) = root @ butlast k" using k by (simp add: butlast_append)
  have leaf: "butlast p \<noteq> root @ k" if "n p \<noteq> None" "p \<noteq> []" for p
  proof
    assume b: "butlast p = root @ k"
    then have "n (root @ k) = Some Dir" using that assms(1) by (metis mail_layout_def tree_wf_def)
    then show False using assms(1) k by (auto simp: mail_layout_def)
  qed
  have "butlast (root @ k) \<noteq> root @ k" using k kb by (metis append_is_Nil_conv butlast_append length_butlast length_append less_irrefl add_less_cancel_left diff_less zero_less_numeral zero_less_one)
  then have "tree_wf (n(root @ k := map_option File v))"
    using assms(1,3) k kb leaf unfolding tree_wf_def mail_layout_def by (auto simp del: not_None_eq)
  then show "mail_layout root (n(root @ k := map_option File v))"
    using assms(1) k unfolding mail_layout_def by auto
  show "stored root (n(root @ k := map_option File v)) = (stored root n)(k := v)"
    by (auto simp: stored_def fun_eq_iff split: option.split)
qed

lemmas layout_set = layout_update [where v = "Some c" for c, simplified]
lemmas layout_unset = layout_update [where v = None, simplified]

section \<open>The calls on a ready store\<close>

text \<open>A call has left the store ready, with the given message files.\<close>

definition leaves :: "path \<Rightarrow> (path \<rightharpoonup> bytes) \<Rightarrow> fs \<Rightarrow> bool" where
  "leaves root m s \<longleftrightarrow> store_ready root s \<and> stored root (fs_tree s) = m"

lemma store_ready_call:
  "store_ready root s \<Longrightarrow> fs_call f s = (s\<lparr>fs_tree := fst (f (fs_tree s)), fs_calls := fs_calls s + 1\<rparr>, snd (f (fs_tree s)))"
  by (simp add: store_ready_def fs_call_faultless)

lemma store_ready_calls [simp]: "store_ready root (s\<lparr>fs_calls := k\<rparr>) = store_ready root s"
  by (simp add: store_ready_def)

lemma leaves_calls [simp]: "leaves root m (s\<lparr>fs_calls := k\<rparr>) = leaves root m s"
  by (simp add: leaves_def)

lemma leavesI: "store_ready root s \<Longrightarrow> leaves root (stored root (fs_tree s)) s"
  by (simp add: leaves_def)

lemma leavesD: "leaves root m s \<Longrightarrow> store_ready root s" "leaves root m s \<Longrightarrow> stored root (fs_tree s) = m"
  by (simp_all add: leaves_def)

lemma ready_layout: "store_ready root s \<Longrightarrow> mail_layout root (fs_tree s)"
  by (simp add: store_ready_def)

lemma leaves_entry:
  "leaves root m s \<Longrightarrow> message_key k \<Longrightarrow> fs_tree s (root @ k) = (case m k of Some c \<Rightarrow> Some (File c) | None \<Rightarrow> None)"
  using layout_entry [of root "fs_tree s" k] by (auto simp: leaves_def store_ready_def)

lemma leaves_resolve: "leaves root m s \<Longrightarrow> message_key k \<Longrightarrow> resolve (root @ k) = root @ k"
  using layout_resolve [of root "fs_tree s" k] by (simp add: leaves_def store_ready_def)

lemma exists_leaves:
  assumes "leaves root m s" and "message_key k"
  obtains s' where "fs_exists (root @ k) s = (s', m k \<noteq> None)" and "leaves root m s'"
proof
  show "fs_exists (root @ k) s = (s\<lparr>fs_calls := fs_calls s + 1\<rparr>, m k \<noteq> None)"
    using assms leaves_entry [OF assms] leaves_resolve [OF assms] fs_exists_faultless [of s "root @ k"]
    by (auto simp: leaves_def store_ready_def split: option.splits)
qed (use assms(1) in simp)

lemma call_leaves:
  assumes "leaves root m s" and "f (fs_tree s) = (n, r)" and "mail_layout root n" and "stored root n = m'"
  obtains s' where "fs_call f s = (s', r)" and "leaves root m' s'" and "fs_tree s' = n"
proof
  show "fs_call f s = (s\<lparr>fs_tree := n, fs_calls := fs_calls s + 1\<rparr>, r)"
    using store_ready_call [OF leavesD(1) [OF assms(1)], of f] assms(2) by simp
  show "leaves root m' (s\<lparr>fs_tree := n, fs_calls := fs_calls s + 1\<rparr>)"
    using assms by (simp add: leaves_def store_ready_def faultless_def)
qed simp

lemma call_keeps_leaves:
  assumes "leaves root m s" and "f (fs_tree s) = (fs_tree s, r)"
  obtains s' where "fs_call f s = (s', r)" and "leaves root m s'" and "fs_tree s' = fs_tree s"
  using call_leaves [where f = f, OF assms ready_layout [OF leavesD(1) [OF assms(1)]] leavesD(2) [OF assms(1)]] .

lemma create_parent_leaves:
  assumes "leaves root m s" and "message_key k"
  obtains s' where "create_parent (root @ k) s = (s', Inr ())" and "leaves root m s'"
    and "fs_tree s' (root @ butlast k) = Some Dir" and "fs_tree s' (root @ k) = fs_tree s (root @ k)"
proof -
  have k: "k \<noteq> []" "length k = 4" using assms(2) by (auto simp: message_key_def)
  have "''..'' \<notin> set (root @ butlast k)"
    using assms by (auto simp: leaves_def store_ready_def mail_layout_def message_key_def dest: in_set_butlastD)
  then have r: "resolve (root @ butlast k) = root @ butlast k" by simp
  note l = ready_layout [OF leavesD(1) [OF assms(1)]]
  have "\<not> prefix (root @ k) (root @ butlast k)" using k by (auto dest: prefix_length_le)
  then have same: "with_dirs (root @ butlast k) (fs_tree s) (root @ k) = fs_tree s (root @ k)" by (simp add: with_dirs_def)
  have m: "stored root (with_dirs (root @ butlast k) (fs_tree s)) = m"
    using with_dirs_stored [OF l assms(2)] leavesD(2) [OF assms(1)] by simp
  obtain s' where "fs_call (tree_create_dir_all (root @ butlast k)) s = (s', Inr ())" "leaves root m s'"
      "fs_tree s' = with_dirs (root @ butlast k) (fs_tree s)"
    using call_leaves [where f = "tree_create_dir_all (root @ butlast k)", OF assms(1) layout_create_dirs [OF l assms(2)] with_dirs_layout [OF l assms(2)] m] .
  then show thesis using k same
    by (intro that [of s']) (simp_all add: create_parent_def path_parent_def butlast_append fs_create_dir_all_def r)
qed

lemma create_file_leaves:
  assumes "leaves root m s" and "message_key k" and "fs_tree s (root @ butlast k) = Some Dir"
  obtains s' where "fs_create_file (root @ k) s = (s', Inr ())" and "leaves root (m(k \<mapsto> [])) s'"
proof -
  note l = ready_layout [OF leavesD(1) [OF assms(1)]]
  have k: "k \<noteq> []" using assms(2) by (auto simp: message_key_def)
  have "fs_tree s (root @ k) \<noteq> Some Dir" using leaves_entry [OF assms(1,2)] by (auto split: option.split)
  then have c: "tree_create_file (root @ k) (fs_tree s) = ((fs_tree s)(root @ k \<mapsto> File []), Inr ())"
    using k assms(3) by (simp add: tree_create_file_def butlast_append)
  have m: "stored root ((fs_tree s)(root @ k \<mapsto> File [])) = m(k \<mapsto> [])"
    using layout_set(2) [OF l assms(2,3)] leavesD(2) [OF assms(1)] by simp
  obtain s' where "fs_call (tree_create_file (root @ k)) s = (s', Inr ())" "leaves root (m(k \<mapsto> [])) s'"
    using call_leaves [where f = "tree_create_file (root @ k)", OF assms(1) c layout_set(1) [OF l assms(2,3)] m] .
  then show thesis by (intro that [of s']) (simp_all add: fs_create_file_def leaves_resolve [OF assms(1,2)])
qed

text \<open>A message file lies in a directory.\<close>

lemma leaves_dir:
  assumes "leaves root m s" and "message_key k" and "m k \<noteq> None"
  shows "fs_tree s (root @ butlast k) = Some Dir"
proof -
  have k: "k \<noteq> []" using assms(2) by (auto simp: message_key_def)
  have "fs_tree s (root @ k) \<noteq> None" using leaves_entry [OF assms(1,2)] assms(3) by (auto split: option.split)
  then have "fs_tree s (butlast (root @ k)) = Some Dir"
    using ready_layout [OF leavesD(1) [OF assms(1)]] k unfolding mail_layout_def tree_wf_def by blast
  then show ?thesis using k by (simp add: butlast_append)
qed

lemma write_all_leaves:
  assumes "leaves root m s" and "message_key k" and "m k = Some old"
  obtains s' where "fs_write_all (root @ k) c s = (s', Inr ())" and "leaves root (m(k \<mapsto> c @ drop (length c) old)) s'"
proof -
  note l = ready_layout [OF leavesD(1) [OF assms(1)]]
  have d: "fs_tree s (root @ butlast k) = Some Dir" using leaves_dir [OF assms(1,2)] assms(3) by simp
  let ?c = "c @ drop (length c) old"
  have o: "tree_overwrite (root @ k) c (fs_tree s) = ((fs_tree s)(root @ k \<mapsto> File ?c), Inr ())"
    using leaves_entry [OF assms(1,2)] assms(3) by (simp add: tree_overwrite_def)
  have m: "stored root ((fs_tree s)(root @ k \<mapsto> File ?c)) = m(k \<mapsto> ?c)"
    using layout_set(2) [OF l assms(2) d] leavesD(2) [OF assms(1)] by simp
  obtain s' where "fs_call (tree_overwrite (root @ k) c) s = (s', Inr ())" "leaves root (m(k \<mapsto> ?c)) s'"
    using call_leaves [where f = "tree_overwrite (root @ k) c", OF assms(1) o layout_set(1) [OF l assms(2) d] m] .
  then show thesis by (intro that [of s']) (simp_all add: fs_write_all_def leaves_resolve [OF assms(1,2)])
qed

lemma sync_all_leaves:
  assumes "leaves root m s"
  obtains s' where "fs_sync_all p s = (s', Inr ())" and "leaves root m s'"
  using call_keeps_leaves [OF assms, of "\<lambda>n. (n, Inr ())"] by (auto simp: fs_sync_all_def)

lemma remove_file_leaves:
  assumes "leaves root m s" and "message_key k" and "m k \<noteq> None"
  obtains s' where "fs_remove_file (root @ k) s = (s', Inr ())" and "leaves root (m(k := None)) s'"
proof -
  note l = ready_layout [OF leavesD(1) [OF assms(1)]] and d = leaves_dir [OF assms]
  have r: "tree_remove_file (root @ k) (fs_tree s) = ((fs_tree s)(root @ k := None), Inr ())"
    using leaves_entry [OF assms(1,2)] assms(3) by (auto simp: tree_remove_file_def)
  have m: "stored root ((fs_tree s)(root @ k := None)) = m(k := None)"
    using layout_unset(2) [OF l assms(2) d] leavesD(2) [OF assms(1)] by simp
  obtain s' where "fs_call (tree_remove_file (root @ k)) s = (s', Inr ())" "leaves root (m(k := None)) s'"
    using call_leaves [where f = "tree_remove_file (root @ k)", OF assms(1) r layout_unset(1) [OF l assms(2) d] m] .
  then show thesis by (intro that [of s']) (simp_all add: fs_remove_file_def leaves_resolve [OF assms(1,2)])
qed

lemma rename_leaves:
  assumes "leaves root m s" and "message_key k" and "message_key j" and "m k = Some c"
    and "fs_tree s (root @ butlast j) = Some Dir"
  obtains s' where "fs_rename (root @ k) (root @ j) s = (s', Inr ())" and "leaves root ((m(k := None))(j \<mapsto> c)) s'"
proof -
  note l = ready_layout [OF leavesD(1) [OF assms(1)]]
  have d: "fs_tree s (root @ butlast k) = Some Dir" using leaves_dir [OF assms(1,2)] assms(4) by simp
  have kj: "k \<noteq> []" "j \<noteq> []" "length k = 4" "length j = 4" using assms(2,3) by (auto simp: message_key_def)
  let ?n = "(fs_tree s)(root @ k := None)"
  have nd: "fs_tree s (root @ j) \<noteq> Some Dir" using leaves_entry [OF assms(1,3)] by (auto split: option.split)
  have "root @ butlast j \<noteq> root @ k" using kj by (metis append_eq_append_conv diff_Suc_1 length_butlast numeral_eq_Suc n_not_Suc_n pred_numeral_simps(1))
  then have dj: "?n (root @ butlast j) = Some Dir" using assms(5) by simp
  note ln = layout_unset(1) [OF l assms(2) d]
  have r: "tree_rename (root @ k) (root @ j) (fs_tree s) = (?n(root @ j \<mapsto> File c), Inr ())"
    using leaves_entry [OF assms(1,2)] assms(4,5) nd kj by (simp add: tree_rename_def butlast_append)
  have m: "stored root (?n(root @ j \<mapsto> File c)) = (m(k := None))(j \<mapsto> c)"
    unfolding layout_set(2) [OF ln assms(3) dj] layout_unset(2) [OF l assms(2) d] leavesD(2) [OF assms(1)] ..
  obtain s' where "fs_call (tree_rename (root @ k) (root @ j)) s = (s', Inr ())" "leaves root ((m(k := None))(j \<mapsto> c)) s'"
    using call_leaves [where f = "tree_rename (root @ k) (root @ j)", OF assms(1) r layout_set(1) [OF ln assms(3) dj] m] .
  then show thesis
    by (intro that [of s']) (simp_all add: fs_rename_def leaves_resolve [OF assms(1,2)] leaves_resolve [OF assms(1,3)])
qed

lemma read_file_leaves:
  assumes "leaves root m s" and "message_key k" and "m k = Some c"
  obtains s' where "fs_read_file (root @ k) s = (s', Inr c)" and "leaves root m s'"
proof -
  have e: "tree_read_file (root @ k) (fs_tree s) = (fs_tree s, Inr c)"
    using leaves_entry [OF assms(1,2)] assms(3) by (simp add: tree_read_file_def)
  obtain s' where "fs_call (tree_read_file (root @ k)) s = (s', Inr c)" "leaves root m s'"
    using call_keeps_leaves [where f = "tree_read_file (root @ k)", OF assms(1) e] .
  then show thesis by (intro that [of s']) (simp_all add: fs_read_file_def leaves_resolve [OF assms(1,2)])
qed

lemma open_read_leaves:
  assumes "leaves root m s" and "message_key k" and "m k = Some c"
  obtains s' s'' where "fs_open (root @ k) s = (s', Inr ())" and "fs_read_file (root @ k) s' = (s'', Inr c)" and "leaves root m s''"
proof -
  let ?f = "\<lambda>n. (n, if n (resolve (root @ k)) = None then Inl ''No such file or directory'' else Inr ()) :: tree \<times> (string + unit)"
  have e: "?f (fs_tree s) = (fs_tree s, Inr ())"
    using leaves_entry [OF assms(1,2)] assms(3) unfolding leaves_resolve [OF assms(1,2)] by simp
  obtain s' where "fs_call ?f s = (s', Inr ())" "leaves root m s'"
    using call_keeps_leaves [where f = ?f, OF assms(1) e] .
  then have s': "fs_open (root @ k) s = (s', Inr ())" "leaves root m s'" by (simp_all add: fs_open_def)
  obtain s'' where "fs_read_file (root @ k) s' = (s'', Inr c)" "leaves root m s''"
    using read_file_leaves [OF s'(2) assms(2,3)] .
  then show thesis using that [OF s'(1)] by blast
qed

section \<open>An example\<close>

text \<open>A file system with an empty mail store below \<open>/srv\<close>, and outside it a file.\<close>

definition example_fs :: fs where
  "example_fs = \<lparr>fs_tree = [[] \<mapsto> Dir, [''srv''] \<mapsto> Dir, [''etc''] \<mapsto> Dir, [''etc'', ''hosts''] \<mapsto> File [1]],
     fs_fault = \<lambda>k. None, fs_calls = 0\<rparr>"

lemma example_fs_ready: "store_ready [''srv''] example_fs"
  by (auto simp: store_ready_def faultless_def mail_layout_def tree_wf_def example_fs_def split: if_splits)

lemma message_path_names:
  assumes "\<forall>s\<in>set [u, m, d, f]. plain_name s"
  shows "message_path (join_with ''/'' [u, m, d, f])" and "path_components (join_with ''/'' [u, m, d, f]) = [u, m, d, f]"
  using assms path_components_join [OF assms] join_relative [OF assms]
  by (auto simp: message_path_def message_key_def plain_name_def simp del: join_with.simps)

lemma example_message_path:
  "path_components ''amy/INBOX/new/17'' = [''amy'', ''INBOX'', ''new'', ''17'']" "message_path ''amy/INBOX/new/17''"
  "path_components ''amy/INBOX/cur/17:2,S'' = [''amy'', ''INBOX'', ''cur'', ''17:2,S'']" "message_path ''amy/INBOX/cur/17:2,S''"
  using message_path_names [of "''amy''" "''INBOX''" "''new''" "''17''"]
    message_path_names [of "''amy''" "''INBOX''" "''cur''" "''17:2,S''"]
  by (simp_all add: plain_name_def)

end
