(* ===== verification/Mail_Store.thy ===== *)
theory Mail_Store
  imports Mail_Layout Writer_Loop
begin

text \<open>
  src/mailstore/mod.rs and src/mailstore/impl/filesystem.rs: the file system mail store, its
  writer loop and its handle. The store writes a file with tokio's \<open>write_all\<close> and drops it
  without \<open>flush\<close>: by the documentation of \<open>tokio::fs::File\<close> the bytes are then handed to a
  background task, and the call has succeeded before they are in the file. The state holds
  those writes; when they land is up to the environment.
\<close>

section \<open>The store\<close>

record mstore =
  ms_fs :: fs
  ms_pending :: "(path \<times> bytes) list"

definition ms_call :: "(fs \<Rightarrow> fs \<times> 'a) \<Rightarrow> mstore \<Rightarrow> mstore \<times> 'a" where
  "ms_call f s = (case f (ms_fs s) of (x, r) \<Rightarrow> (s\<lparr>ms_fs := x\<rparr>, r))"

text \<open>\<open>write_all\<close> without a flush, and what the background task does later.\<close>

definition ms_hand_over :: "path \<Rightarrow> bytes \<Rightarrow> mstore \<Rightarrow> mstore" where
  "ms_hand_over p c s = s\<lparr>ms_pending := ms_pending s @ [(resolve p, c)]\<rparr>"

definition ms_land :: "nat \<Rightarrow> mstore \<Rightarrow> mstore" where
  "ms_land k s = (if k < length (ms_pending s)
     then (case ms_pending s ! k of (p, c) \<Rightarrow>
       s\<lparr>ms_fs := fst (fs_call (tree_overwrite p c) (ms_fs s)),
         ms_pending := take k (ms_pending s) @ drop (Suc k) (ms_pending s)\<rparr>)
     else s)"

text \<open>A removed file takes the writes that are still on their way to it with it.\<close>

definition ms_forget :: "path \<Rightarrow> mstore \<Rightarrow> mstore" where
  "ms_forget p s = s\<lparr>ms_pending := filter (\<lambda>(q, c). q \<noteq> resolve p) (ms_pending s)\<rparr>"

definition store_file :: "path \<Rightarrow> string \<Rightarrow> bytes \<Rightarrow> mstore \<Rightarrow> mstore \<times> unit result" where
  "store_file root p content s =
     (let full = path_join root p in
      case ms_call (create_parent full) s of
        (s, Inl e) \<Rightarrow> (s, Err (Io e))
      | (s, Inr _) \<Rightarrow>
          (case ms_call (fs_create_file full) s of
             (s, Inl e) \<Rightarrow> (s, Err (Io e))
           | (s, Inr _) \<Rightarrow> (ms_hand_over full content s, Ok ())))"

definition delete_file :: "path \<Rightarrow> string \<Rightarrow> mstore \<Rightarrow> mstore \<times> unit result" where
  "delete_file root p s =
     (let full = path_join root p in
      case ms_call (fs_exists full) s of
        (s, False) \<Rightarrow> (s, Err (NotFound (''File not found: '' @ p)))
      | (s, True) \<Rightarrow>
          (case ms_call (fs_remove_file full) s of
             (s, Inl e) \<Rightarrow> (s, Err (Io e))
           | (s, Inr _) \<Rightarrow> (ms_forget full s, Ok ())))"

section \<open>The writer loop and the handle\<close>

datatype write_command = WC_Store string bytes | WC_Delete string | WC_Shutdown

datatype write_reply = WR_Unit "unit result" | WR_Stopped

fun mstore_exec :: "path \<Rightarrow> mstore \<Rightarrow> write_command \<Rightarrow> mstore \<times> write_reply" where
  "mstore_exec root s (WC_Store p c) = (case store_file root p c s of (s', r) \<Rightarrow> (s', WR_Unit r))"
| "mstore_exec root s (WC_Delete p) = (case delete_file root p s of (s', r) \<Rightarrow> (s', WR_Unit r))"
| "mstore_exec root s WC_Shutdown = (s, WR_Stopped)"

fun mstore_stops :: "write_command \<Rightarrow> bool" where
  "mstore_stops WC_Shutdown = True"
| "mstore_stops _ = False"

fun wr_unit :: "write_reply \<Rightarrow> unit result" where
  "wr_unit (WR_Unit r) = r"

record mail_store =
  mst_root :: path
  mst_loop :: "mstore actor"

definition mail_store_new :: "path \<Rightarrow> fs \<Rightarrow> fs \<times> mail_store result" where
  "mail_store_new root = fs_bind (fs_create_dir_all root)
     (\<lambda>_ s. (s, Ok \<lparr>mst_root = root, mst_loop = \<lparr>alive = True, state = \<lparr>ms_fs = s, ms_pending = []\<rparr>\<rparr>\<rparr>))"

definition mst_call :: "write_command list \<Rightarrow> write_command \<Rightarrow> mail_store \<Rightarrow> mail_store \<times> unit result" where
  "mst_call pending c st =
     (case client_op (mstore_exec (mst_root st)) mstore_stops (Internal ''Writer loop stopped'')
        (Internal ''Writer loop dropped reply'') wr_unit pending c (mst_loop st) of
        (l, r) \<Rightarrow> (st\<lparr>mst_loop := l\<rparr>, r))"

definition mst_store :: "write_command list \<Rightarrow> string \<Rightarrow> bytes \<Rightarrow> mail_store \<Rightarrow> mail_store \<times> unit result" where
  "mst_store pending p content = mst_call pending (WC_Store p content)"

definition mst_delete :: "write_command list \<Rightarrow> string \<Rightarrow> mail_store \<Rightarrow> mail_store \<times> unit result" where
  "mst_delete pending p = mst_call pending (WC_Delete p)"

definition mst_read_with :: "(fs \<Rightarrow> fs \<times> 'a result) \<Rightarrow> mail_store \<Rightarrow> mail_store \<times> 'a result" where
  "mst_read_with f st = (case ms_call f (state (mst_loop st)) of
     (s, r) \<Rightarrow> (st\<lparr>mst_loop := (mst_loop st)\<lparr>state := s\<rparr>\<rparr>, r))"

definition mst_retrieve :: "string \<Rightarrow> mail_store \<Rightarrow> mail_store \<times> bytes option result" where
  "mst_retrieve p st =
     (let full = path_join (mst_root st) p in
      mst_read_with (\<lambda>s. case fs_exists full s of
          (s, False) \<Rightarrow> (s, Ok None)
        | (s, True) \<Rightarrow> fs_bind (fs_open full) (\<lambda>_. fs_bind (fs_read_file full) (\<lambda>c s. (s, Ok (Some c)))) s) st)"

definition mst_exists :: "string \<Rightarrow> mail_store \<Rightarrow> mail_store \<times> bool result" where
  "mst_exists p st =
     mst_read_with (\<lambda>s. case fs_exists (path_join (mst_root st) p) s of (s, b) \<Rightarrow> (s, Ok b)) st"

definition mst_shutdown :: "write_command list \<Rightarrow> mail_store \<Rightarrow> mail_store \<times> unit result" where
  "mst_shutdown pending st =
     (st\<lparr>mst_loop := fst (client_call (mstore_exec (mst_root st)) mstore_stops (mst_loop st) pending WC_Shutdown)\<rparr>, Ok ())"

text \<open>A background write of the store's file system lands.\<close>

definition mst_land :: "nat \<Rightarrow> mail_store \<Rightarrow> mail_store" where
  "mst_land k st = st\<lparr>mst_loop := (mst_loop st)\<lparr>state := ms_land k (state (mst_loop st))\<rparr>\<rparr>"

lemmas mst_defs = mst_store_def mst_delete_def mst_call_def mst_retrieve_def mst_exists_def mst_read_with_def
  ms_call_def mst_land_def

section \<open>What the operations do\<close>

text \<open>The store is ready, with these files and no write on its way.\<close>

definition mst_holds :: "path \<Rightarrow> (path \<rightharpoonup> bytes) \<Rightarrow> mail_store \<Rightarrow> bool" where
  "mst_holds root m st \<longleftrightarrow> mst_root st = root \<and> alive (mst_loop st) \<and>
     leaves root m (ms_fs (state (mst_loop st))) \<and> ms_pending (state (mst_loop st)) = []"

lemma retrieve_ready:
  assumes "mst_root st = root" and "leaves root m (ms_fs (state (mst_loop st)))" and "message_path p"
  shows "snd (mst_retrieve p st) = Ok (m (path_components p))"
proof -
  note k = message_pathD [OF assms(3)]
  obtain s0 where s0: "fs_exists (root @ path_components p) (ms_fs (state (mst_loop st))) = (s0, m (path_components p) \<noteq> None)"
      "leaves root m s0"
    using exists_leaves [OF assms(2) k] .
  show ?thesis
  proof (cases "m (path_components p)")
    case None
    then show ?thesis using s0 by (simp add: mst_defs assms(1) message_path_join [OF assms(3)] Let_def)
  next
    case (Some x)
    obtain s1 s2 where "fs_open (root @ path_components p) s0 = (s1, Inr ())"
        "fs_read_file (root @ path_components p) s1 = (s2, Inr x)"
      using open_read_leaves [OF s0(2) k Some] .
    then show ?thesis using s0(1) Some by (simp add: mst_defs assms(1) message_path_join [OF assms(3)] fs_bind_def Let_def)
  qed
qed

lemma store_ready_file:
  assumes "mst_holds root m st" and "message_path p"
  obtains s where "mst_store [] p c st =
      (st\<lparr>mst_loop := \<lparr>alive = True, state = \<lparr>ms_fs = s, ms_pending = [(root @ path_components p, c)]\<rparr>\<rparr>\<rparr>, Ok ())"
    and "leaves root (m(path_components p \<mapsto> [])) s"
proof -
  let ?k = "path_components p"
  note k = message_pathD [OF assms(2)]
  have h: "mst_root st = root" "alive (mst_loop st)" "leaves root m (ms_fs (state (mst_loop st)))"
      "ms_pending (state (mst_loop st)) = []"
    using assms(1) by (simp_all add: mst_holds_def)
  obtain s1 where s1: "create_parent (root @ ?k) (ms_fs (state (mst_loop st))) = (s1, Inr ())" "leaves root m s1"
      "fs_tree s1 (root @ butlast ?k) = Some Dir"
    using create_parent_leaves [OF h(3) k] .
  obtain s2 where s2: "fs_create_file (root @ ?k) s1 = (s2, Inr ())" "leaves root (m(?k \<mapsto> [])) s2"
    using create_file_leaves [OF s1(2) k s1(3)] .
  have "store_file root p c (state (mst_loop st)) = (\<lparr>ms_fs = s2, ms_pending = [(root @ ?k, c)]\<rparr>, Ok ())"
    using s1(1) s2(1) h(4) leaves_resolve [OF h(3) k]
    by (simp add: store_file_def message_path_join [OF assms(2)] ms_call_def ms_hand_over_def Let_def)
  then have "mst_store [] p c st =
      (st\<lparr>mst_loop := \<lparr>alive = True, state = \<lparr>ms_fs = s2, ms_pending = [(root @ ?k, c)]\<rparr>\<rparr>\<rparr>, Ok ())"
    using h(1) by (simp add: mst_store_def mst_call_def client_op_direct [OF h(2)])
  then show thesis using that s2(2) by blast
qed

section \<open>Properties\<close>

definition example_mail_store :: mail_store where
  "example_mail_store = \<lparr>mst_root = [''srv''], mst_loop = \<lparr>alive = True, state = \<lparr>ms_fs = example_fs, ms_pending = []\<rparr>\<rparr>\<rparr>"



text \<open>
  Deleting removes exactly the message: a message that is there is found no more while all
  others stay, and deleting a message that is not there is an error that changes nothing.
\<close>

theorem mail_store_delete:
  assumes "mst_holds root m st" and "message_path p"
  shows "\<exists>st'. mst_delete [] p st =
      (st', if m (path_components p) = None then Err (NotFound (''File not found: '' @ p)) else Ok ()) \<and>
    mst_holds root (m(path_components p := None)) st'"
proof -
  let ?k = "path_components p" and ?s = "state (mst_loop st)"
  note k = message_pathD [OF assms(2)]
  have h: "mst_root st = root" "alive (mst_loop st)" "leaves root m (ms_fs ?s)" "ms_pending ?s = []"
    using assms(1) by (simp_all add: mst_holds_def)
  obtain s0 where s0: "fs_exists (root @ ?k) (ms_fs ?s) = (s0, m ?k \<noteq> None)" "leaves root m s0"
    using exists_leaves [OF h(3) k] .
  show ?thesis
  proof (cases "m ?k")
    case None
    have "delete_file root p ?s = (\<lparr>ms_fs = s0, ms_pending = []\<rparr>, Err (NotFound (''File not found: '' @ p)))"
      using s0(1) None h(4) by (simp add: delete_file_def message_path_join [OF assms(2)] ms_call_def Let_def)
    moreover have "m(?k := None) = m" using None by auto
    ultimately show ?thesis using h s0(2) None
      by (simp add: mst_delete_def mst_call_def client_op_direct [OF h(2)] mst_holds_def)
  next
    case (Some c)
    obtain s1 where s1: "fs_remove_file (root @ ?k) s0 = (s1, Inr ())" "leaves root (m(?k := None)) s1"
      using remove_file_leaves [OF s0(2) k] Some by auto
    have "delete_file root p ?s = (\<lparr>ms_fs = s1, ms_pending = []\<rparr>, Ok ())"
      using s0(1) s1(1) Some h(4)
      by (simp add: delete_file_def message_path_join [OF assms(2)] ms_call_def ms_forget_def Let_def)
    then show ?thesis using h s1(2) Some
      by (simp add: mst_delete_def mst_call_def client_op_direct [OF h(2)] mst_holds_def)
  qed
qed

theorem mail_store_delete_witness:
  "\<exists>st'. mst_delete [] ''amy/INBOX/new/17'' example_mail_store = (st', Err (NotFound (''File not found: '' @ ''amy/INBOX/new/17''))) \<and>
    snd (mst_retrieve ''amy/INBOX/new/17'' st') = Ok None"
proof -
  have h: "mst_holds [''srv''] (stored [''srv''] (fs_tree example_fs)) example_mail_store"
    using leavesI [OF example_fs_ready] by (simp add: mst_holds_def example_mail_store_def)
  have "stored [''srv''] (fs_tree example_fs) (path_components ''amy/INBOX/new/17'') = None"
    by (simp add: example_message_path stored_def example_fs_def)
  then obtain st' where "mst_delete [] ''amy/INBOX/new/17'' example_mail_store =
        (st', Err (NotFound (''File not found: '' @ ''amy/INBOX/new/17'')))"
      "mst_holds [''srv''] ((stored [''srv''] (fs_tree example_fs))(path_components ''amy/INBOX/new/17'' := None)) st'"
    using mail_store_delete [OF h example_message_path(2)] by auto
  then show ?thesis using retrieve_ready [of st' "[''srv'']", OF _ _ example_message_path(2)]
    by (auto simp: mst_holds_def)
qed

end
