(* ===== verification/Storage.thy ===== *)
theory Storage
  imports Mail_Layout Writer_Loop
begin

text \<open>
  src/storage.rs, src/storage/store_mail.rs and src/storage/filesystem_store.rs: the low-level
  store as an object of functions on the file system, its implementation below a root
  directory, and the storage handle with its writer loop, which runs every change. The state
  of the loop is the file system; the handle reads it directly.
\<close>

section \<open>The low-level store\<close>

record store_mail =
  sm_write :: "string \<Rightarrow> bytes \<Rightarrow> fs \<Rightarrow> fs \<times> unit result"
  sm_move_file :: "string \<Rightarrow> string \<Rightarrow> fs \<Rightarrow> fs \<times> unit result"
  sm_remove :: "string \<Rightarrow> fs \<Rightarrow> fs \<times> unit result"
  sm_write_metadata :: "string \<Rightarrow> bytes \<Rightarrow> fs \<Rightarrow> fs \<times> unit result"
  sm_exists :: "string \<Rightarrow> fs \<Rightarrow> fs \<times> bool result"
  sm_read :: "string \<Rightarrow> fs \<Rightarrow> fs \<times> bytes option result"

definition fstore_write :: "path \<Rightarrow> string \<Rightarrow> bytes \<Rightarrow> fs \<Rightarrow> fs \<times> unit result" where
  "fstore_write root p content =
     (let full = path_join root p in
      fs_bind (create_parent full) (\<lambda>_.
      fs_bind (fs_create_file full) (\<lambda>_.
      fs_bind (fs_write_all full content) (\<lambda>_.
      fs_bind (fs_sync_all full) (\<lambda>_ s. (s, Ok ()))))))"

definition fstore_move_file :: "path \<Rightarrow> string \<Rightarrow> string \<Rightarrow> fs \<Rightarrow> fs \<times> unit result" where
  "fstore_move_file root from to s =
     (let from_path = path_join root from; to_path = path_join root to in
      case fs_exists from_path s of
        (s, False) \<Rightarrow> (s, Err (NotFound (''Source file not found: '' @ from)))
      | (s, True) \<Rightarrow>
          fs_bind (create_parent to_path) (\<lambda>_.
          fs_bind (fs_rename from_path to_path) (\<lambda>_ s. (s, Ok ()))) s)"

definition fstore_remove :: "path \<Rightarrow> string \<Rightarrow> fs \<Rightarrow> fs \<times> unit result" where
  "fstore_remove root p s =
     (let full = path_join root p in
      case fs_exists full s of
        (s, False) \<Rightarrow> (s, Err (NotFound (''File not found: '' @ p)))
      | (s, True) \<Rightarrow> fs_bind (fs_remove_file full) (\<lambda>_ s. (s, Ok ())) s)"

definition fstore_write_metadata :: "path \<Rightarrow> string \<Rightarrow> bytes \<Rightarrow> fs \<Rightarrow> fs \<times> unit result" where
  "fstore_write_metadata root p metadata s = (s, Ok ())"

definition fstore_exists :: "path \<Rightarrow> string \<Rightarrow> fs \<Rightarrow> fs \<times> bool result" where
  "fstore_exists root p s = (case fs_exists (path_join root p) s of (s, b) \<Rightarrow> (s, Ok b))"

definition fstore_read :: "path \<Rightarrow> string \<Rightarrow> fs \<Rightarrow> fs \<times> bytes option result" where
  "fstore_read root p s =
     (let full = path_join root p in
      case fs_exists full s of
        (s, False) \<Rightarrow> (s, Ok None)
      | (s, True) \<Rightarrow> fs_bind (fs_open full) (\<lambda>_. fs_bind (fs_read_file full) (\<lambda>c s. (s, Ok (Some c)))) s)"

definition filesystem_store :: "path \<Rightarrow> store_mail" where
  "filesystem_store root = \<lparr>sm_write = fstore_write root, sm_move_file = fstore_move_file root,
     sm_remove = fstore_remove root, sm_write_metadata = fstore_write_metadata root,
     sm_exists = fstore_exists root, sm_read = fstore_read root\<rparr>"

definition filesystem_store_new :: "path \<Rightarrow> fs \<Rightarrow> fs \<times> store_mail result" where
  "filesystem_store_new root = fs_bind (fs_create_dir_all root) (\<lambda>_ s. (s, Ok (filesystem_store root)))"

lemma filesystem_store_sel [simp]:
  "sm_write (filesystem_store root) = fstore_write root"
  "sm_move_file (filesystem_store root) = fstore_move_file root"
  "sm_remove (filesystem_store root) = fstore_remove root"
  "sm_write_metadata (filesystem_store root) = fstore_write_metadata root"
  "sm_exists (filesystem_store root) = fstore_exists root"
  "sm_read (filesystem_store root) = fstore_read root"
  by (simp_all add: filesystem_store_def)

section \<open>The storage handle and its writer loop\<close>

datatype storage_command =
    SC_Write string bytes
  | SC_Move string string
  | SC_Remove string
  | SC_WriteMetadata string bytes
  | SC_Shutdown

datatype storage_reply = SR_Unit "unit result" | SR_Stopped

fun storage_exec :: "store_mail \<Rightarrow> fs \<Rightarrow> storage_command \<Rightarrow> fs \<times> storage_reply" where
  "storage_exec sm s (SC_Write p c) = (case sm_write sm p c s of (s', r) \<Rightarrow> (s', SR_Unit r))"
| "storage_exec sm s (SC_Move p q) = (case sm_move_file sm p q s of (s', r) \<Rightarrow> (s', SR_Unit r))"
| "storage_exec sm s (SC_Remove p) = (case sm_remove sm p s of (s', r) \<Rightarrow> (s', SR_Unit r))"
| "storage_exec sm s (SC_WriteMetadata p d) = (case sm_write_metadata sm p d s of (s', r) \<Rightarrow> (s', SR_Unit r))"
| "storage_exec sm s SC_Shutdown = (s, SR_Stopped)"

fun storage_stops :: "storage_command \<Rightarrow> bool" where
  "storage_stops SC_Shutdown = True"
| "storage_stops _ = False"

fun sr_unit :: "storage_reply \<Rightarrow> unit result" where
  "sr_unit (SR_Unit r) = r"

record storage =
  st_store :: store_mail
  st_format :: mailbox_format
  st_loop :: "fs actor"

definition storage_new :: "store_mail \<Rightarrow> mailbox_format \<Rightarrow> fs \<Rightarrow> storage" where
  "storage_new sm fmt s = \<lparr>st_store = sm, st_format = fmt, st_loop = \<lparr>alive = True, state = s\<rparr>\<rparr>"

definition storage_call :: "storage_command list \<Rightarrow> storage_command \<Rightarrow> storage \<Rightarrow> storage \<times> unit result" where
  "storage_call pending c st =
     (case client_op (storage_exec (st_store st)) storage_stops (Internal ''Storage writer loop stopped'')
        (Internal ''Storage writer loop dropped reply'') sr_unit pending c (st_loop st) of
        (l, r) \<Rightarrow> (st\<lparr>st_loop := l\<rparr>, r))"

definition storage_store :: "storage_command list \<Rightarrow> string \<Rightarrow> bytes \<Rightarrow> storage \<Rightarrow> storage \<times> unit result" where
  "storage_store pending p content = storage_call pending (SC_Write p content)"

definition storage_delete :: "storage_command list \<Rightarrow> string \<Rightarrow> storage \<Rightarrow> storage \<times> unit result" where
  "storage_delete pending p = storage_call pending (SC_Remove p)"

definition storage_read_with :: "(fs \<Rightarrow> fs \<times> 'a result) \<Rightarrow> storage \<Rightarrow> storage \<times> 'a result" where
  "storage_read_with f st = (case f (state (st_loop st)) of (s, r) \<Rightarrow> (st\<lparr>st_loop := (st_loop st)\<lparr>state := s\<rparr>\<rparr>, r))"

definition storage_retrieve :: "string \<Rightarrow> storage \<Rightarrow> storage \<times> bytes option result" where
  "storage_retrieve p st = storage_read_with (sm_read (st_store st) p) st"

definition storage_exists :: "string \<Rightarrow> storage \<Rightarrow> storage \<times> bool result" where
  "storage_exists p st = storage_read_with (sm_exists (st_store st) p) st"

text \<open>
  The name that a message gets for new flags. A path is written back from its components, so
  repeated separators are written once; no call sees the difference.
\<close>

definition path_to_str :: "bool \<Rightarrow> path \<Rightarrow> string" where
  "path_to_str absolute p = (if absolute then ''/'' else []) @ join_with ''/'' p"

definition flagged_filename :: "mailbox_format \<Rightarrow> message_flag list \<Rightarrow> string \<Rightarrow> string" where
  "flagged_filename fmt flags filename =
     (let flag_component = mf_flags_to_filename_component fmt flags;
          unique_id = (case find_split '':2,'' filename of Some (i, rest) \<Rightarrow> i | None \<Rightarrow> filename)
      in if flag_component = [] then unique_id else unique_id @ flag_component)"

definition flagged_parent :: "message_flag list \<Rightarrow> path \<Rightarrow> path" where
  "flagged_parent flags parent =
     (let parent_name = (case path_file_name parent of Some d \<Rightarrow> d | None \<Rightarrow> []);
          above = (case path_parent parent of Some q \<Rightarrow> q | None \<Rightarrow> parent)
      in if Seen \<in> set flags
         then (if parent_name = ''new'' then path_join above ''cur'' else parent)
         else (if parent_name = ''cur'' then path_join above ''new'' else parent))"

definition flagged_path :: "mailbox_format \<Rightarrow> message_flag list \<Rightarrow> string \<Rightarrow> string result" where
  "flagged_path fmt flags current_path =
     (let p = path_components current_path in
      case path_file_name p of
        None \<Rightarrow> Err (Internal (''Invalid path: '' @ current_path))
      | Some filename \<Rightarrow>
          let parent = (case path_parent p of Some q \<Rightarrow> q | None \<Rightarrow> []) in
          Ok (path_to_str (starts_with current_path ''/'')
            (path_join (flagged_parent flags parent) (flagged_filename fmt flags filename))))"

definition storage_update_flags ::
  "storage_command list \<Rightarrow> string \<Rightarrow> message_flag list \<Rightarrow> storage \<Rightarrow> storage \<times> unit result" where
  "storage_update_flags pending current_path flags st =
     (case flagged_path (st_format st) flags current_path of
        Err e \<Rightarrow> (st, Err e)
      | Ok new_path \<Rightarrow> storage_call pending (SC_Move current_path new_path) st)"

definition storage_shutdown :: "storage_command list \<Rightarrow> storage \<Rightarrow> storage \<times> unit result" where
  "storage_shutdown pending st =
     (st\<lparr>st_loop := fst (client_call (storage_exec (st_store st)) storage_stops (st_loop st) pending SC_Shutdown)\<rparr>, Ok ())"

lemmas storage_call_defs = storage_store_def storage_delete_def storage_update_flags_def storage_call_def

section \<open>The contract of a store\<close>

text \<open>
  The specification of a store: contents by key, and what each command answers and does to
  them. Names the file system considers the same have the same key.
\<close>

fun kv_exec :: "(string \<Rightarrow> 'k) \<Rightarrow> ('k \<rightharpoonup> bytes) \<Rightarrow> storage_command \<Rightarrow> ('k \<rightharpoonup> bytes) \<times> storage_reply" where
  "kv_exec key m (SC_Write p c) = (m(key p \<mapsto> c), SR_Unit (Ok ()))"
| "kv_exec key m (SC_Move p q) = (case m (key p) of
     None \<Rightarrow> (m, SR_Unit (Err (NotFound (''Source file not found: '' @ p))))
   | Some c \<Rightarrow> ((m(key p := None))(key q \<mapsto> c), SR_Unit (Ok ())))"
| "kv_exec key m (SC_Remove p) = (case m (key p) of
     None \<Rightarrow> (m, SR_Unit (Err (NotFound (''File not found: '' @ p))))
   | Some c \<Rightarrow> (m(key p := None), SR_Unit (Ok ())))"
| "kv_exec key m (SC_WriteMetadata p d) = (m, SR_Unit (Ok ()))"
| "kv_exec key m SC_Shutdown = (m, SR_Stopped)"

fun command_paths :: "storage_command \<Rightarrow> string set" where
  "command_paths (SC_Write p c) = {p}"
| "command_paths (SC_Move p q) = {p, q}"
| "command_paths (SC_Remove p) = {p}"
| "command_paths (SC_WriteMetadata p d) = {p}"
| "command_paths SC_Shutdown = {}"

text \<open>
  What the storage relies on in a store: every operation, on a store that is ready, answers as
  the specification does and leaves the store ready with the contents that it describes.
\<close>

locale store_contract =
  fixes sm :: store_mail and good :: "string \<Rightarrow> bool" and key :: "string \<Rightarrow> 'k"
    and holds :: "('k \<rightharpoonup> bytes) \<Rightarrow> fs \<Rightarrow> bool"
  assumes write_law: "holds m s \<Longrightarrow> good p \<Longrightarrow> \<exists>s'. sm_write sm p c s = (s', Ok ()) \<and> holds (m(key p \<mapsto> c)) s'"
    and move_law: "holds m s \<Longrightarrow> good p \<Longrightarrow> good q \<Longrightarrow> m (key p) = Some c \<Longrightarrow>
      \<exists>s'. sm_move_file sm p q s = (s', Ok ()) \<and> holds ((m(key p := None))(key q \<mapsto> c)) s'"
    and move_none: "holds m s \<Longrightarrow> good p \<Longrightarrow> m (key p) = None \<Longrightarrow>
      \<exists>s'. sm_move_file sm p q s = (s', Err (NotFound (''Source file not found: '' @ p))) \<and> holds m s'"
    and remove_law: "holds m s \<Longrightarrow> good p \<Longrightarrow> m (key p) = Some c \<Longrightarrow>
      \<exists>s'. sm_remove sm p s = (s', Ok ()) \<and> holds (m(key p := None)) s'"
    and remove_none: "holds m s \<Longrightarrow> good p \<Longrightarrow> m (key p) = None \<Longrightarrow>
      \<exists>s'. sm_remove sm p s = (s', Err (NotFound (''File not found: '' @ p))) \<and> holds m s'"
    and metadata_law: "holds m s \<Longrightarrow> \<exists>s'. sm_write_metadata sm p d s = (s', Ok ()) \<and> holds m s'"
    and read_law: "holds m s \<Longrightarrow> good p \<Longrightarrow> \<exists>s'. sm_read sm p s = (s', Ok (m (key p))) \<and> holds m s'"
    and exists_law: "holds m s \<Longrightarrow> good p \<Longrightarrow> \<exists>s'. sm_exists sm p s = (s', Ok (m (key p) \<noteq> None)) \<and> holds m s'"
begin

lemma exec_refines:
  assumes "holds m s" and "\<forall>p\<in>command_paths c. good p"
  shows "holds (fst (kv_exec key m c)) (fst (storage_exec sm s c)) \<and> snd (storage_exec sm s c) = snd (kv_exec key m c)"
proof (cases c)
  case (SC_Write p x)
  then show ?thesis using write_law [OF assms(1), of p x] assms(2) by auto
next
  case (SC_Move p q)
  then show ?thesis using move_law [OF assms(1), of p q] move_none [OF assms(1), of p q] assms(2)
    by (cases "m (key p)") auto
next
  case (SC_Remove p)
  then show ?thesis using remove_law [OF assms(1), of p] remove_none [OF assms(1), of p] assms(2)
    by (cases "m (key p)") auto
next
  case (SC_WriteMetadata p d)
  then show ?thesis using metadata_law [OF assms(1), of p d] by auto
qed (use assms(1) in simp)

lemma run_refines:
  assumes "holds m s" and "\<forall>c\<in>set cs. \<forall>p\<in>command_paths c. good p"
  shows "holds (state (fst (run_loop (kv_exec key) storage_stops m cs))) (state (fst (run_loop (storage_exec sm) storage_stops s cs))) \<and>
    alive (fst (run_loop (storage_exec sm) storage_stops s cs)) = alive (fst (run_loop (kv_exec key) storage_stops m cs)) \<and>
    snd (run_loop (storage_exec sm) storage_stops s cs) = snd (run_loop (kv_exec key) storage_stops m cs)"
  by (rule run_loop_simulates [where ok = "\<lambda>c. \<forall>p\<in>command_paths c. good p"]) (use assms exec_refines in simp_all)

lemma read_after_run:
  assumes "holds m s" and "\<forall>c\<in>set cs. \<forall>p\<in>command_paths c. good p" and "good p"
  shows "snd (sm_read sm p (state (fst (run_loop (storage_exec sm) storage_stops s cs)))) =
    Ok (state (fst (run_loop (kv_exec key) storage_stops m cs)) (key p))"
  using run_refines [OF assms(1,2)] read_law [OF _ assms(3)] by fastforce

end

section \<open>The file system store keeps the contract\<close>

interpretation fstore: store_contract "filesystem_store root" message_path path_components "leaves root"
proof
  fix m s p q c d
  let ?k = "path_components p" and ?j = "path_components q"
  assume h: "leaves root m s"
  show "\<exists>s'. sm_write (filesystem_store root) p c s = (s', Ok ()) \<and> leaves root (m(?k \<mapsto> c)) s'" if p: "message_path p"
  proof -
    note k = message_pathD [OF p]
    obtain s1 where s1: "create_parent (root @ ?k) s = (s1, Inr ())" "leaves root m s1" "fs_tree s1 (root @ butlast ?k) = Some Dir"
      using create_parent_leaves [OF h k] .
    obtain s2 where s2: "fs_create_file (root @ ?k) s1 = (s2, Inr ())" "leaves root (m(?k \<mapsto> [])) s2"
      using create_file_leaves [OF s1(2) k s1(3)] .
    obtain s3 where s3: "fs_write_all (root @ ?k) c s2 = (s3, Inr ())" "leaves root ((m(?k \<mapsto> []))(?k \<mapsto> c @ drop (length c) [])) s3"
      using write_all_leaves [OF s2(2) k fun_upd_same] .
    obtain s4 where s4: "fs_sync_all (root @ ?k) s3 = (s4, Inr ())" "leaves root ((m(?k \<mapsto> []))(?k \<mapsto> c @ drop (length c) [])) s4"
      using sync_all_leaves [OF s3(2)] .
    then show ?thesis using s1(1) s2(1) s3(1)
      by (simp add: fstore_write_def message_path_join [OF p] fs_bind_def Let_def)
  qed
  show "\<exists>s'. sm_move_file (filesystem_store root) p q s = (s', Ok ()) \<and> leaves root ((m(?k := None))(?j \<mapsto> c)) s'"
    if p: "message_path p" and q: "message_path q" and c: "m ?k = Some c"
  proof -
    note k = message_pathD [OF p] and j = message_pathD [OF q]
    obtain s0 where s0: "fs_exists (root @ ?k) s = (s0, m ?k \<noteq> None)" "leaves root m s0"
      using exists_leaves [OF h k] .
    obtain s1 where s1: "create_parent (root @ ?j) s0 = (s1, Inr ())" "leaves root m s1" "fs_tree s1 (root @ butlast ?j) = Some Dir"
      using create_parent_leaves [OF s0(2) j] .
    obtain s2 where "fs_rename (root @ ?k) (root @ ?j) s1 = (s2, Inr ())" "leaves root ((m(?k := None))(?j \<mapsto> c)) s2"
      using rename_leaves [OF s1(2) k j c s1(3)] .
    then show ?thesis using s0(1) s1(1) c
      by (simp add: fstore_move_file_def message_path_join [OF p] message_path_join [OF q] fs_bind_def)
  qed
  show "\<exists>s'. sm_move_file (filesystem_store root) p q s = (s', Err (NotFound (''Source file not found: '' @ p))) \<and> leaves root m s'"
    if p: "message_path p" and c: "m ?k = None"
  proof -
    obtain s0 where "fs_exists (root @ ?k) s = (s0, m ?k \<noteq> None)" "leaves root m s0"
      using exists_leaves [OF h message_pathD [OF p]] .
    then show ?thesis using c by (simp add: fstore_move_file_def message_path_join [OF p])
  qed
  show "\<exists>s'. sm_remove (filesystem_store root) p s = (s', Ok ()) \<and> leaves root (m(?k := None)) s'"
    if p: "message_path p" and c: "m ?k = Some c"
  proof -
    note k = message_pathD [OF p]
    obtain s0 where s0: "fs_exists (root @ ?k) s = (s0, m ?k \<noteq> None)" "leaves root m s0"
      using exists_leaves [OF h k] .
    obtain s1 where "fs_remove_file (root @ ?k) s0 = (s1, Inr ())" "leaves root (m(?k := None)) s1"
      using remove_file_leaves [OF s0(2) k] c by auto
    then show ?thesis using s0(1) c by (simp add: fstore_remove_def message_path_join [OF p] fs_bind_def)
  qed
  show "\<exists>s'. sm_remove (filesystem_store root) p s = (s', Err (NotFound (''File not found: '' @ p))) \<and> leaves root m s'"
    if p: "message_path p" and c: "m ?k = None"
  proof -
    obtain s0 where "fs_exists (root @ ?k) s = (s0, m ?k \<noteq> None)" "leaves root m s0"
      using exists_leaves [OF h message_pathD [OF p]] .
    then show ?thesis using c by (simp add: fstore_remove_def message_path_join [OF p])
  qed
  show "\<exists>s'. sm_write_metadata (filesystem_store root) p d s = (s', Ok ()) \<and> leaves root m s'"
    using h by (simp add: fstore_write_metadata_def)
  show "\<exists>s'. sm_read (filesystem_store root) p s = (s', Ok (m ?k)) \<and> leaves root m s'" if p: "message_path p"
  proof -
    note k = message_pathD [OF p]
    obtain s0 where s0: "fs_exists (root @ ?k) s = (s0, m ?k \<noteq> None)" "leaves root m s0"
      using exists_leaves [OF h k] .
    show ?thesis
    proof (cases "m ?k")
      case None
      then show ?thesis using s0 by (simp add: fstore_read_def message_path_join [OF p])
    next
      case (Some x)
      obtain s1 s2 where "fs_open (root @ ?k) s0 = (s1, Inr ())" "fs_read_file (root @ ?k) s1 = (s2, Inr x)" "leaves root m s2"
        using open_read_leaves [OF s0(2) k Some] .
      then show ?thesis using s0(1) Some by (simp add: fstore_read_def message_path_join [OF p] fs_bind_def)
    qed
  qed
  show "\<exists>s'. sm_exists (filesystem_store root) p s = (s', Ok (m ?k \<noteq> None)) \<and> leaves root m s'" if p: "message_path p"
  proof -
    obtain s0 where "fs_exists (root @ ?k) s = (s0, m ?k \<noteq> None)" "leaves root m s0"
      using exists_leaves [OF h message_pathD [OF p]] .
    then show ?thesis by (simp add: fstore_exists_def message_path_join [OF p])
  qed
qed

section \<open>New names for new flags\<close>

lemma flagged_filename_written:
  "maildir_id i \<Longrightarrow> flagged_filename maildir_format fs (i @ flags_to_filename_component gs) = i @ flags_to_filename_component fs"
proof -
  assume i: "maildir_id i"
  have "(case find_split '':2,'' (i @ flags_to_filename_component gs) of Some (j, rest) \<Rightarrow> j | None \<Rightarrow> i @ flags_to_filename_component gs) = i"
  proof (cases "flag_chars gs = []")
    case True
    then show ?thesis using find_split_absent [of "'':2,''" i] i by (simp add: flags_component maildir_id_def)
  next
    case False
    then show ?thesis using find_split_found [of "'':2,''" i "'':2,'' @ flag_chars gs"] i
      by (simp add: flags_component maildir_id_def)
  qed
  then show ?thesis by (simp add: flagged_filename_def Let_def)
qed

definition seen_dir :: "message_flag list \<Rightarrow> string" where
  "seen_dir fs = (if Seen \<in> set fs then ''cur'' else ''new'')"

lemma plain_dirs [simp]: "plain_name ''new''" "plain_name ''cur''" "plain_name (seen_dir fs)"
  by (simp_all add: plain_name_def seen_dir_def)

lemma flagged_parent_maildir:
  "d \<in> set watch_subdirectories \<Longrightarrow> flagged_parent fs [u, m, d] = [u, m, seen_dir fs]"
  using path_join_name [OF plain_dirs(1), of "[u, m]"] path_join_name [OF plain_dirs(2), of "[u, m]"]
  by (auto simp: flagged_parent_def watch_subdirectories_def path_file_name_def path_parent_def seen_dir_def Let_def)

lemma flagged_path_written:
  assumes "maildir_id i" and "d \<in> set watch_subdirectories" and "plain_name u" and "plain_name m"
  shows "flagged_path maildir_format fs (join_with ''/'' [u, m, d, i @ flags_to_filename_component gs]) =
    Ok (join_with ''/'' [u, m, seen_dir fs, i @ flags_to_filename_component fs])"
proof -
  let ?f = "i @ flags_to_filename_component gs" and ?g = "i @ flags_to_filename_component fs"
  have d: "plain_name d" using maildir.subdirectories_plain [of d] assms(2) by simp
  have names: "\<forall>s\<in>set [u, m, d, ?f]. plain_name s"
    using assms d maildir_filename_plain [OF assms(1)] by simp
  have "path_file_name [u, m, d, ?f] = Some ?f"
    using maildir_filename_plain [OF assms(1), of gs] by (simp add: path_file_name_def plain_name_def)
  moreover have "path_parent [u, m, d, ?f] = Some [u, m, d]" by (simp add: path_parent_def)
  moreover have "path_join [u, m, seen_dir fs] ?g = [u, m, seen_dir fs, ?g]"
    using path_join_name [OF maildir_filename_plain [OF assms(1)], of "[u, m, seen_dir fs]" fs] by simp
  ultimately show ?thesis
    unfolding flagged_path_def path_components_join [OF names] Let_def
    using join_relative [OF names]
    by (simp add: path_to_str_def flagged_parent_maildir [OF assms(2)] flagged_filename_written [OF assms(1)]
        del: join_with.simps)
qed

section \<open>Properties\<close>

text \<open>
  C16: the storage implements a map from message paths to contents: over any run of its writer loop
  on a store in the mail layout, every command is answered as the map answers it, a missing
  source included, and a read afterwards finds exactly what the map holds.
\<close>

theorem storage_implements_map:
  assumes "store_ready root s" and "\<forall>c\<in>set cs. \<forall>p\<in>command_paths c. message_path p" and "message_path p"
  shows "snd (run_loop (storage_exec (filesystem_store root)) storage_stops s cs) =
      snd (run_loop (kv_exec path_components) storage_stops (stored root (fs_tree s)) cs) \<and>
    snd (fstore_read root p (state (fst (run_loop (storage_exec (filesystem_store root)) storage_stops s cs)))) =
      Ok (state (fst (run_loop (kv_exec path_components) storage_stops (stored root (fs_tree s)) cs)) (path_components p))"
  using fstore.run_refines [OF leavesI [OF assms(1)] assms(2)]
    fstore.read_after_run [OF leavesI [OF assms(1)] assms(2,3)] by simp

text \<open>The same with one message written into it.\<close>

definition example_mail_fs :: fs where
  "example_mail_fs = fst (fstore_write [''srv''] ''amy/INBOX/new/17'' [7, 8] example_fs)"

lemma example_mail_fs_leaves:
  "leaves [''srv''] ((stored [''srv''] (fs_tree example_fs))([''amy'', ''INBOX'', ''new'', ''17''] \<mapsto> [7, 8])) example_mail_fs"
  using fstore.write_law [OF leavesI [OF example_fs_ready] example_message_path(2), of "[7, 8]"]
  by (auto simp: example_mail_fs_def example_message_path)

lemma example_mail_fs_ready: "store_ready [''srv''] example_mail_fs"
  using leavesD(1) [OF example_mail_fs_leaves] .

lemma example_mail_fs_stored: "stored [''srv''] (fs_tree example_mail_fs) [''amy'', ''INBOX'', ''new'', ''17''] = Some [7, 8]"
  using leavesD(2) [OF example_mail_fs_leaves] by simp

theorem storage_implements_map_witness:
  "snd (fstore_read [''srv''] ''amy/INBOX/cur/17:2,S'' (state (fst (run_loop (storage_exec (filesystem_store [''srv''])) storage_stops example_fs
     [SC_Write ''amy/INBOX/new/17'' [7, 8], SC_Move ''amy/INBOX/new/17'' ''amy/INBOX/cur/17:2,S'', SC_Remove ''amy/INBOX/new/17''])))) = Ok (Some [7, 8])"
  using storage_implements_map [OF example_fs_ready, of "[SC_Write ''amy/INBOX/new/17'' [7, 8],
      SC_Move ''amy/INBOX/new/17'' ''amy/INBOX/cur/17:2,S'', SC_Remove ''amy/INBOX/new/17'']" "''amy/INBOX/cur/17:2,S''"]
  by (simp add: example_message_path)

text \<open>
  C17: changing a message's flags renames its file and nothing else: the file at the new name holds
  the same bytes, it is parsed as the same message with exactly the new flags that Maildir can
  store, and it is new exactly if it is not seen. All other files stay.
\<close>

theorem update_flags_renames:
  assumes "st_store st = filesystem_store root" and "st_format st = maildir_format" and "alive (st_loop st)"
    and "store_ready root (state (st_loop st))"
    and "maildir_id i" and "d \<in> set watch_subdirectories" and "plain_name u" and "plain_name m"
    and "stored root (fs_tree (state (st_loop st))) [u, m, d, i @ flags_to_filename_component gs] = Some c"
  shows "\<exists>st' k fs'. storage_update_flags [] (join_with ''/'' [u, m, d, i @ flags_to_filename_component gs]) fs st = (st', Ok ()) \<and>
    stored root (fs_tree (state (st_loop st'))) =
      ((stored root (fs_tree (state (st_loop st))))([u, m, d, i @ flags_to_filename_component gs] := None))(k \<mapsto> c) \<and>
    parse_message_path (root @ k) root =
      Some \<lparr>pm_unique_id = i, pm_flags = fs', pm_is_new = (Seen \<notin> set fs), pm_username = u, pm_mailbox = m\<rparr> \<and>
    set fs' = {f \<in> set fs. storable f}"
proof -
  let ?old = "[u, m, d, i @ flags_to_filename_component gs]" and ?new = "[u, m, seen_dir fs, i @ flags_to_filename_component fs]"
  let ?s = "state (st_loop st)"
  have d: "plain_name d" using maildir.subdirectories_plain [of d] assms(6) by simp
  have names: "\<forall>s\<in>set ?old. plain_name s" "\<forall>s\<in>set ?new. plain_name s"
    using assms(7,8) d maildir_filename_plain [OF assms(5)] by simp_all
  obtain s' where s': "sm_move_file (filesystem_store root) (join_with ''/'' ?old) (join_with ''/'' ?new) ?s = (s', Ok ())"
      "leaves root (((stored root (fs_tree ?s))(?old := None))(?new \<mapsto> c)) s'"
    using fstore.move_law [OF leavesI [OF assms(4)] message_path_names(1) [OF names(1)] message_path_names(1) [OF names(2)]]
    unfolding message_path_names(2) [OF names(1)] message_path_names(2) [OF names(2)] using assms(9) by blast
  have "storage_update_flags [] (join_with ''/'' ?old) fs st = (st\<lparr>st_loop := \<lparr>alive = True, state = s'\<rparr>\<rparr>, Ok ())"
    unfolding storage_update_flags_def assms(2) flagged_path_written [OF assms(5,6,7,8)]
    using s'(1) by (simp add: storage_call_def client_op_direct [OF assms(3)] assms(1) del: join_with.simps)
  moreover have "parse_message_path (root @ ?new) root = Some \<lparr>pm_unique_id = i, pm_flags = kept_flags fs,
      pm_is_new = (Seen \<notin> set fs), pm_username = u, pm_mailbox = m\<rparr>"
    using parse_message_path_at [OF assms(5), of root u m "seen_dir fs" fs] by (simp add: seen_dir_def)
  moreover have "stored root (fs_tree (state (st_loop (st\<lparr>st_loop := \<lparr>alive = True, state = s'\<rparr>\<rparr>)))) =
      ((stored root (fs_tree ?s))(?old := None))(?new \<mapsto> c)"
    using leavesD(2) [OF s'(2)] by simp
  ultimately show ?thesis using kept_flags_set [of fs] by blast
qed

theorem update_flags_renames_witness:
  "\<exists>st' k fs'. storage_update_flags [] (join_with ''/'' [''amy'', ''INBOX'', ''new'', ''17'' @ flags_to_filename_component []]) [Seen, Flagged]
      (storage_new (filesystem_store [''srv'']) maildir_format example_mail_fs) = (st', Ok ()) \<and>
    stored [''srv''] (fs_tree (state (st_loop st'))) =
      ((stored [''srv''] (fs_tree (state (st_loop (storage_new (filesystem_store [''srv'']) maildir_format example_mail_fs)))))
        ([''amy'', ''INBOX'', ''new'', ''17'' @ flags_to_filename_component []] := None))(k \<mapsto> [7, 8]) \<and>
    parse_message_path ([''srv''] @ k) [''srv''] =
      Some \<lparr>pm_unique_id = ''17'', pm_flags = fs', pm_is_new = (Seen \<notin> set [Seen, Flagged]), pm_username = ''amy'', pm_mailbox = ''INBOX''\<rparr> \<and>
    set fs' = {f \<in> set [Seen, Flagged]. storable f}"
  by (rule update_flags_renames)
    (simp_all add: storage_new_def example_mail_fs_ready example_mail_fs_stored maildir_id_def plain_name_def watch_subdirectories_def)

section \<open>Confinement\<close>

text \<open>Two trees that agree on everything that is neither below the root nor above it.\<close>

definition off_root :: "path \<Rightarrow> tree \<Rightarrow> tree \<Rightarrow> bool" where
  "off_root root n n' \<longleftrightarrow> (\<forall>q. \<not> prefix root q \<and> \<not> prefix q root \<longrightarrow> n' q = n q)"

lemma off_root_refl [simp, intro]: "off_root root n n"
  by (simp add: off_root_def)

lemma off_root_trans: "off_root root n n' \<Longrightarrow> off_root root n' n'' \<Longrightarrow> off_root root n n''"
  by (simp add: off_root_def)

lemma off_root_update [simp]: "prefix root p \<Longrightarrow> off_root root n (n(p := v))"
  by (auto simp: off_root_def)

lemma create_dir_all_off_root:
  assumes "prefix root p \<or> prefix p root"
  shows "off_root root n (fst (tree_create_dir_all p n))"
proof -
  have "prefix root q \<or> prefix q root" if "prefix q p" for q
    using assms that prefix_same_cases [OF that, of root] prefix_order.trans [OF that, of root] by auto
  then show ?thesis by (auto simp: tree_create_dir_all_def off_root_def)
qed

lemma rename_off_root: "prefix root p \<Longrightarrow> prefix root q \<Longrightarrow> off_root root n (fst (tree_rename p q n))"
  by (auto simp: tree_rename_def off_root_def split: node.split dest: prefix_order.trans)

lemma tree_calls_off_root:
  assumes "prefix root p"
  shows "off_root root n (fst (tree_create_file p n))" and "off_root root n (fst (tree_overwrite p c n))"
    and "off_root root n (fst (tree_remove_file p n))" and "off_root root n (fst (tree_read_file p n))"
  using assms by (auto simp: tree_create_file_def tree_overwrite_def tree_remove_file_def tree_read_file_def
      split: option.split node.split)

definition stays :: "path \<Rightarrow> (fs \<Rightarrow> fs \<times> 'a) \<Rightarrow> bool" where
  "stays root f \<longleftrightarrow> (\<forall>s. off_root root (fs_tree s) (fs_tree (fst (f s))))"

lemma stays_return [simp, intro]: "stays root (\<lambda>s. (s, r))"
  by (simp add: stays_def)

lemma stays_call [intro]: "(\<And>n. off_root root n (fst (f n))) \<Longrightarrow> stays root (fs_call f)"
  by (simp add: stays_def fs_call_def split: option.split prod.split) (metis fst_conv)

lemma stays_bind [intro]:
  assumes "stays root f" and "\<And>x. stays root (k x)"
  shows "stays root (fs_bind f k)"
  unfolding stays_def
proof
  fix s
  obtain s' r where r: "f s = (s', r)" by force
  have "off_root root (fs_tree s) (fs_tree s')" using assms(1) r by (metis fst_conv stays_def)
  then show "off_root root (fs_tree s) (fs_tree (fst (fs_bind f k s)))"
    using assms(2) r off_root_trans by (cases r) (fastforce simp: fs_bind_def stays_def)+
qed

lemma fs_exists_tree [simp]: "fs_tree (fst (fs_exists p s)) = fs_tree s"
  by (simp add: fs_exists_def fs_call_def split: option.split)

lemma stays_exists [intro]:
  assumes "stays root f" and "stays root g"
  shows "stays root (\<lambda>s. case fs_exists p s of (s', b) \<Rightarrow> (case b of True \<Rightarrow> f s' | False \<Rightarrow> g s'))"
  unfolding stays_def
proof
  fix s
  obtain s' b where r: "fs_exists p s = (s', b)" by force
  then have "fs_tree s' = fs_tree s" using fs_exists_tree [of p s] by simp
  then show "off_root root (fs_tree s)
      (fs_tree (fst (case fs_exists p s of (s', b) \<Rightarrow> (case b of True \<Rightarrow> f s' | False \<Rightarrow> g s'))))"
    using assms r by (cases b) (simp_all add: stays_def, metis+)
qed

text \<open>A relative path without \<open>..\<close> components.\<close>

definition inner_path :: "string \<Rightarrow> bool" where
  "inner_path p \<longleftrightarrow> \<not> starts_with p ''/'' \<and> ''..'' \<notin> set (path_components p)"

lemma inner_path_join: "''..'' \<notin> set root \<Longrightarrow> inner_path p \<Longrightarrow> resolve (path_join root p) = root @ path_components p"
  by (simp add: path_join_def inner_path_def)

lemma stays_create_parent:
  assumes "''..'' \<notin> set root" and "inner_path p"
  shows "stays root (create_parent (path_join root p))"
proof (cases "path_parent (path_join root p)")
  case (Some q)
  let ?k = "path_components p"
  have q: "q = butlast (root @ ?k)"
    using Some assms(2) by (auto simp: path_parent_def path_join_def inner_path_def split: if_splits)
  have "''..'' \<notin> set q" using assms unfolding q by (auto simp: inner_path_def dest: in_set_butlastD)
  moreover have "prefix root q \<or> prefix q root" unfolding q
    by (cases "?k = []") (simp_all add: butlast_append prefixeq_butlast)
  ultimately have "stays root (fs_create_dir_all q)"
    unfolding fs_create_dir_all_def by (intro stays_call) (simp add: create_dir_all_off_root)
  then show ?thesis by (simp add: create_parent_def Some stays_def)
qed (simp add: create_parent_def stays_def)

lemma store_stays:
  assumes "''..'' \<notin> set root" and "inner_path p" and "inner_path q"
  shows "stays root (fstore_write root p c)" and "stays root (fstore_move_file root p q)"
    and "stays root (fstore_remove root p)" and "stays root (fstore_write_metadata root p c)"
proof -
  note r = inner_path_join [OF assms(1,2)] and rq = inner_path_join [OF assms(1,3)]
  show "stays root (fstore_write root p c)"
    unfolding fstore_write_def Let_def fs_create_file_def fs_write_all_def fs_sync_all_def r
    by (intro stays_bind stays_call stays_return stays_create_parent assms tree_calls_off_root) auto
  show "stays root (fstore_move_file root p q)"
    unfolding fstore_move_file_def Let_def fs_rename_def r rq
    by (intro stays_exists stays_bind stays_call stays_return stays_create_parent assms rename_off_root) auto
  show "stays root (fstore_remove root p)"
    unfolding fstore_remove_def Let_def fs_remove_file_def r
    by (intro stays_exists stays_bind stays_call stays_return tree_calls_off_root) auto
  show "stays root (fstore_write_metadata root p c)"
    by (simp add: stays_def fstore_write_metadata_def)
qed

lemma storage_exec_off_root:
  assumes "''..'' \<notin> set root" and "\<forall>p\<in>command_paths c. inner_path p"
  shows "off_root root (fs_tree s) (fs_tree (fst (storage_exec (filesystem_store root) s c)))"
  using store_stays [OF assms(1)] assms(2) by (cases c) (simp_all add: stays_def case_prod_beta)

text \<open>
  C18: the storage stays below its root: over any run of commands whose paths are relative and
  without \<open>..\<close> components, calls that fail half-way included, nothing of the file system
  changes except what lies below the root and the directories that lead to it.
\<close>

theorem storage_confined:
  assumes "''..'' \<notin> set root" and "\<forall>c\<in>set cs. \<forall>p\<in>command_paths c. inner_path p"
    and "\<not> prefix root q" and "\<not> prefix q root"
  shows "fs_tree (state (fst (run_loop (storage_exec (filesystem_store root)) storage_stops s cs))) q = fs_tree s q"
proof -
  have "off_root root (fs_tree s) (fs_tree (state (fst (run_loop (storage_exec (filesystem_store root)) storage_stops s cs))))"
    using assms(2)
  proof (induction cs arbitrary: s)
    case (Cons c cs)
    have "off_root root (fs_tree s) (fs_tree (fst (storage_exec (filesystem_store root) s c)))"
      using storage_exec_off_root [OF assms(1)] Cons.prems by simp
    then show ?case using off_root_trans [OF _ Cons.IH] Cons.prems
      by (simp add: run_loop_Cons_fst del: run_loop.simps(2))
  qed simp
  then show ?thesis using assms(3,4) by (simp add: off_root_def)
qed

theorem storage_confined_witness:
  "fs_tree (state (fst (run_loop (storage_exec (filesystem_store [''srv''])) storage_stops example_fs
     [SC_Write ''etc/hosts'' [2], SC_Move ''etc/hosts'' ''etc'', SC_Remove []]))) [''etc'', ''hosts''] = fs_tree example_fs [''etc'', ''hosts'']"
proof (rule storage_confined)
  have "inner_path ''etc/hosts'' \<and> inner_path ''etc'' \<and> inner_path []" by code_simp
  then show "\<forall>c\<in>set [SC_Write ''etc/hosts'' [2], SC_Move ''etc/hosts'' ''etc'', SC_Remove []]. \<forall>p\<in>command_paths c. inner_path p"
    by simp
qed simp_all

lemma create_dirs_there:
  assumes "tree_wf n" and "n p = Some Dir"
  shows "tree_create_dir_all p n = (n, Inr ())"
proof -
  have above: "n q = Some Dir" if "prefix q p" for q
  proof -
    obtain r where "p = q @ r" using \<open>prefix q p\<close> by (auto simp: prefix_def)
    then show ?thesis using tree_wf_prefix [OF assms(1), of q r] assms(2) by (cases "r = []") auto
  qed
  then have "\<not> (\<exists>q\<in>set (prefixes p). n q \<noteq> None \<and> n q \<noteq> Some Dir)" by auto
  moreover have "(\<lambda>q. if prefix q p then Some Dir else n q) = n" using above by auto
  ultimately show ?thesis unfolding tree_create_dir_all_def by (simp only: if_False)
qed

lemma path_to_str_absolute: "\<forall>x\<in>set q. plain_name x \<Longrightarrow> path_join root (path_to_str True q) = q"
proof -
  assume q: "\<forall>x\<in>set q. plain_name x"
  have "path_components (''/'' @ join_with ''/'' q) = path_components (join_with ''/'' q)"
    by (simp add: path_components_def)
  then show ?thesis using path_components_join [OF q]
    by (simp add: path_join_def path_to_str_def starts_with_def del: join_with.simps)
qed

text \<open>
  An absolute path replaces the root: storing under it overwrites any file of the file system
  the process may write, wherever the root is.
\<close>

theorem absolute_path_escapes:
  assumes "faultless s" and "tree_wf (fs_tree s)" and "fs_tree s (butlast q) = Some Dir" and "fs_tree s q = Some (File old)"
    and "\<forall>x\<in>set q. plain_name x"
  shows "\<exists>s'. fstore_write root (path_to_str True q) c s = (s', Ok ()) \<and> fs_tree s' = (fs_tree s)(q \<mapsto> File c)"
proof -
  have "''..'' \<notin> set q" using assms(5) by (auto simp: plain_name_def)
  then have q: "resolve q = q" "resolve (butlast q) = butlast q" by (auto intro!: resolve_plain dest: in_set_butlastD)
  have q0: "q \<noteq> []" using assms(2,4) by (auto simp: tree_wf_def)
  note j = path_to_str_absolute [OF assms(5), of root]
  have "create_parent q s = (s\<lparr>fs_calls := fs_calls s + 1\<rparr>, Inr ())"
    using q q0 create_dirs_there [OF assms(2,3)]
    by (simp add: fs_call_faultless [OF assms(1)] create_parent_def path_parent_def fs_create_dir_all_def)
  then show ?thesis
    using q q0 assms(1,3,4) j
    by (simp add: fstore_write_def fs_bind_def fs_create_file_def fs_write_all_def fs_sync_all_def fs_call_faultless
        tree_create_file_def tree_overwrite_def Let_def)
qed

theorem absolute_path_escapes_witness:
  "\<exists>s'. fstore_write [''srv''] (path_to_str True [''etc'', ''hosts'']) [9] example_fs = (s', Ok ()) \<and>
    fs_tree s' = (fs_tree example_fs)([''etc'', ''hosts''] \<mapsto> File [9])"
  using example_fs_ready
  by (intro absolute_path_escapes) (simp_all add: store_ready_def mail_layout_def plain_name_def example_fs_def)

end
