(* ===== verification/Event_Bus.thy ===== *)
theory Event_Bus
  imports Core_Types
begin

text \<open>
  src/events.rs: the publish-subscribe bus, its loop and its handle. A subscriber's channel is
  known by the subscription; whether it takes one more delivery at the moment of a
  publication (it is neither full nor closed) is part of the publish command, as is what
  becomes of each acknowledgement: sent, given up by dropping it, or neither, ever. The loop
  waits for acknowledgements, so it can block: its result says so.
\<close>

section \<open>Events\<close>

record new_message =
  nm_username :: string
  nm_mailbox :: string
  nm_unique_id :: string
  nm_path :: string
  nm_flags :: "message_flag list"
  nm_is_new :: bool
  nm_from :: string
  nm_to :: string
  nm_subject :: string
  nm_body_preview :: string
  nm_size :: nat
  nm_internal_date :: datetime

datatype event =
    Ev_MailboxCreated string string
  | Ev_MailboxDeleted string string
  | Ev_MailboxRenamed string string string
  | Ev_MessageCreated new_message
  | Ev_MessageModified string string string "message_flag list"
  | Ev_MessageDeleted string string string

datatype event_kind =
    K_MailboxCreated | K_MailboxDeleted | K_MailboxRenamed | K_MessageCreated | K_MessageModified | K_MessageDeleted

fun event_kind_of :: "event \<Rightarrow> event_kind" where
  "event_kind_of (Ev_MailboxCreated u m) = K_MailboxCreated"
| "event_kind_of (Ev_MailboxDeleted u m) = K_MailboxDeleted"
| "event_kind_of (Ev_MailboxRenamed u m n) = K_MailboxRenamed"
| "event_kind_of (Ev_MessageCreated m) = K_MessageCreated"
| "event_kind_of (Ev_MessageModified u m i f) = K_MessageModified"
| "event_kind_of (Ev_MessageDeleted u m i) = K_MessageDeleted"

datatype subscription_type = Sub_Async | Sub_Sync

datatype event_delivery = Del_Async event | Del_Sync event

fun delivery_event :: "event_delivery \<Rightarrow> event" where
  "delivery_event (Del_Async e) = e"
| "delivery_event (Del_Sync e) = e"

text \<open>\<open>acknowledge\<close>: whether it sends an acknowledgement.\<close>

fun delivery_acknowledge :: "event_delivery \<Rightarrow> bool" where
  "delivery_acknowledge (Del_Sync e) = True"
| "delivery_acknowledge (Del_Async e) = False"

section \<open>The loop\<close>

type_synonym subscription_id = uuid

datatype ack_fate = Acked | Ack_Dropped | Ack_Never

datatype bus_command =
    BC_Publish event "subscription_id \<Rightarrow> bool"
  | BC_PublishSync event "subscription_id \<Rightarrow> bool" "subscription_id \<Rightarrow> ack_fate"
  | BC_Subscribe "event_kind list" subscription_type subscription_id
  | BC_Unsubscribe subscription_id
  | BC_Shutdown

record subscriber =
  sub_kinds :: "event_kind list"
  sub_type :: subscription_type

type_synonym subscribers = "(subscription_id \<times> subscriber) list"
type_synonym deliveries = "(subscription_id \<times> event_delivery) list"

definition handle_publish_async :: "event \<Rightarrow> (subscription_id \<Rightarrow> bool) \<Rightarrow> subscribers \<Rightarrow> deliveries" where
  "handle_publish_async ev accepts subs =
     [(i, Del_Async ev). (i, s) \<leftarrow> subs, event_kind_of ev \<in> set (sub_kinds s), accepts i]"

text \<open>
  The result of the synchronous case: the deliveries, and the subscriptions whose
  acknowledgement the loop then awaits, which it notes before it tries to deliver.
\<close>

definition handle_publish_sync ::
  "event \<Rightarrow> (subscription_id \<Rightarrow> bool) \<Rightarrow> subscribers \<Rightarrow> deliveries \<times> subscription_id list" where
  "handle_publish_sync ev accepts subs =
     ([(i, case sub_type s of Sub_Async \<Rightarrow> Del_Async ev | Sub_Sync \<Rightarrow> Del_Sync ev).
         (i, s) \<leftarrow> subs, event_kind_of ev \<in> set (sub_kinds s), accepts i],
      [i. (i, s) \<leftarrow> subs, event_kind_of ev \<in> set (sub_kinds s), sub_type s = Sub_Sync])"

text \<open>
  An acknowledgement channel whose delivery failed is dropped with the delivery; waiting for
  it ends at once. It does not end for a delivery that is kept and never acknowledged.
\<close>

definition awaits_end :: "(subscription_id \<Rightarrow> bool) \<Rightarrow> (subscription_id \<Rightarrow> ack_fate) \<Rightarrow> subscription_id list \<Rightarrow> bool" where
  "awaits_end accepts fate ids \<longleftrightarrow> (\<forall>i\<in>set ids. accepts i \<longrightarrow> fate i \<noteq> Ack_Never)"

datatype bus_reply = BR_Unit "unit result" | BR_Id "subscription_id result" | BR_Stopped

datatype bus_phase = Bus_Running | Bus_Stopped | Bus_Blocked

fun bus_exec :: "subscribers \<Rightarrow> bus_command \<Rightarrow> subscribers \<times> bus_reply option \<times> deliveries \<times> bus_phase" where
  "bus_exec subs (BC_Publish ev acc) = (subs, Some (BR_Unit (Ok ())), handle_publish_async ev acc subs, Bus_Running)"
| "bus_exec subs (BC_PublishSync ev acc fate) =
     (case handle_publish_sync ev acc subs of (ds, ids) \<Rightarrow>
        if awaits_end acc fate ids then (subs, Some (BR_Unit (Ok ())), ds, Bus_Running)
        else (subs, None, ds, Bus_Blocked))"
| "bus_exec subs (BC_Subscribe ks ty i) =
     (AList.update i \<lparr>sub_kinds = ks, sub_type = ty\<rparr> subs, Some (BR_Id (Ok i)), [], Bus_Running)"
| "bus_exec subs (BC_Unsubscribe i) = (AList.delete i subs, Some (BR_Unit (Ok ())), [], Bus_Running)"
| "bus_exec subs BC_Shutdown = (subs, Some BR_Stopped, [], Bus_Stopped)"

record bus =
  bus_phase :: bus_phase
  bus_subs :: subscribers
  bus_sent :: deliveries

definition bus_new :: bus where
  "bus_new = \<lparr>bus_phase = Bus_Running, bus_subs = [], bus_sent = []\<rparr>"

text \<open>One command at the loop, and the loop over what its channel receives, with the replies.\<close>

definition bus_step :: "bus_command \<Rightarrow> bus \<Rightarrow> bus \<times> bus_reply option" where
  "bus_step c b = (case bus_phase b of
     Bus_Running \<Rightarrow> (case bus_exec (bus_subs b) c of (subs, r, ds, p) \<Rightarrow>
        (\<lparr>bus_phase = p, bus_subs = subs, bus_sent = bus_sent b @ ds\<rparr>, r))
   | _ \<Rightarrow> (b, None))"

fun event_bus_loop :: "bus_command list \<Rightarrow> bus \<Rightarrow> bus \<times> bus_reply option list" where
  "event_bus_loop [] b = (b, [])"
| "event_bus_loop (c # cs) b =
     (case bus_step c b of (b', r) \<Rightarrow> case event_bus_loop cs b' of (b'', rs) \<Rightarrow> (b'', r # rs))"

section \<open>The handle\<close>

text \<open>
  A call: \<open>pending\<close> are the commands ahead of it in the channel. None is a call that never
  returns, because the loop is blocked. On a stopped bus the send fails; when the bus stops
  before it comes to the call, the reply channel is dropped.
\<close>

definition bus_call :: "(bus_reply \<Rightarrow> 'a result) \<Rightarrow> bus_command list \<Rightarrow> bus_command \<Rightarrow> bus \<Rightarrow> bus \<times> 'a result option" where
  "bus_call view pending c b =
     (if bus_phase b = Bus_Stopped then (b, Some (Err (Internal ''Event bus stopped'')))
      else let b1 = fst (event_bus_loop pending b) in
        (case bus_step c b1 of
           (b2, Some r) \<Rightarrow> (b2, Some (view r))
         | (b2, None) \<Rightarrow>
             (b2, if bus_phase b2 = Bus_Stopped then Some (Err (Internal ''Event bus dropped reply'')) else None)))"

fun br_unit :: "bus_reply \<Rightarrow> unit result" where "br_unit (BR_Unit r) = r"
fun br_id :: "bus_reply \<Rightarrow> subscription_id result" where "br_id (BR_Id r) = r"

definition publish :: "bus_command list \<Rightarrow> event \<Rightarrow> (subscription_id \<Rightarrow> bool) \<Rightarrow> bus \<Rightarrow> bus \<times> unit result option" where
  "publish pending ev acc = bus_call br_unit pending (BC_Publish ev acc)"

definition publish_sync :: "bus_command list \<Rightarrow> event \<Rightarrow> (subscription_id \<Rightarrow> bool) \<Rightarrow> (subscription_id \<Rightarrow> ack_fate) \<Rightarrow>
    bus \<Rightarrow> bus \<times> unit result option" where
  "publish_sync pending ev acc fate = bus_call br_unit pending (BC_PublishSync ev acc fate)"

definition subscribe_with_type :: "bus_command list \<Rightarrow> event_kind list \<Rightarrow> subscription_type \<Rightarrow> subscription_id \<Rightarrow>
    bus \<Rightarrow> bus \<times> subscription_id result option" where
  "subscribe_with_type pending ks ty i = bus_call br_id pending (BC_Subscribe ks ty i)"

definition bus_subscribe :: "bus_command list \<Rightarrow> event_kind list \<Rightarrow> subscription_id \<Rightarrow> bus \<Rightarrow> bus \<times> subscription_id result option" where
  "bus_subscribe pending ks = subscribe_with_type pending ks Sub_Async"

definition bus_subscribe_sync :: "bus_command list \<Rightarrow> event_kind list \<Rightarrow> subscription_id \<Rightarrow> bus \<Rightarrow> bus \<times> subscription_id result option" where
  "bus_subscribe_sync pending ks = subscribe_with_type pending ks Sub_Sync"

definition bus_unsubscribe :: "bus_command list \<Rightarrow> subscription_id \<Rightarrow> bus \<Rightarrow> bus \<times> unit result option" where
  "bus_unsubscribe pending i = bus_call br_unit pending (BC_Unsubscribe i)"

text \<open>Shutdown ignores both channel errors.\<close>

definition bus_shutdown :: "bus_command list \<Rightarrow> bus \<Rightarrow> bus \<times> unit result option" where
  "bus_shutdown pending b = (case bus_call (\<lambda>_. Ok ()) pending BC_Shutdown b of
     (b', None) \<Rightarrow> (b', None) | (b', Some _) \<Rightarrow> (b', Some (Ok ())))"

lemmas bus_handle_defs = publish_def publish_sync_def subscribe_with_type_def bus_subscribe_def bus_subscribe_sync_def
  bus_unsubscribe_def bus_shutdown_def bus_call_def

section \<open>Invariant and deliveries\<close>

text \<open>One entry per subscription.\<close>

definition bus_inv :: "bus \<Rightarrow> bool" where
  "bus_inv b \<longleftrightarrow> al_wf (bus_subs b)"

lemma bus_step_inv: "bus_inv b \<Longrightarrow> bus_inv (fst (bus_step c b))"
  by (cases "bus_phase b"; cases c) (simp_all add: bus_inv_def bus_step_def case_prod_beta)

lemma event_bus_loop_inv: "bus_inv b \<Longrightarrow> bus_inv (fst (event_bus_loop cs b))"
proof (induction cs arbitrary: b)
  case (Cons c cs)
  then show ?case using bus_step_inv [of b c] by (simp add: case_prod_beta)
qed simp

lemma bus_inv_new [simp]: "bus_inv bus_new"
  by (simp add: bus_inv_def bus_new_def)

text \<open>The deliveries of a command, of either publish mode.\<close>

definition deliveries_of :: "bus_command \<Rightarrow> subscribers \<Rightarrow> deliveries" where
  "deliveries_of c subs = (case bus_exec subs c of (_, _, ds, _) \<Rightarrow> ds)"

text \<open>What one subscription is sent.\<close>

definition sent_to_sub :: "subscription_id \<Rightarrow> deliveries \<Rightarrow> event list" where
  "sent_to_sub i ds = map (delivery_event \<circ> snd) (filter (\<lambda>d. fst d = i) ds)"

lemma sent_to_sub_append [simp]: "sent_to_sub i (ds @ es) = sent_to_sub i ds @ sent_to_sub i es"
  by (simp add: sent_to_sub_def)

lemma sent_to_sub_publish:
  assumes "al_wf subs"
    and "f = (\<lambda>i s. Del_Async ev) \<or> f = (\<lambda>i s. case sub_type s of Sub_Async \<Rightarrow> Del_Async ev | Sub_Sync \<Rightarrow> Del_Sync ev)"
  shows "sent_to_sub i [(i, f i s). (i, s) \<leftarrow> subs, event_kind_of ev \<in> set (sub_kinds s), accepts i] =
    (case map_of subs i of Some s \<Rightarrow> if event_kind_of ev \<in> set (sub_kinds s) \<and> accepts i then [ev] else [] | None \<Rightarrow> [])"
  using assms(1)
proof (induction subs)
  case (Cons e subs)
  obtain j s where e: "e = (j, s)" by force
  have ev: "delivery_event (f i s) = ev" for i s using assms(2) by (auto split: subscription_type.split)
  have "j \<notin> fst ` set subs" "al_wf subs" using Cons.prems e by (auto simp: al_wf_def)
  moreover have "map_of subs j = None" using calculation by (simp add: map_of_eq_None_iff)
  ultimately show ?case using Cons.IH by (auto simp: e sent_to_sub_def ev split: option.splits)
qed (simp add: sent_to_sub_def)

lemma publish_async_sent:
  "al_wf subs \<Longrightarrow> sent_to_sub i (handle_publish_async ev acc subs) =
    (case map_of subs i of Some s \<Rightarrow> if event_kind_of ev \<in> set (sub_kinds s) \<and> acc i then [ev] else [] | None \<Rightarrow> [])"
  using sent_to_sub_publish [of subs "\<lambda>i s. Del_Async ev" ev i acc] by (simp add: handle_publish_async_def)

lemma publish_sync_sent:
  "al_wf subs \<Longrightarrow> sent_to_sub i (fst (handle_publish_sync ev acc subs)) =
    (case map_of subs i of Some s \<Rightarrow> if event_kind_of ev \<in> set (sub_kinds s) \<and> acc i then [ev] else [] | None \<Rightarrow> [])"
  using sent_to_sub_publish [of subs "\<lambda>i s. case sub_type s of Sub_Async \<Rightarrow> Del_Async ev | Sub_Sync \<Rightarrow> Del_Sync ev" ev i acc]
  by (simp add: handle_publish_sync_def)

lemma sync_ids:
  "al_wf subs \<Longrightarrow> i \<in> set (snd (handle_publish_sync ev acc subs)) \<longleftrightarrow>
    (\<exists>s. map_of subs i = Some s \<and> event_kind_of ev \<in> set (sub_kinds s) \<and> sub_type s = Sub_Sync)"
  by (auto simp: handle_publish_sync_def al_wf_map_of)

section \<open>Properties\<close>

text \<open>
  What a subscription is to receive from a sequence of commands, given its entry so far: the
  published events of its kinds that its channel takes, while it is subscribed.
\<close>

fun expected_events :: "subscription_id \<Rightarrow> subscriber option \<Rightarrow> bus_command list \<Rightarrow> event list" where
  "expected_events i st [] = []"
| "expected_events i st (BC_Publish ev acc # cs) =
     (case st of Some s \<Rightarrow> if event_kind_of ev \<in> set (sub_kinds s) \<and> acc i then [ev] else [] | None \<Rightarrow> [])
     @ expected_events i st cs"
| "expected_events i st (BC_PublishSync ev acc fate # cs) =
     (case st of Some s \<Rightarrow> if event_kind_of ev \<in> set (sub_kinds s) \<and> acc i then [ev] else [] | None \<Rightarrow> [])
     @ expected_events i st cs"
| "expected_events i st (BC_Subscribe ks ty j # cs) =
     expected_events i (if j = i then Some \<lparr>sub_kinds = ks, sub_type = ty\<rparr> else st) cs"
| "expected_events i st (BC_Unsubscribe j # cs) = expected_events i (if j = i then None else st) cs"
| "expected_events i st (BC_Shutdown # cs) = []"

lemma loop_not_running: "bus_phase b \<noteq> Bus_Running \<Longrightarrow> fst (event_bus_loop cs b) = b"
  by (induction cs) (auto simp: bus_step_def split: bus_phase.splits prod.split)

text \<open>
  C13: every subscriber receives exactly the events that were published while it was subscribed,
  of the kinds it asked for and when its channel had room, each once and in the order of
  publication, whatever else happens on the bus.
\<close>

theorem bus_delivers_in_order:
  assumes "bus_phase b = Bus_Running" and "bus_inv b" and "bus_phase (fst (event_bus_loop cs b)) \<noteq> Bus_Blocked"
  shows "sent_to_sub i (bus_sent (fst (event_bus_loop cs b))) =
    sent_to_sub i (bus_sent b) @ expected_events i (map_of (bus_subs b) i) cs"
  using assms
proof (induction cs arbitrary: b)
  case (Cons c cs)
  obtain b' r where s: "bus_step c b = (b', r)" by force
  have wf: "al_wf (bus_subs b)" using Cons.prems(2) by (simp add: bus_inv_def)
  have inv: "bus_inv b'" using bus_step_inv [OF Cons.prems(2), of c] s by simp
  have nb: "bus_phase (fst (event_bus_loop cs b')) \<noteq> Bus_Blocked" using Cons.prems(3) s by (simp add: case_prod_beta)
  have end': "fst (event_bus_loop (c # cs) b) = fst (event_bus_loop cs b')" using s by (simp add: case_prod_beta)
  show ?case
  proof (cases "bus_phase b' = Bus_Running")
    case True
    then show ?thesis
      using Cons.IH [OF True inv nb] s Cons.prems(1) publish_async_sent [OF wf] publish_sync_sent [OF wf]
      unfolding end' by (cases c) (auto simp: bus_step_def case_prod_beta split: if_splits)
  next
    case False
    then have "b' = fst (event_bus_loop cs b')" by (simp add: loop_not_running)
    then show ?thesis using s Cons.prems(1) False nb
      unfolding end' by (cases c) (auto simp: bus_step_def case_prod_beta split: if_splits)
  qed
qed simp

text \<open>An event and two subscriptions for the examples.\<close>

definition example_bus :: bus where
  "example_bus = fst (event_bus_loop [BC_Subscribe [K_MailboxCreated] Sub_Sync ''s1'', BC_Subscribe [K_MailboxCreated, K_MailboxDeleted] Sub_Async ''s2''] bus_new)"

lemma example_bus_simps [simp]:
  "bus_phase example_bus = Bus_Running" "bus_sent example_bus = []"
  "bus_subs example_bus = [(''s1'', \<lparr>sub_kinds = [K_MailboxCreated], sub_type = Sub_Sync\<rparr>),
     (''s2'', \<lparr>sub_kinds = [K_MailboxCreated, K_MailboxDeleted], sub_type = Sub_Async\<rparr>)]"
  by (simp_all add: example_bus_def bus_step_def bus_new_def)

lemma example_bus_inv [simp]: "bus_inv example_bus"
  unfolding example_bus_def by (rule event_bus_loop_inv) simp

theorem bus_delivers_in_order_witness:
  "sent_to_sub ''s2'' (bus_sent (fst (event_bus_loop
     [BC_Publish (Ev_MailboxCreated ''a'' ''x'') (\<lambda>_. True), BC_PublishSync (Ev_MailboxDeleted ''a'' ''x'') (\<lambda>_. True) (\<lambda>_. Acked)]
     example_bus))) = [Ev_MailboxCreated ''a'' ''x'', Ev_MailboxDeleted ''a'' ''x'']"
proof -
  let ?cs = "[BC_Publish (Ev_MailboxCreated ''a'' ''x'') (\<lambda>_. True), BC_PublishSync (Ev_MailboxDeleted ''a'' ''x'') (\<lambda>_. True) (\<lambda>_. Acked)]"
  have "bus_phase (fst (event_bus_loop ?cs example_bus)) \<noteq> Bus_Blocked"
    by (simp add: bus_step_def handle_publish_sync_def awaits_end_def)
  then show ?thesis using bus_delivers_in_order [of example_bus ?cs "''s2''"] by (simp add: sent_to_sub_def)
qed

text \<open>
  C30: a synchronous publication returns if and only if every synchronous subscriber that got the
  event acknowledges it or drops it; then it reports success.
\<close>

theorem publish_sync_returns_iff:
  assumes "bus_phase b = Bus_Running" and "bus_inv b"
  shows "snd (publish_sync [] ev acc fate b) =
    (if \<forall>i s. map_of (bus_subs b) i = Some s \<and> sub_type s = Sub_Sync \<and> event_kind_of ev \<in> set (sub_kinds s) \<and> acc i
          \<longrightarrow> fate i \<noteq> Ack_Never
     then Some (Ok ()) else None)"
proof -
  have wf: "al_wf (bus_subs b)" using assms(2) by (simp add: bus_inv_def)
  have e: "awaits_end acc fate (snd (handle_publish_sync ev acc (bus_subs b))) \<longleftrightarrow>
    (\<forall>i s. map_of (bus_subs b) i = Some s \<and> sub_type s = Sub_Sync \<and> event_kind_of ev \<in> set (sub_kinds s) \<and> acc i
          \<longrightarrow> fate i \<noteq> Ack_Never)"
    unfolding awaits_end_def Ball_def sync_ids [OF wf] by blast
  have "snd (publish_sync [] ev acc fate b) =
      (if awaits_end acc fate (snd (handle_publish_sync ev acc (bus_subs b))) then Some (Ok ()) else None)"
    using assms(1) by (simp add: bus_handle_defs bus_step_def case_prod_beta)
  then show ?thesis by (simp only: e)
qed

theorem publish_sync_returns_iff_witness:
  "snd (publish_sync [] (Ev_MailboxCreated ''a'' ''x'') (\<lambda>_. True) (\<lambda>_. Acked) example_bus) = Some (Ok ()) \<and>
   snd (publish_sync [] (Ev_MailboxCreated ''a'' ''x'') (\<lambda>_. True) (\<lambda>_. Ack_Never) example_bus) = None"
proof -
  let ?ev = "Ev_MailboxCreated ''a'' ''x''"
  have "\<not> (\<forall>i s. map_of (bus_subs example_bus) i = Some s \<and> sub_type s = Sub_Sync \<and>
      event_kind_of ?ev \<in> set (sub_kinds s) \<and> True \<longrightarrow> Ack_Never \<noteq> Ack_Never)"
    by (intro notI, drule spec [of _ "''s1''"], drule spec [of _ "\<lparr>sub_kinds = [K_MailboxCreated], sub_type = Sub_Sync\<rparr>"]) simp
  then have "snd (publish_sync [] ?ev (\<lambda>_. True) (\<lambda>_. Ack_Never) example_bus) = None"
    using publish_sync_returns_iff [OF example_bus_simps(1) example_bus_inv, of ?ev "\<lambda>_. True" "\<lambda>_. Ack_Never"]
    by (simp only: if_False)
  moreover have "snd (publish_sync [] ?ev (\<lambda>_. True) (\<lambda>_. Acked) example_bus) = Some (Ok ())"
    using publish_sync_returns_iff [OF example_bus_simps(1) example_bus_inv, of ?ev "\<lambda>_. True" "\<lambda>_. Acked"]
    by (simp only: ack_fate.distinct simp_thms if_True)
  ultimately show ?thesis by blast
qed



text \<open>
  A synchronous subscriber whose channel is full or closed does not hold a synchronous
  publication up: the publication succeeds although the subscriber never gets the event, and
  the number of subscribers reached can be smaller than the number of acknowledgements
  counted, of which the code takes the difference.
\<close>

theorem publish_sync_skips_full_subscriber:
  assumes "bus_phase b = Bus_Running" and "bus_inv b"
    and "map_of (bus_subs b) i = Some s" and "sub_type s = Sub_Sync" and "event_kind_of ev \<in> set (sub_kinds s)"
    and "\<forall>j. \<not> acc j"
  shows "publish_sync [] ev acc fate b = (b, Some (Ok ())) \<and>
    (case handle_publish_sync ev acc (bus_subs b) of (delivered, acks) \<Rightarrow> length delivered < length acks)"
proof -
  have wf: "al_wf (bus_subs b)" using assms(2) by (simp add: bus_inv_def)
  have "fst (handle_publish_sync ev acc (bus_subs b)) = []"
    using assms(6) by (auto simp: handle_publish_sync_def)
  moreover have "i \<in> set (snd (handle_publish_sync ev acc (bus_subs b)))"
    using sync_ids [OF wf] assms(3-5) by blast
  ultimately show ?thesis using assms(1,6)
    by (cases b) (auto simp: bus_handle_defs bus_step_def case_prod_beta awaits_end_def split: if_splits)
qed

theorem publish_sync_skips_full_subscriber_witness:
  "publish_sync [] (Ev_MailboxCreated ''a'' ''x'') (\<lambda>_. False) (\<lambda>_. Ack_Never) example_bus = (example_bus, Some (Ok ()))"
  using publish_sync_skips_full_subscriber [of example_bus "''s1''" "\<lparr>sub_kinds = [K_MailboxCreated], sub_type = Sub_Sync\<rparr>"
      "Ev_MailboxCreated ''a'' ''x''" "\<lambda>_. False" "\<lambda>_. Ack_Never"] by simp

end
