(* ===== verification/Watcher.thy ===== *)
theory Watcher
  imports Storage Event_Bus
begin

text \<open>
  src/mailstore/watcher/filesystem.rs: the watcher that turns changes of the mail store into
  events. The notify, mailparse and chrono crates are parameters: whether a watch can be set
  or removed, the order of a directory's entries and the time come with each step, the mail
  parser with the watcher. Publishing ignores its result, so the events that the watcher
  publishes are kept as a list. The lock around the shared state is not modelled: commands
  and file system events are steps.
\<close>

section \<open>State\<close>

record mail =
  mail_headers :: "(string \<times> string) list"
  mail_body :: "string option"

type_synonym mail_parser = "bytes \<Rightarrow> mail option"

record watcher_env =
  we_watch :: "path \<Rightarrow> string + unit"
  we_unwatch :: "path \<Rightarrow> string + unit"
  we_entries :: "tree \<Rightarrow> path \<Rightarrow> string list"
  we_now :: "path \<Rightarrow> datetime"

record watcher =
  wa_fs :: fs
  wa_watched_mailboxes :: "(string \<times> string) \<rightharpoonup> path"
  wa_path_to_mailbox :: "path \<rightharpoonup> (string \<times> string)"
  wa_published :: "event list"

record watcher_config =
  wc_root :: path
  wc_format :: mailbox_format
  wc_parse_mail :: mail_parser

definition wa_call :: "(fs \<Rightarrow> fs \<times> 'a) \<Rightarrow> watcher \<Rightarrow> watcher \<times> 'a" where
  "wa_call f w = (case f (wa_fs w) of (s, r) \<Rightarrow> (w\<lparr>wa_fs := s\<rparr>, r))"

definition wa_publish :: "event \<Rightarrow> watcher \<Rightarrow> watcher" where
  "wa_publish ev w = w\<lparr>wa_published := wa_published w @ [ev]\<rparr>"

section \<open>Events of a message\<close>

definition header_value :: "string \<Rightarrow> mail \<Rightarrow> string" where
  "header_value key email =
     (case find (\<lambda>(k, v). eq_ignore_ascii_case k key) (mail_headers email) of Some (k, v) \<Rightarrow> v | None \<Rightarrow> [])"

definition body_preview :: "mail \<Rightarrow> string" where
  "body_preview email = take 200 (case mail_body email of Some b \<Rightarrow> b | None \<Rightarrow> [])"

definition event_flags :: "parsed_message \<Rightarrow> message_flag list" where
  "event_flags parsed = (if pm_is_new parsed then pm_flags parsed @ [Recent] else pm_flags parsed)"

definition message_event_path :: "string \<Rightarrow> string \<Rightarrow> string \<Rightarrow> string" where
  "message_event_path u m i = u @ ''/'' @ m @ ''/'' @ i"

definition created_event :: "string \<Rightarrow> string \<Rightarrow> parsed_message \<Rightarrow> mail \<Rightarrow> bytes \<Rightarrow> datetime \<Rightarrow> event" where
  "created_event username mailbox parsed email content now = Ev_MessageCreated
     \<lparr>nm_username = username, nm_mailbox = mailbox, nm_unique_id = pm_unique_id parsed,
      nm_path = message_event_path username mailbox (pm_unique_id parsed),
      nm_flags = event_flags parsed, nm_is_new = pm_is_new parsed,
      nm_from = header_value ''from'' email, nm_to = header_value ''to'' email,
      nm_subject = header_value ''subject'' email, nm_body_preview = body_preview email,
      nm_size = length content, nm_internal_date = now\<rparr>"

section \<open>Watch and unwatch\<close>

definition fs_read_dir :: "(tree \<Rightarrow> path \<Rightarrow> string list) \<Rightarrow> path \<Rightarrow> fs \<Rightarrow> fs \<times> (string + string list)" where
  "fs_read_dir entries p = fs_call (\<lambda>n. (n, if n (resolve p) = Some Dir then Inr (entries n (resolve p)) else Inl ''Not a directory''))"

definition fs_next_entry :: "fs \<Rightarrow> fs \<times> (string + unit)" where
  "fs_next_entry = fs_call (\<lambda>n. (n, Inr ()))"

definition fs_is_file :: "path \<Rightarrow> fs \<Rightarrow> fs \<times> (string + bool)" where
  "fs_is_file p = fs_call (\<lambda>n. (n, case n (resolve p) of
     None \<Rightarrow> Inl ''No such file or directory'' | Some (File c) \<Rightarrow> Inr True | Some Dir \<Rightarrow> Inr False))"

text \<open>One entry of a directory; \<open>now p\<close> is the time when its event is made.\<close>

definition scan_entry :: "watcher_config \<Rightarrow> (path \<Rightarrow> datetime) \<Rightarrow> string \<Rightarrow> string \<Rightarrow> path \<Rightarrow> watcher \<Rightarrow> watcher \<times> unit result" where
  "scan_entry cfg now username mailbox p w =
     (case wa_call (fs_is_file p) w of
        (w, Inl e) \<Rightarrow> (w, Err (Io e))
      | (w, Inr False) \<Rightarrow> (w, Ok ())
      | (w, Inr True) \<Rightarrow>
          (case mf_parse_message_path (wc_format cfg) p (wc_root cfg) of
             None \<Rightarrow> (w, Ok ())
           | Some parsed \<Rightarrow>
               (case wa_call (fs_read_file p) w of
                  (w, Inl e) \<Rightarrow> (w, Err (Io e))
                | (w, Inr content) \<Rightarrow>
                    (case wc_parse_mail cfg content of
                       None \<Rightarrow> (w, Ok ())
                     | Some email \<Rightarrow> (wa_publish (created_event username mailbox parsed email content (now p)) w, Ok ())))))"

text \<open>The entries of one directory; asking for the next one, the end included, can fail.\<close>

fun scan_entries :: "watcher_config \<Rightarrow> (path \<Rightarrow> datetime) \<Rightarrow> string \<Rightarrow> string \<Rightarrow> path \<Rightarrow> string list \<Rightarrow> watcher \<Rightarrow> watcher \<times> unit result" where
  "scan_entries cfg now u m dir [] w =
     (case wa_call fs_next_entry w of (w, Inl e) \<Rightarrow> (w, Err (Io e)) | (w, Inr _) \<Rightarrow> (w, Ok ()))"
| "scan_entries cfg now u m dir (f # fs) w =
     (case wa_call fs_next_entry w of
        (w, Inl e) \<Rightarrow> (w, Err (Io e))
      | (w, Inr _) \<Rightarrow>
          (case scan_entry cfg now u m (dir @ [f]) w of
             (w, Err e) \<Rightarrow> (w, Err e)
           | (w, Ok _) \<Rightarrow> scan_entries cfg now u m dir fs w))"

fun scan_subdirs :: "watcher_config \<Rightarrow> watcher_env \<Rightarrow> string \<Rightarrow> string \<Rightarrow> string list \<Rightarrow> watcher \<Rightarrow> watcher \<times> unit result" where
  "scan_subdirs cfg env u m [] w = (w, Ok ())"
| "scan_subdirs cfg env u m (d # ds) w =
     (let dir = path_join (path_join (path_join (wc_root cfg) u) m) d in
      case wa_call (fs_exists dir) w of
        (w, False) \<Rightarrow> scan_subdirs cfg env u m ds w
      | (w, True) \<Rightarrow>
          (case wa_call (fs_read_dir (we_entries env) dir) w of
             (w, Inl e) \<Rightarrow> (w, Err (Io e))
           | (w, Inr fs) \<Rightarrow>
               (case scan_entries cfg (we_now env) u m dir fs w of
                  (w, Err e) \<Rightarrow> (w, Err e)
                | (w, Ok _) \<Rightarrow> scan_subdirs cfg env u m ds w)))"

definition scan_existing_messages :: "watcher_config \<Rightarrow> watcher_env \<Rightarrow> string \<Rightarrow> string \<Rightarrow> watcher \<Rightarrow> watcher \<times> unit result" where
  "scan_existing_messages cfg env u m = scan_subdirs cfg env u m (mf_watch_subdirectories (wc_format cfg))"

fun create_subdirs :: "path \<Rightarrow> string list \<Rightarrow> watcher \<Rightarrow> watcher \<times> (string + unit)" where
  "create_subdirs mailbox_path [] w = (w, Inr ())"
| "create_subdirs mailbox_path (d # ds) w =
     (let dir = path_join mailbox_path d in
      case wa_call (fs_exists dir) w of
        (w, True) \<Rightarrow> create_subdirs mailbox_path ds w
      | (w, False) \<Rightarrow>
          (case wa_call (fs_create_dir_all dir) w of
             (w, Inl e) \<Rightarrow> (w, Inl e)
           | (w, Inr _) \<Rightarrow> create_subdirs mailbox_path ds w))"

definition handle_watch :: "watcher_config \<Rightarrow> watcher_env \<Rightarrow> string \<Rightarrow> string \<Rightarrow> watcher \<Rightarrow> watcher \<times> unit result" where
  "handle_watch cfg env username mailbox w =
     (let mailbox_path = path_join (path_join (wc_root cfg) username) mailbox in
      case create_subdirs mailbox_path (mf_watch_subdirectories (wc_format cfg)) w of
        (w, Inl e) \<Rightarrow> (w, Err (Io e))
      | (w, Inr _) \<Rightarrow>
          (case we_watch env mailbox_path of
             Inl e \<Rightarrow> (w, Err (Internal (''Failed to watch directory: '' @ e)))
           | Inr _ \<Rightarrow>
               (case scan_existing_messages cfg env username mailbox
                  (w\<lparr>wa_watched_mailboxes := (wa_watched_mailboxes w)((username, mailbox) \<mapsto> mailbox_path),
                     wa_path_to_mailbox := (wa_path_to_mailbox w)(mailbox_path \<mapsto> (username, mailbox))\<rparr>) of
                  (w, Err e) \<Rightarrow> (w, Err e)
                | (w, Ok _) \<Rightarrow> (w, Ok ()))))"

definition handle_unwatch :: "watcher_env \<Rightarrow> string \<Rightarrow> string \<Rightarrow> watcher \<Rightarrow> watcher \<times> unit result" where
  "handle_unwatch env username mailbox w =
     (case wa_watched_mailboxes w (username, mailbox) of
        Some p \<Rightarrow>
          (let w = w\<lparr>wa_watched_mailboxes := (wa_watched_mailboxes w)((username, mailbox) := None)\<rparr> in
           case we_unwatch env p of
             Inl e \<Rightarrow> (w, Err (Internal (''Failed to unwatch directory: '' @ e)))
           | Inr _ \<Rightarrow> (w\<lparr>wa_path_to_mailbox := (wa_path_to_mailbox w)(p := None)\<rparr>, Ok ()))
      | None \<Rightarrow> (w, Err (NotFound (''Mailbox not being watched: '' @ username @ ''/'' @ mailbox))))"

section \<open>File system events\<close>

datatype event_class = EC_Create | EC_Modify | EC_Remove | EC_Other

record notify_event =
  ne_kind :: event_class
  ne_paths :: "path list"

definition handle_create_event :: "watcher_config \<Rightarrow> datetime \<Rightarrow> path \<Rightarrow> watcher \<Rightarrow> watcher" where
  "handle_create_event cfg now p w =
     (case mf_parse_message_path (wc_format cfg) p (wc_root cfg) of
        None \<Rightarrow> w
      | Some parsed \<Rightarrow>
          (case wa_call (fs_exists p) w of
             (w, False) \<Rightarrow> w
           | (w, True) \<Rightarrow>
               (case wa_call (fs_read_file p) w of
                  (w, Inl e) \<Rightarrow> w
                | (w, Inr content) \<Rightarrow>
                    (case wc_parse_mail cfg content of
                       None \<Rightarrow> w
                     | Some email \<Rightarrow>
                         wa_publish (created_event (pm_username parsed) (pm_mailbox parsed) parsed email content now) w))))"

definition handle_modify_event :: "watcher_config \<Rightarrow> path \<Rightarrow> watcher \<Rightarrow> watcher" where
  "handle_modify_event cfg p w =
     (case mf_parse_message_path (wc_format cfg) p (wc_root cfg) of
        None \<Rightarrow> w
      | Some parsed \<Rightarrow>
          wa_publish (Ev_MessageModified (pm_username parsed) (pm_mailbox parsed) (pm_unique_id parsed) (event_flags parsed)) w)"

definition handle_remove_event :: "watcher_config \<Rightarrow> path \<Rightarrow> watcher \<Rightarrow> watcher" where
  "handle_remove_event cfg p w =
     (case mf_parse_message_path (wc_format cfg) p (wc_root cfg) of
        None \<Rightarrow> w
      | Some parsed \<Rightarrow>
          wa_publish (Ev_MessageDeleted (pm_username parsed) (pm_mailbox parsed) (pm_unique_id parsed)) w)"

text \<open>No branch of the three handlers returns an error, so neither does this one.\<close>

definition handle_filesystem_event :: "watcher_config \<Rightarrow> datetime \<Rightarrow> notify_event \<Rightarrow> watcher \<Rightarrow> watcher" where
  "handle_filesystem_event cfg now ev =
     (case ne_kind ev of
        EC_Create \<Rightarrow> fold (handle_create_event cfg now) (ne_paths ev)
      | EC_Modify \<Rightarrow> fold (handle_modify_event cfg) (ne_paths ev)
      | EC_Remove \<Rightarrow> fold (handle_remove_event cfg) (ne_paths ev)
      | EC_Other \<Rightarrow> id)"

fun event_processor :: "watcher_config \<Rightarrow> (datetime \<times> notify_event result) list \<Rightarrow> watcher \<Rightarrow> watcher" where
  "event_processor cfg [] w = w"
| "event_processor cfg ((now, Ok ev) # evs) w = event_processor cfg evs (handle_filesystem_event cfg now ev w)"
| "event_processor cfg ((now, Err e) # evs) w = event_processor cfg evs w"

section \<open>The command loop and the handle\<close>

datatype watch_command =
    WT_Watch watcher_env string string
  | WT_Unwatch watcher_env string string
  | WT_Shutdown

datatype watch_reply = WTR_Unit "unit result" | WTR_Stopped

fun watcher_exec :: "watcher_config \<Rightarrow> watcher \<Rightarrow> watch_command \<Rightarrow> watcher \<times> watch_reply" where
  "watcher_exec cfg w (WT_Watch env u m) = (case handle_watch cfg env u m w of (w', r) \<Rightarrow> (w', WTR_Unit r))"
| "watcher_exec cfg w (WT_Unwatch env u m) = (case handle_unwatch env u m w of (w', r) \<Rightarrow> (w', WTR_Unit r))"
| "watcher_exec cfg w WT_Shutdown = (w, WTR_Stopped)"

fun watcher_stops :: "watch_command \<Rightarrow> bool" where
  "watcher_stops WT_Shutdown = True"
| "watcher_stops _ = False"

fun wtr_unit :: "watch_reply \<Rightarrow> unit result" where
  "wtr_unit (WTR_Unit r) = r"

text \<open>
  The start of the watcher; the loop ends at once when the notify watcher cannot be created.
\<close>

definition watcher_new :: "path \<Rightarrow> string + unit \<Rightarrow> fs \<Rightarrow> watcher actor result" where
  "watcher_new root watcher_result s =
     (let started = \<lambda>s. Ok \<lparr>alive = (case watcher_result of Inl e \<Rightarrow> False | Inr _ \<Rightarrow> True),
        state = \<lparr>wa_fs = s, wa_watched_mailboxes = Map.empty, wa_path_to_mailbox = Map.empty, wa_published = []\<rparr>\<rparr>
      in case fs_exists root s of
        (s, True) \<Rightarrow> started s
      | (s, False) \<Rightarrow> (case fs_create_dir_all root s of (s, Inl e) \<Rightarrow> Err (Io e) | (s, Inr _) \<Rightarrow> started s))"

definition watcher_call :: "watcher_config \<Rightarrow> watch_command list \<Rightarrow> watch_command \<Rightarrow> watcher actor \<Rightarrow> watcher actor \<times> unit result" where
  "watcher_call cfg = client_op (watcher_exec cfg) watcher_stops (Internal ''Watcher loop stopped'')
     (Internal ''Watcher loop dropped reply'') wtr_unit"

definition watch_mailbox :: "watcher_config \<Rightarrow> watch_command list \<Rightarrow> watcher_env \<Rightarrow> string \<Rightarrow> string \<Rightarrow> watcher actor \<Rightarrow> watcher actor \<times> unit result" where
  "watch_mailbox cfg pending env u m = watcher_call cfg pending (WT_Watch env u m)"

definition unwatch_mailbox :: "watcher_config \<Rightarrow> watch_command list \<Rightarrow> watcher_env \<Rightarrow> string \<Rightarrow> string \<Rightarrow> watcher actor \<Rightarrow> watcher actor \<times> unit result" where
  "unwatch_mailbox cfg pending env u m = watcher_call cfg pending (WT_Unwatch env u m)"

definition watcher_shutdown :: "watcher_config \<Rightarrow> watch_command list \<Rightarrow> watcher actor \<Rightarrow> watcher actor \<times> unit result" where
  "watcher_shutdown cfg pending a =
     (fst (client_call (watcher_exec cfg) watcher_stops a pending WT_Shutdown), Ok ())"

section \<open>The watched mailboxes\<close>

definition mailbox_dir :: "watcher_config \<Rightarrow> string \<times> string \<Rightarrow> path" where
  "mailbox_dir cfg b = path_join (path_join (wc_root cfg) (fst b)) (snd b)"

definition plain_box :: "string \<times> string \<Rightarrow> bool" where
  "plain_box b \<longleftrightarrow> plain_name (fst b) \<and> plain_name (snd b)"

lemma mailbox_dir_plain: "plain_box (u, m) \<Longrightarrow> mailbox_dir cfg (u, m) = wc_root cfg @ [u, m]"
  by (simp add: mailbox_dir_def plain_box_def path_join_name)

lemma mailbox_dir_inj: "plain_box b \<Longrightarrow> plain_box c \<Longrightarrow> mailbox_dir cfg b = mailbox_dir cfg c \<longleftrightarrow> b = c"
  by (cases b; cases c) (auto simp: mailbox_dir_plain)

text \<open>Both maps know the same mailboxes, each under its directory.\<close>

definition watched_inv :: "watcher_config \<Rightarrow> watcher \<Rightarrow> bool" where
  "watched_inv cfg w \<longleftrightarrow> (\<forall>b p. wa_watched_mailboxes w b = Some p \<longrightarrow> plain_box b \<and> p = mailbox_dir cfg b) \<and>
     map_inverse (wa_watched_mailboxes w) (wa_path_to_mailbox w)"

definition same_maps :: "watcher \<Rightarrow> watcher \<Rightarrow> bool" where
  "same_maps w w' \<longleftrightarrow> wa_watched_mailboxes w' = wa_watched_mailboxes w \<and> wa_path_to_mailbox w' = wa_path_to_mailbox w"

lemma same_maps_refl [simp, intro]: "same_maps w w"
  by (simp add: same_maps_def)

lemma same_maps_trans: "same_maps w w' \<Longrightarrow> same_maps w' w'' \<Longrightarrow> same_maps w w''"
  by (simp add: same_maps_def)

lemma same_maps_publish [simp, intro]: "same_maps w (wa_publish ev w)"
  by (simp add: same_maps_def wa_publish_def)

lemma wa_call_maps: "wa_call f w = (w', r) \<Longrightarrow> same_maps w w'"
  by (auto simp: wa_call_def same_maps_def split: prod.splits)

lemma create_subdirs_maps: "create_subdirs p ds w = (w', r) \<Longrightarrow> same_maps w w'"
proof (induction p ds w rule: create_subdirs.induct)
  case (2 p d ds w)
  obtain w1 b where w1: "wa_call (fs_exists (path_join p d)) w = (w1, b)" by force
  show ?case
  proof (cases b)
    case True
    then show ?thesis using 2 w1 wa_call_maps [OF w1] by (auto simp: Let_def intro: same_maps_trans)
  next
    case False
    obtain w2 r2 where w2: "wa_call (fs_create_dir_all (path_join p d)) w1 = (w2, r2)" by force
    then show ?thesis using 2 w1 False wa_call_maps [OF w1] wa_call_maps [OF w2]
      by (cases r2) (auto simp: Let_def intro: same_maps_trans)
  qed
qed simp

lemma scan_entry_maps: "scan_entry cfg now u m p w = (w', r) \<Longrightarrow> same_maps w w'"
proof -
  assume s: "scan_entry cfg now u m p w = (w', r)"
  obtain w1 r1 where w1: "wa_call (fs_is_file p) w = (w1, r1)" by force
  obtain w2 r2 where w2: "wa_call (fs_read_file p) w1 = (w2, r2)" by force
  show ?thesis using s w1 w2 wa_call_maps [OF w1] wa_call_maps [OF w2]
    by (auto simp: scan_entry_def split: sum.splits bool.splits option.splits
        intro: same_maps_trans same_maps_trans [OF _ same_maps_publish])
qed

lemma scan_entries_maps: "scan_entries cfg now u m dir fs w = (w', r) \<Longrightarrow> same_maps w w'"
proof (induction cfg now u m dir fs w rule: scan_entries.induct)
  case (1 cfg now u m dir w)
  obtain w1 r1 where w1: "wa_call fs_next_entry w = (w1, r1)" by force
  then show ?case using 1 wa_call_maps [OF w1] by (cases r1) auto
next
  case (2 cfg now u m dir f fs w)
  obtain w1 r1 where w1: "wa_call fs_next_entry w = (w1, r1)" by force
  show ?case
  proof (cases r1)
    case (Inl e)
    then show ?thesis using 2(2) w1 wa_call_maps [OF w1] by simp
  next
    case (Inr x)
    obtain w2 r2 where w2: "scan_entry cfg now u m (dir @ [f]) w1 = (w2, r2)" by force
    have "same_maps w w2" using wa_call_maps [OF w1] scan_entry_maps [OF w2] by (rule same_maps_trans)
    then show ?thesis using 2(1) [OF w1 [symmetric] Inr w2 [symmetric]] 2(2) w1 w2 Inr
      by (cases r2) (auto intro: same_maps_trans)
  qed
qed

lemma scan_subdirs_maps: "scan_subdirs cfg env u m ds w = (w', r) \<Longrightarrow> same_maps w w'"
proof (induction ds arbitrary: w)
  case (Cons d ds)
  let ?dir = "path_join (path_join (path_join (wc_root cfg) u) m) d"
  obtain w1 b where w1: "wa_call (fs_exists ?dir) w = (w1, b)" by force
  obtain w2 r2 where w2: "wa_call (fs_read_dir (we_entries env) ?dir) w1 = (w2, r2)" by force
  note s1 = wa_call_maps [OF w1] and s2 = same_maps_trans [OF wa_call_maps [OF w1] wa_call_maps [OF w2]]
  show ?case
  proof (cases "b \<and> (\<exists>fs. r2 = Inr fs)")
    case False
    then show ?thesis using Cons w1 w2 s1 s2 by (cases b; cases r2) (auto simp: Let_def intro: same_maps_trans)
  next
    case True
    then obtain fs where fs: "r2 = Inr fs" by blast
    obtain w3 r3 where w3: "scan_entries cfg (we_now env) u m ?dir fs w2 = (w3, r3)" by force
    have "same_maps w w3" using s2 scan_entries_maps [OF w3] by (rule same_maps_trans)
    then show ?thesis using Cons w1 w2 w3 True fs by (cases r3) (auto simp: Let_def intro: same_maps_trans)
  qed
qed simp

fun watch_command_ok :: "watch_command \<Rightarrow> bool" where
  "watch_command_ok (WT_Watch env u m) = plain_box (u, m)"
| "watch_command_ok (WT_Unwatch env u m) = (\<forall>p. \<exists>x. we_unwatch env p = Inr x)"
| "watch_command_ok WT_Shutdown = True"

lemma watched_inv_same: "same_maps w w' \<Longrightarrow> watched_inv cfg w \<Longrightarrow> watched_inv cfg w'"
  by (simp add: same_maps_def watched_inv_def)

lemma watched_inv_insert:
  assumes "watched_inv cfg w" and "plain_box b"
  shows "watched_inv cfg (w\<lparr>wa_watched_mailboxes := (wa_watched_mailboxes w)(b \<mapsto> mailbox_dir cfg b),
    wa_path_to_mailbox := (wa_path_to_mailbox w)(mailbox_dir cfg b \<mapsto> b)\<rparr>)"
proof -
  have "wa_watched_mailboxes w c = Some p \<longleftrightarrow> wa_path_to_mailbox w p = Some c" for c p
    using assms(1) unfolding watched_inv_def map_inverse_def by blast
  moreover have "wa_watched_mailboxes w c = Some (mailbox_dir cfg b) \<Longrightarrow> c = b" for c
    using assms mailbox_dir_inj unfolding watched_inv_def by blast
  moreover have "wa_watched_mailboxes w b = Some p \<Longrightarrow> p = mailbox_dir cfg b" for p
    using assms unfolding watched_inv_def by blast
  ultimately show ?thesis using assms by (auto simp: watched_inv_def map_inverse_def split: if_splits)
qed

lemma watched_inv_watch:
  assumes "watched_inv cfg w" and "plain_box (u, m)" and "handle_watch cfg env u m w = (w', r)"
  shows "watched_inv cfg w'"
proof -
  let ?p = "mailbox_dir cfg (u, m)"
  have p: "path_join (path_join (wc_root cfg) u) m = ?p" by (simp add: mailbox_dir_def)
  obtain w1 r1 where w1: "create_subdirs ?p (mf_watch_subdirectories (wc_format cfg)) w = (w1, r1)" by force
  have i1: "watched_inv cfg w1" using watched_inv_same [OF create_subdirs_maps [OF w1] assms(1)] .
  let ?w = "w1\<lparr>wa_watched_mailboxes := (wa_watched_mailboxes w1)((u, m) \<mapsto> ?p), wa_path_to_mailbox := (wa_path_to_mailbox w1)(?p \<mapsto> (u, m))\<rparr>"
  obtain w2 r2 where w2: "scan_existing_messages cfg env u m ?w = (w2, r2)" by force
  have "watched_inv cfg w2"
    using watched_inv_same [OF _ watched_inv_insert [OF i1 assms(2)]] w2 scan_subdirs_maps
    unfolding scan_existing_messages_def by blast
  then show ?thesis using assms(3) w1 w2 i1
    by (auto simp: handle_watch_def p Let_def split: sum.splits)
qed

lemma watched_inv_unwatch:
  assumes "watched_inv cfg w" and "\<forall>p. \<exists>x. we_unwatch env p = Inr x" and "handle_unwatch env u m w = (w', r)"
  shows "watched_inv cfg w'"
proof (cases "wa_watched_mailboxes w (u, m)")
  case (Some p)
  obtain x where x: "we_unwatch env p = Inr x" using assms(2) by blast
  have "map_inverse ((wa_watched_mailboxes w)((u, m) := None)) ((wa_path_to_mailbox w)(p := None))"
    using map_inverse_remove [where f = "wa_watched_mailboxes w" and a = "(u, m)", OF _ Some] assms(1)
    unfolding watched_inv_def by blast
  then show ?thesis using assms(1,3) Some x by (auto simp: handle_unwatch_def watched_inv_def Let_def split: if_splits)
qed (use assms in \<open>simp add: handle_unwatch_def\<close>)


text \<open>
  A mailbox whose watch the notify crate fails to stop is forgotten all the same: the watcher
  still holds its directory in the other map, and asking again is answered with not found.
\<close>

theorem failed_unwatch_forgets:
  assumes "wa_watched_mailboxes w (u, m) = Some p" and "wa_path_to_mailbox w p = Some (u, m)" and "we_unwatch env p = Inl e"
  shows "\<exists>w'. handle_unwatch env u m w = (w', Err (Internal (''Failed to unwatch directory: '' @ e))) \<and>
    wa_watched_mailboxes w' (u, m) = None \<and> wa_path_to_mailbox w' p = Some (u, m) \<and>
    handle_unwatch env' u m w' = (w', Err (NotFound (''Mailbox not being watched: '' @ u @ ''/'' @ m)))"
  using assms by (simp add: handle_unwatch_def Let_def)

text \<open>The examples' watcher: an empty store, a listing in which every directory is empty, a parser that takes any bytes.\<close>

definition example_config :: watcher_config where
  "example_config = \<lparr>wc_root = [''srv''], wc_format = maildir_format, wc_parse_mail = \<lambda>c. Some \<lparr>mail_headers = [], mail_body = None\<rparr>\<rparr>"

definition example_watcher :: watcher where
  "example_watcher = \<lparr>wa_fs = example_fs, wa_watched_mailboxes = Map.empty, wa_path_to_mailbox = Map.empty, wa_published = []\<rparr>"

definition example_env :: watcher_env where
  "example_env = \<lparr>we_watch = \<lambda>p. Inr (), we_unwatch = \<lambda>p. Inr (), we_entries = \<lambda>n p. [], we_now = \<lambda>p. 0\<rparr>"


theorem failed_unwatch_forgets_witness:
  "\<exists>w'. handle_unwatch (example_env\<lparr>we_unwatch := \<lambda>p. Inl ''gone''\<rparr>) ''amy'' ''INBOX''
      (example_watcher\<lparr>wa_watched_mailboxes := [(''amy'', ''INBOX'') \<mapsto> [''srv'']], wa_path_to_mailbox := [[''srv''] \<mapsto> (''amy'', ''INBOX'')]\<rparr>) =
      (w', Err (Internal (''Failed to unwatch directory: '' @ ''gone''))) \<and> wa_watched_mailboxes w' (''amy'', ''INBOX'') = None"
proof -
  have "\<exists>w'. handle_unwatch (example_env\<lparr>we_unwatch := \<lambda>p. Inl ''gone''\<rparr>) ''amy'' ''INBOX''
      (example_watcher\<lparr>wa_watched_mailboxes := [(''amy'', ''INBOX'') \<mapsto> [''srv'']], wa_path_to_mailbox := [[''srv''] \<mapsto> (''amy'', ''INBOX'')]\<rparr>) =
      (w', Err (Internal (''Failed to unwatch directory: '' @ ''gone''))) \<and>
    wa_watched_mailboxes w' (''amy'', ''INBOX'') = None \<and> wa_path_to_mailbox w' [''srv''] = Some (''amy'', ''INBOX'') \<and>
    handle_unwatch example_env ''amy'' ''INBOX'' w' = (w', Err (NotFound (''Mailbox not being watched: '' @ ''amy'' @ ''/'' @ ''INBOX'')))"
    by (rule failed_unwatch_forgets) simp_all
  then show ?thesis by blast
qed

section \<open>Scanning a mailbox\<close>

text \<open>A directory listing that names the entries of the directory.\<close>

definition true_listing :: "(tree \<Rightarrow> path \<Rightarrow> string list) \<Rightarrow> tree \<Rightarrow> path \<Rightarrow> bool" where
  "true_listing entries n p \<longleftrightarrow> set (entries n p) = {f. n (p @ [f]) \<noteq> None \<and> f \<noteq> ''..''}"

text \<open>The event that the scan publishes for a file.\<close>

definition scan_event :: "watcher_config \<Rightarrow> (path \<Rightarrow> datetime) \<Rightarrow> string \<Rightarrow> string \<Rightarrow> path \<Rightarrow> bytes \<Rightarrow> event option" where
  "scan_event cfg now u m p c =
     (case mf_parse_message_path (wc_format cfg) p (wc_root cfg) of
        None \<Rightarrow> None
      | Some parsed \<Rightarrow> map_option (\<lambda>email. created_event u m parsed email c (now p)) (wc_parse_mail cfg c))"

lemma publish_fields [simp]:
  "wa_fs (wa_publish ev w) = wa_fs w" "wa_published (wa_publish ev w) = wa_published w @ [ev]"
  by (simp_all add: wa_publish_def)

text \<open>A step of the scan on a ready store: it succeeds, publishes these events and leaves the files.\<close>

definition scans :: "path \<Rightarrow> (path \<rightharpoonup> bytes) \<Rightarrow> watcher \<Rightarrow> event list \<Rightarrow> watcher \<times> unit result \<Rightarrow> bool" where
  "scans root n w es x \<longleftrightarrow> snd x = Ok () \<and> leaves root n (wa_fs (fst x)) \<and> fs_tree (wa_fs (fst x)) = fs_tree (wa_fs w) \<and>
     wa_published (fst x) = wa_published w @ es"

lemma ready_keep:
  assumes "leaves root n (wa_fs w)" and "f (fs_tree (wa_fs w)) = (fs_tree (wa_fs w), r)"
  obtains w' where "wa_call (fs_call f) w = (w', r)" and "leaves root n (wa_fs w')"
    and "fs_tree (wa_fs w') = fs_tree (wa_fs w)" and "wa_published w' = wa_published w"
proof -
  obtain s where "fs_call f (wa_fs w) = (s, r)" "leaves root n s" "fs_tree s = fs_tree (wa_fs w)"
    using call_keeps_leaves [where f = f, OF assms] .
  then show thesis by (intro that [of "w\<lparr>wa_fs := s\<rparr>"]) (simp_all add: wa_call_def)
qed

lemma scan_entry_scans:
  assumes l: "leaves (wc_root cfg) n (wa_fs w)" and k: "message_key k" and c: "n k = Some c"
  shows "scans (wc_root cfg) n w (case scan_event cfg now u m (wc_root cfg @ k) c of None \<Rightarrow> [] | Some e \<Rightarrow> [e])
    (scan_entry cfg now u m (wc_root cfg @ k) w)"
proof -
  let ?p = "wc_root cfg @ k"
  have e: "fs_tree (wa_fs w) ?p = Some (File c)" using leaves_entry [OF l k] c by simp
  note res = leaves_resolve [OF l k]
  obtain w1 where w1: "wa_call (fs_is_file ?p) w = (w1, Inr True)" "leaves (wc_root cfg) n (wa_fs w1)"
      "fs_tree (wa_fs w1) = fs_tree (wa_fs w)" "wa_published w1 = wa_published w"
    using ready_keep [where f = "\<lambda>n. (n, case n (resolve ?p) of None \<Rightarrow> Inl ''No such file or directory'' | Some (File c) \<Rightarrow> Inr True | Some Dir \<Rightarrow> Inr False)"
        and r = "Inr True", OF l] e unfolding fs_is_file_def res by auto
  obtain w2 where w2: "wa_call (fs_read_file ?p) w1 = (w2, Inr c)" "leaves (wc_root cfg) n (wa_fs w2)"
      "fs_tree (wa_fs w2) = fs_tree (wa_fs w)" "wa_published w2 = wa_published w"
    using ready_keep [where f = "tree_read_file ?p" and r = "Inr c", OF w1(2)] e w1(3,4)
    unfolding fs_read_file_def res by (auto simp: tree_read_file_def)
  show ?thesis using w1 w2
    by (auto simp: scan_entry_def scan_event_def scans_def split: option.split)
qed

lemma scans_then:
  assumes "scans root n w es x" and "\<And>w'. leaves root n (wa_fs w') \<Longrightarrow> fs_tree (wa_fs w') = fs_tree (wa_fs w) \<Longrightarrow> scans root n w' fs (k w')"
  shows "scans root n w (es @ fs) (case x of (w', Err e) \<Rightarrow> (w', Err e) | (w', Ok _) \<Rightarrow> k w')"
proof -
  obtain w' where x: "x = (w', Ok ())" using assms(1) by (cases x) (simp add: scans_def)
  then have "scans root n w' fs (k w')" using assms by (simp add: scans_def)
  then show ?thesis using assms(1) x by (simp add: scans_def)
qed

definition file_events :: "watcher_config \<Rightarrow> (path \<Rightarrow> datetime) \<Rightarrow> string \<Rightarrow> string \<Rightarrow> (path \<rightharpoonup> bytes) \<Rightarrow> path \<Rightarrow> event list" where
  "file_events cfg now u m n k = (case n k of None \<Rightarrow> []
     | Some c \<Rightarrow> (case scan_event cfg now u m (wc_root cfg @ k) c of None \<Rightarrow> [] | Some e \<Rightarrow> [e]))"

lemma in_file_events: "e \<in> set (file_events cfg now u m n k) \<longleftrightarrow>
    (\<exists>c. n k = Some c \<and> scan_event cfg now u m (wc_root cfg @ k) c = Some e)"
  by (cases "n k") (auto simp: file_events_def split: option.split)

lemma next_entry_ready:
  assumes "leaves root n (wa_fs w)"
  obtains w' where "wa_call fs_next_entry w = (w', Inr ())" and "leaves root n (wa_fs w')"
    and "fs_tree (wa_fs w') = fs_tree (wa_fs w)" and "wa_published w' = wa_published w"
  using ready_keep [where f = "\<lambda>n. (n, Inr ())" and r = "Inr ()", OF assms] unfolding fs_next_entry_def by blast

lemma scan_entries_scans:
  assumes "leaves (wc_root cfg) n (wa_fs w)" and "\<forall>f\<in>set fs. message_key (d @ [f]) \<and> n (d @ [f]) \<noteq> None"
  shows "scans (wc_root cfg) n w (concat (map (\<lambda>f. file_events cfg now u m n (d @ [f])) fs))
    (scan_entries cfg now u m (wc_root cfg @ d) fs w)"
  using assms
proof (induction fs arbitrary: w)
  case Nil
  obtain w' where "wa_call fs_next_entry w = (w', Inr ())" "leaves (wc_root cfg) n (wa_fs w')"
      "fs_tree (wa_fs w') = fs_tree (wa_fs w)" "wa_published w' = wa_published w"
    using next_entry_ready [OF Nil(1)] .
  then show ?case by (simp add: scans_def)
next
  case (Cons f fs)
  obtain w1 where w1: "wa_call fs_next_entry w = (w1, Inr ())" "leaves (wc_root cfg) n (wa_fs w1)"
      "fs_tree (wa_fs w1) = fs_tree (wa_fs w)" "wa_published w1 = wa_published w"
    using next_entry_ready [OF Cons.prems(1)] .
  obtain c where c: "n (d @ [f]) = Some c" using Cons.prems(2) by auto
  have "scans (wc_root cfg) n w1 (file_events cfg now u m n (d @ [f])) (scan_entry cfg now u m (wc_root cfg @ (d @ [f])) w1)"
    using scan_entry_scans [OF w1(2) _ c] Cons.prems(2) c by (simp add: file_events_def)
  then have "scans (wc_root cfg) n w1 (file_events cfg now u m n (d @ [f]) @ concat (map (\<lambda>f. file_events cfg now u m n (d @ [f])) fs))
      (case scan_entry cfg now u m (wc_root cfg @ (d @ [f])) w1 of (w', Err e) \<Rightarrow> (w', Err e)
       | (w', Ok _) \<Rightarrow> scan_entries cfg now u m (wc_root cfg @ d) fs w')"
    by (rule scans_then) (use Cons in simp)
  then show ?case using w1(1,3,4) by (simp add: scans_def)
qed

definition dir_events :: "watcher_config \<Rightarrow> (path \<Rightarrow> datetime) \<Rightarrow> string \<Rightarrow> string \<Rightarrow> (path \<rightharpoonup> bytes) \<Rightarrow> string \<Rightarrow> event set" where
  "dir_events cfg now u m n d =
     {e. \<exists>f c. f \<noteq> ''..'' \<and> n [u, m, d, f] = Some c \<and> scan_event cfg now u m (wc_root cfg @ [u, m, d, f]) c = Some e}"

lemma scan_dir_scans:
  assumes l: "leaves (wc_root cfg) n (wa_fs w)" and names: "plain_name u" "plain_name m" "plain_name d"
    and t: "fs_tree (wa_fs w) (wc_root cfg @ [u, m, d]) = Some Dir" and list: "true_listing entries (fs_tree (wa_fs w)) (wc_root cfg @ [u, m, d])"
  shows "\<exists>es. set es = dir_events cfg now u m n d \<and>
    scans (wc_root cfg) n w es (scan_entries cfg now u m (wc_root cfg @ [u, m, d]) (entries (fs_tree (wa_fs w)) (wc_root cfg @ [u, m, d])) w)"
proof -
  let ?root = "wc_root cfg" and ?fs = "entries (fs_tree (wa_fs w)) (wc_root cfg @ [u, m, d])"
  have key: "message_key [u, m, d, f]" if "f \<noteq> ''..''" for f
    using that names by (auto simp: message_key_def plain_name_def)
  have s: "set ?fs = {f. fs_tree (wa_fs w) (?root @ [u, m, d, f]) \<noteq> None \<and> f \<noteq> ''..''}"
    using list unfolding true_listing_def by simp
  have ok: "\<forall>f\<in>set ?fs. message_key ([u, m, d] @ [f]) \<and> n ([u, m, d] @ [f]) \<noteq> None"
  proof
    fix f
    assume f: "f \<in> set ?fs"
    then have "message_key [u, m, d, f]" "fs_tree (wa_fs w) (?root @ [u, m, d, f]) \<noteq> None" using s key by blast+
    then show "message_key ([u, m, d] @ [f]) \<and> n ([u, m, d] @ [f]) \<noteq> None"
      using leaves_entry [OF l, of "[u, m, d, f]"] by (cases "n [u, m, d, f]") simp_all
  qed
  have up: "f \<in> set ?fs" if "n [u, m, d, f] = Some c" "f \<noteq> ''..''" for f c
  proof -
    have "fs_tree (wa_fs w) (?root @ [u, m, d, f]) = Some (File c)"
      using leaves_entry [OF l key [OF that(2)]] that(1) by simp
    then show ?thesis using s that(2) by auto
  qed
  have "e \<in> set (concat (map (\<lambda>f. file_events cfg now u m n ([u, m, d] @ [f])) ?fs)) \<longleftrightarrow> e \<in> dir_events cfg now u m n d" for e
  proof -
    have "e \<in> set (concat (map (\<lambda>f. file_events cfg now u m n ([u, m, d] @ [f])) ?fs)) \<longleftrightarrow>
        (\<exists>f\<in>set ?fs. \<exists>c. n [u, m, d, f] = Some c \<and> scan_event cfg now u m (?root @ [u, m, d, f]) c = Some e)"
      by (simp add: in_file_events)
    also have "\<dots> \<longleftrightarrow> e \<in> dir_events cfg now u m n d"
    proof -
      have "f \<noteq> ''..''" if "f \<in> set ?fs" for f using that unfolding s by blast
      then show ?thesis using up unfolding dir_events_def by blast
    qed
    finally show ?thesis .
  qed
  then show ?thesis using scan_entries_scans [OF l ok, of now u m] by blast
qed

lemma scan_subdir_scans:
  assumes l: "leaves (wc_root cfg) n (wa_fs w)" and names: "plain_name u" "plain_name m" "\<forall>d\<in>set ds. plain_name d"
    and list: "\<forall>d\<in>set ds. true_listing (we_entries env) (fs_tree (wa_fs w)) (wc_root cfg @ [u, m, d])"
  shows "\<exists>es. set es = (\<Union>d\<in>set ds. dir_events cfg (we_now env) u m n d) \<and>
    scans (wc_root cfg) n w es (scan_subdirs cfg env u m ds w)"
  using l names(3) list
proof (induction ds arbitrary: w)
  case Nil
  then show ?case by (simp add: scans_def)
next
  case (Cons d ds)
  let ?root = "wc_root cfg" and ?p = "wc_root cfg @ [u, m, d]"
  have p: "path_join (path_join (path_join ?root u) m) d = ?p" using names Cons.prems(2) by (simp add: path_join_name)
  have "''..'' \<notin> set ?p"
    using names Cons.prems ready_layout [OF leavesD(1) [OF Cons.prems(1)]] by (auto simp: mail_layout_def plain_name_def)
  then have r: "resolve ?p = ?p" by (rule resolve_plain)
  have "fs_exists ?p (wa_fs w) = ((wa_fs w)\<lparr>fs_calls := fs_calls (wa_fs w) + 1\<rparr>, fs_tree (wa_fs w) ?p \<noteq> None)"
    using Cons.prems(1) fs_exists_faultless [of "wa_fs w" ?p] by (simp add: r leaves_def store_ready_def)
  then obtain w1 where w1: "wa_call (fs_exists ?p) w = (w1, fs_tree (wa_fs w) ?p \<noteq> None)" "leaves ?root n (wa_fs w1)"
      "fs_tree (wa_fs w1) = fs_tree (wa_fs w)" "wa_published w1 = wa_published w"
    using Cons.prems(1) by (auto simp: wa_call_def)
  show ?case
  proof (cases "fs_tree (wa_fs w) ?p")
    case None
    have "n [u, m, d, f] = None" if "f \<noteq> ''..''" for f
    proof (rule ccontr)
      assume "n [u, m, d, f] \<noteq> None"
      moreover have "message_key [u, m, d, f]" using that names Cons.prems(2) by (auto simp: message_key_def plain_name_def)
      ultimately show False using leaves_dir [OF Cons.prems(1), of "[u, m, d, f]"] None by simp
    qed
    then have "dir_events cfg (we_now env) u m n d = {}" by (fastforce simp: dir_events_def)
    then show ?thesis using Cons.IH [OF w1(2)] Cons.prems(2,3) w1 None by (auto simp: p scans_def)
  next
    case (Some x)
    have x: "fs_tree (wa_fs w) ?p = Some Dir"
    proof (cases x)
      case (File c)
      then have "length [u, m, d] = 4"
        using Some ready_layout [OF leavesD(1) [OF Cons.prems(1)]] unfolding mail_layout_def by blast
      then show ?thesis by simp
    qed (simp add: Some)
    let ?fs = "we_entries env (fs_tree (wa_fs w)) ?p"
    obtain w2 where w2: "wa_call (fs_read_dir (we_entries env) ?p) w1 = (w2, Inr ?fs)" "leaves ?root n (wa_fs w2)"
        "fs_tree (wa_fs w2) = fs_tree (wa_fs w)" "wa_published w2 = wa_published w"
      using ready_keep [where f = "\<lambda>n. (n, if n (resolve ?p) = Some Dir then Inr (we_entries env n (resolve ?p)) else Inl ''Not a directory'')"
          and r = "Inr ?fs", OF w1(2)] x w1(3,4) unfolding fs_read_dir_def r by auto
    obtain es where es: "set es = dir_events cfg (we_now env) u m n d"
        "scans ?root n w2 es (scan_entries cfg (we_now env) u m ?p ?fs w2)"
      using scan_dir_scans [OF w2(2) names(1,2), of d "we_entries env" "we_now env"] Cons.prems(2,3) x w2(3) by auto
    obtain w3 where w3: "scan_entries cfg (we_now env) u m ?p ?fs w2 = (w3, Ok ())" "leaves ?root n (wa_fs w3)"
        "fs_tree (wa_fs w3) = fs_tree (wa_fs w2)" "wa_published w3 = wa_published w2 @ es"
      using es(2) by (cases "scan_entries cfg (we_now env) u m ?p ?fs w2") (simp add: scans_def)
    obtain fs where fs: "set fs = (\<Union>d\<in>set ds. dir_events cfg (we_now env) u m n d)"
        "scans ?root n w3 fs (scan_subdirs cfg env u m ds w3)"
      using Cons.IH [OF w3(2)] Cons.prems(2,3) w2(3) w3(3) by auto
    have "scan_subdirs cfg env u m (d # ds) w = scan_subdirs cfg env u m ds w3"
      using w1(1) w2(1) w3(1) x by (simp add: p Let_def)
    then have "scans ?root n w (es @ fs) (scan_subdirs cfg env u m (d # ds) w)"
      using fs(2) w2 w3 by (simp add: scans_def)
    then show ?thesis using es(1) fs(1) by (intro exI [of _ "es @ fs"]) auto
  qed
qed

text \<open>
  C36: a scan publishes exactly the messages that are there: for every file in the watched
  directories of the mailbox that the format and the mail parser accept the event of its
  creation, no others, and it changes no file.
\<close>

theorem scan_publishes_existing:
  assumes "store_ready (wc_root cfg) (wa_fs w)" and "plain_name u" and "plain_name m"
    and "wc_format cfg = maildir_format" and "\<forall>d\<in>{''new'', ''cur''}. true_listing (we_entries env) (fs_tree (wa_fs w)) (wc_root cfg @ [u, m, d])"
  shows "\<exists>w' es. scan_existing_messages cfg env u m w = (w', Ok ()) \<and> wa_published w' = wa_published w @ es \<and>
    set es = (\<Union>d\<in>{''new'', ''cur''}. dir_events cfg (we_now env) u m (stored (wc_root cfg) (fs_tree (wa_fs w))) d) \<and>
    stored (wc_root cfg) (fs_tree (wa_fs w')) = stored (wc_root cfg) (fs_tree (wa_fs w))"
proof -
  let ?n = "stored (wc_root cfg) (fs_tree (wa_fs w))"
  have "\<forall>d\<in>set watch_subdirectories. plain_name d" using maildir.subdirectories_plain by simp
  then obtain es where es: "set es = (\<Union>d\<in>set watch_subdirectories. dir_events cfg (we_now env) u m ?n d)"
      "scans (wc_root cfg) ?n w es (scan_existing_messages cfg env u m w)"
    using scan_subdir_scans [OF leavesI [OF assms(1)] assms(2,3), of watch_subdirectories env] assms(5)
    by (auto simp: scan_existing_messages_def assms(4) watch_subdirectories_def)
  obtain w' where "scan_existing_messages cfg env u m w = (w', Ok ())" "leaves (wc_root cfg) ?n (wa_fs w')"
      "wa_published w' = wa_published w @ es"
    using es(2) by (cases "scan_existing_messages cfg env u m w") (simp add: scans_def)
  then show ?thesis using es(1) leavesD(2) by (force simp: watch_subdirectories_def)
qed

theorem scan_publishes_existing_witness:
  "\<exists>w' es. scan_existing_messages example_config (example_env\<lparr>we_entries := \<lambda>n p. if last p = ''new'' then [''17''] else []\<rparr>)
      ''amy'' ''INBOX'' (example_watcher\<lparr>wa_fs := example_mail_fs\<rparr>) = (w', Ok ()) \<and> wa_published w' = es \<and> es \<noteq> []"
proof -
  let ?env = "example_env\<lparr>we_entries := \<lambda>n p. if last p = ''new'' then [''17''] else []\<rparr>"
    and ?w = "example_watcher\<lparr>wa_fs := example_mail_fs\<rparr>" and ?n = "stored [''srv''] (fs_tree example_mail_fs)"
  have n: "?n = [[''amy'', ''INBOX'', ''new'', ''17''] \<mapsto> [7, 8]]"
    using leavesD(2) [OF example_mail_fs_leaves] by (auto simp: fun_eq_iff stored_def example_fs_def)
  have e: "fs_tree example_mail_fs [''srv'', ''amy'', ''INBOX'', d, f] \<noteq> None \<longleftrightarrow> d = ''new'' \<and> f = ''17''"
    if "f \<noteq> ''..''" "d \<in> {''new'', ''cur''}" for d f
  proof -
    have "message_key [''amy'', ''INBOX'', d, f]" using that by (auto simp: message_key_def)
    then show ?thesis using leaves_entry [OF leavesI [OF example_mail_fs_ready]] n by (auto split: option.splits)
  qed
  have m: "{f. fs_tree example_mail_fs [''srv'', ''amy'', ''INBOX'', d, f] \<noteq> None \<and> f \<noteq> ''..''} = (if d = ''new'' then {''17''} else {})"
    if "d \<in> {''new'', ''cur''}" for d
  proof (rule set_eqI)
    fix f
    show "f \<in> {f. fs_tree example_mail_fs [''srv'', ''amy'', ''INBOX'', d, f] \<noteq> None \<and> f \<noteq> ''..''} \<longleftrightarrow>
        f \<in> (if d = ''new'' then {''17''} else {})"
      using e [OF _ that, of f] by (cases "f = ''..''") (simp_all del: not_None_eq)
  qed
  have list: "\<forall>d\<in>{''new'', ''cur''}. true_listing (we_entries ?env) (fs_tree (wa_fs ?w)) (wc_root example_config @ [''amy'', ''INBOX'', d])"
    using m [of "''new''"] m [of "''cur''"] by (simp add: true_listing_def example_config_def del: not_None_eq)
  have "store_ready (wc_root example_config) (wa_fs ?w)" using example_mail_fs_ready by (simp add: example_config_def)
  then obtain w' es where r: "scan_existing_messages example_config ?env ''amy'' ''INBOX'' ?w = (w', Ok ())" "wa_published w' = wa_published ?w @ es"
      "set es = (\<Union>d\<in>{''new'', ''cur''}. dir_events example_config (we_now ?env) ''amy'' ''INBOX'' (stored (wc_root example_config) (fs_tree (wa_fs ?w))) d)"
    using scan_publishes_existing [OF _ _ _ _ list] by (auto simp: plain_name_def example_config_def)
  have "parse_message_path [''srv'', ''amy'', ''INBOX'', ''new'', ''17''] [''srv''] \<noteq> None"
    using parse_message_path_at [of "''17''" "[''srv'']" "''amy''" "''INBOX''" "''new''" "[]"] by (simp add: maildir_id_def plain_name_def)
  then have "dir_events example_config (we_now ?env) ''amy'' ''INBOX'' ?n ''new'' \<noteq> {}"
    by (auto simp: dir_events_def n scan_event_def example_config_def)
  then have "es \<noteq> []" using r(3) by (auto simp: example_config_def)
  then show ?thesis using r(1,2) by (auto simp: example_watcher_def)
qed

end
