(* ===== verification/Index_Backend.thy ===== *)
theory Index_Backend
  imports Writer_Loop
begin

text \<open>
  src/index/backend.rs and src/index/impl/inmemory.rs: the storage behind the index, its
  queries, and the contract that the indexer relies on.
\<close>

section \<open>The in-memory backend\<close>

record message_entry =
  me_metadata :: indexed_message
  me_path :: string
  me_username :: string

type_synonym backend = "(message_id \<times> message_entry) list"

definition backend_new :: backend where
  "backend_new = []"

fun message_id_text :: "message_id \<Rightarrow> string" where
  "message_id_text (MessageId u) = u"

definition make_message_path :: "string \<Rightarrow> string \<Rightarrow> message_id \<Rightarrow> string" where
  "make_message_path username mailbox i = username @ ''/'' @ mailbox @ ''/'' @ message_id_text i @ ''.eml''"

definition ib_add_message :: "string \<Rightarrow> string \<Rightarrow> indexed_message \<Rightarrow> backend \<Rightarrow> backend \<times> string result" where
  "ib_add_message username mailbox message b =
     (let path = make_message_path username mailbox (im_id message) in
      (AList.update (im_id message) \<lparr>me_metadata = message, me_path = path, me_username = username\<rparr> b, Ok path))"

text \<open>The text of \<open>{:?}\<close> for a message identifier.\<close>

definition ib_not_found :: "message_id \<Rightarrow> error" where
  "ib_not_found i = NotFound (''Message MessageId('' @ message_id_text i @ '') not found'')"

definition ib_update_flags :: "message_id \<Rightarrow> message_flag list \<Rightarrow> backend \<Rightarrow> backend \<times> unit result" where
  "ib_update_flags i flags b =
     (case map_of b i of
        Some e \<Rightarrow> (AList.update i (e\<lparr>me_metadata := (me_metadata e)\<lparr>im_flags := flags\<rparr>\<rparr>) b, Ok ())
      | None \<Rightarrow> (b, Err (ib_not_found i)))"

definition ib_delete_message :: "message_id \<Rightarrow> backend \<Rightarrow> backend \<times> unit result" where
  "ib_delete_message i b =
     (if map_of b i \<noteq> None then (AList.delete i b, Ok ()) else (b, Err (ib_not_found i)))"

definition entry_in :: "string \<Rightarrow> string \<Rightarrow> message_entry \<Rightarrow> bool" where
  "entry_in username mailbox e \<longleftrightarrow> me_username e = username \<and> im_mailbox (me_metadata e) = mailbox"

definition ib_remove_mailbox :: "string \<Rightarrow> string \<Rightarrow> backend \<Rightarrow> backend \<times> unit result" where
  "ib_remove_mailbox username mailbox b = (filter (\<lambda>(i, e). \<not> entry_in username mailbox e) b, Ok ())"

definition ib_get_path :: "message_id \<Rightarrow> backend \<Rightarrow> string option result" where
  "ib_get_path i b = Ok (map_option me_path (map_of b i))"

text \<open>The loop with its early return.\<close>

fun find_path_by_uid :: "string \<Rightarrow> string \<Rightarrow> uid \<Rightarrow> message_entry list \<Rightarrow> string option" where
  "find_path_by_uid username mailbox u [] = None"
| "find_path_by_uid username mailbox u (e # es) =
     (if entry_in username mailbox e \<and> im_uid (me_metadata e) = u then Some (me_path e)
      else find_path_by_uid username mailbox u es)"

definition ib_get_path_by_uid :: "string \<Rightarrow> string \<Rightarrow> uid \<Rightarrow> backend \<Rightarrow> string option result" where
  "ib_get_path_by_uid username mailbox u b = Ok (find_path_by_uid username mailbox u (map snd b))"

definition ib_list_paths :: "string \<Rightarrow> string \<Rightarrow> backend \<Rightarrow> string list result" where
  "ib_list_paths username mailbox b = Ok (map me_path (filter (entry_in username mailbox) (map snd b)))"

definition ib_get_metadata :: "message_id \<Rightarrow> backend \<Rightarrow> indexed_message option result" where
  "ib_get_metadata i b = Ok (map_option me_metadata (map_of b i))"

fun matches_query :: "indexed_message \<Rightarrow> search_query \<Rightarrow> bool" where
  "matches_query m SQ_All = True"
| "matches_query m (SQ_From s) = contains_str (im_from m) s"
| "matches_query m (SQ_To s) = contains_str (im_to m) s"
| "matches_query m (SQ_Subject s) = contains_str (im_subject m) s"
| "matches_query m (SQ_Body s) = contains_str (im_body_preview m) s"
| "matches_query m (SQ_Text s) = (contains_str (im_from m) s \<or> contains_str (im_to m) s \<or>
     contains_str (im_subject m) s \<or> contains_str (im_body_preview m) s)"
| "matches_query m (SQ_Uid uids) = (im_uid m \<in> set uids)"
| "matches_query m (SQ_Sequence _) = False"
| "matches_query m SQ_Seen = (Seen \<in> set (im_flags m))"
| "matches_query m SQ_Unseen = (Seen \<notin> set (im_flags m))"
| "matches_query m SQ_Flagged = (Flagged \<in> set (im_flags m))"
| "matches_query m SQ_Unflagged = (Flagged \<notin> set (im_flags m))"
| "matches_query m SQ_Deleted = (Deleted \<in> set (im_flags m))"
| "matches_query m SQ_Undeleted = (Deleted \<notin> set (im_flags m))"
| "matches_query m (SQ_And q1 q2) = (matches_query m q1 \<and> matches_query m q2)"
| "matches_query m (SQ_Or q1 q2) = (matches_query m q1 \<or> matches_query m q2)"
| "matches_query m (SQ_Not q) = (\<not> matches_query m q)"

definition ib_search :: "string \<Rightarrow> string \<Rightarrow> search_query \<Rightarrow> backend \<Rightarrow> string list result" where
  "ib_search username mailbox q b =
     Ok (map me_path (filter (\<lambda>e. entry_in username mailbox e \<and> matches_query (me_metadata e) q) (map snd b)))"

lemmas ib_defs = ib_add_message_def ib_update_flags_def ib_delete_message_def ib_remove_mailbox_def
  ib_get_path_def ib_get_path_by_uid_def ib_list_paths_def ib_get_metadata_def ib_search_def

section \<open>The contract of a backend\<close>

text \<open>
  The operations of the trait that the indexer uses, over the abstract content: the entry of
  each message. A search and a listing are told by the entries that they select.
\<close>

locale index_backend =
  fixes add :: "string \<Rightarrow> string \<Rightarrow> indexed_message \<Rightarrow> 'b \<Rightarrow> 'b \<times> string result"
    and update :: "message_id \<Rightarrow> message_flag list \<Rightarrow> 'b \<Rightarrow> 'b \<times> unit result"
    and delete :: "message_id \<Rightarrow> 'b \<Rightarrow> 'b \<times> unit result"
    and remove :: "string \<Rightarrow> string \<Rightarrow> 'b \<Rightarrow> 'b \<times> unit result"
    and search :: "string \<Rightarrow> string \<Rightarrow> search_query \<Rightarrow> 'b \<Rightarrow> string list result"
    and entries :: "'b \<Rightarrow> message_id \<rightharpoonup> message_entry"
    and wf :: "'b \<Rightarrow> bool"
  assumes add_ok: "wf b \<Longrightarrow> \<exists>p. snd (add u m x b) = Ok p \<and> wf (fst (add u m x b)) \<and>
      entries (fst (add u m x b)) = (entries b)(im_id x \<mapsto> \<lparr>me_metadata = x, me_path = p, me_username = u\<rparr>)"
    and update_known: "wf b \<Longrightarrow> entries b i = Some e \<Longrightarrow> snd (update i fs b) = Ok () \<and> wf (fst (update i fs b)) \<and>
      entries (fst (update i fs b)) = (entries b)(i \<mapsto> e\<lparr>me_metadata := (me_metadata e)\<lparr>im_flags := fs\<rparr>\<rparr>)"
    and update_unknown: "entries b i = None \<Longrightarrow> fst (update i fs b) = b \<and> (\<exists>e. snd (update i fs b) = Err e)"
    and delete_ok: "wf b \<Longrightarrow> wf (fst (delete i b)) \<and> entries (fst (delete i b)) = (entries b)(i := None) \<and>
      (snd (delete i b) = Ok () \<longleftrightarrow> entries b i \<noteq> None)"
    and remove_ok: "wf b \<Longrightarrow> snd (remove u m b) = Ok () \<and> wf (fst (remove u m b)) \<and>
      entries (fst (remove u m b)) = map_retain (\<lambda>_ e. \<not> entry_in u m e) (entries b)"
    and search_ok: "wf b \<Longrightarrow> \<exists>ps. search u m q b = Ok ps \<and>
      set ps = {p. \<exists>i e. entries b i = Some e \<and> entry_in u m e \<and> matches_query (me_metadata e) q \<and> p = me_path e}"
begin

lemma deleted_not_found:
  assumes "wf b" and "\<And>j e. entries b j = Some e \<Longrightarrow> me_path e = p \<Longrightarrow> j = i"
    and "search u m q (fst (delete i b)) = Ok ps"
  shows "p \<notin> set ps"
  using search_ok [of "fst (delete i b)" u m q] delete_ok [OF assms(1), of i] assms(2,3)
  by (auto split: if_splits)

lemma removed_mailbox_empty:
  assumes "wf b" and "search u m q (fst (remove u m b)) = Ok ps"
  shows "ps = []"
proof -
  have "set ps = {}"
    using search_ok [of "fst (remove u m b)" u m q] remove_ok [OF assms(1), of u m] assms(2) by auto
  then show ?thesis by simp
qed

lemma search_unchanged:
  assumes "wf b" and "wf b'" and "\<And>i e. entry_in u m e \<Longrightarrow> entries b' i = Some e \<longleftrightarrow> entries b i = Some e"
    and "search u m q b = Ok ps" and "search u m q b' = Ok ps'"
  shows "set ps' = set ps"
proof -
  have "p \<in> set ps' \<longleftrightarrow> p \<in> set ps" for p
    using search_ok [OF assms(1), of u m q] search_ok [OF assms(2), of u m q] assms(3-5) by auto blast+
  then show ?thesis by blast
qed

end

lemma ib_search_set:
  assumes "al_wf b"
  shows "\<exists>ps. ib_search u m q b = Ok ps \<and>
    set ps = {p. \<exists>i e. map_of b i = Some e \<and> entry_in u m e \<and> matches_query (me_metadata e) q \<and> p = me_path e}"
  by (auto simp: ib_search_def al_wf_map_of [OF assms] image_iff) force+

interpretation ib: index_backend ib_add_message ib_update_flags ib_delete_message ib_remove_mailbox ib_search map_of al_wf
proof (unfold_locales, goal_cases)
  case (6 b u m q)
  then show ?case by (rule ib_search_set)
qed (auto simp: ib_defs Let_def map_of_retain map_retain_def split: option.splits)

section \<open>Properties\<close>

text \<open>
  The backends that \<open>add_message\<close> builds when it is called with the mailbox that the metadata
  names, as the indexer does: an entry lies under its own identifier and has its path.
\<close>

definition backend_inv :: "backend \<Rightarrow> bool" where
  "backend_inv b \<longleftrightarrow> al_wf b \<and> (\<forall>i e. map_of b i = Some e \<longrightarrow> im_id (me_metadata e) = i \<and>
     me_path e = make_message_path (me_username e) (im_mailbox (me_metadata e)) i)"

lemma make_message_path_inj: "make_message_path u m i = make_message_path u m j \<longleftrightarrow> i = j"
  by (cases i; cases j) (simp add: make_message_path_def)

lemma backend_inv_add: "backend_inv b \<Longrightarrow> m = im_mailbox x \<Longrightarrow> backend_inv (fst (ib_add_message u m x b))"
  by (auto simp: backend_inv_def ib_add_message_def Let_def)

lemma backend_inv_update: "backend_inv b \<Longrightarrow> backend_inv (fst (ib_update_flags i fs b))"
  by (auto simp: backend_inv_def ib_update_flags_def split: option.splits)

lemma backend_inv_delete: "backend_inv b \<Longrightarrow> backend_inv (fst (ib_delete_message i b))"
  by (auto simp: backend_inv_def ib_delete_message_def)

lemma backend_inv_remove: "backend_inv b \<Longrightarrow> backend_inv (fst (ib_remove_mailbox u m b))"
  by (auto simp: backend_inv_def ib_remove_mailbox_def map_of_retain split: option.splits if_splits)

lemma backend_inv_new [simp]: "backend_inv backend_new"
  by (simp add: backend_inv_def backend_new_def)

text \<open>The paths that a search finds.\<close>

definition found :: "string \<Rightarrow> string \<Rightarrow> search_query \<Rightarrow> backend \<Rightarrow> string set" where
  "found u m q b = (case ib_search u m q b of Ok ps \<Rightarrow> set ps | Err e \<Rightarrow> {})"

lemma found_iff:
  assumes "backend_inv b"
  shows "p \<in> found u m q b \<longleftrightarrow>
    (\<exists>i e. map_of b i = Some e \<and> entry_in u m e \<and> matches_query (me_metadata e) q \<and> p = make_message_path u m i)"
proof -
  have "me_path e = make_message_path u m i" if "map_of b i = Some e" "entry_in u m e" for i e
    using assms that by (auto simp: backend_inv_def entry_in_def)
  moreover have "al_wf b" using assms by (simp add: backend_inv_def)
  then obtain ps where "ib_search u m q b = Ok ps"
    "set ps = {p. \<exists>i e. map_of b i = Some e \<and> entry_in u m e \<and> matches_query (me_metadata e) q \<and> p = me_path e}"
    using ib_search_set by blast
  then have "p \<in> found u m q b \<longleftrightarrow>
      (\<exists>i e. map_of b i = Some e \<and> entry_in u m e \<and> matches_query (me_metadata e) q \<and> p = me_path e)"
    by (simp add: found_def)
  ultimately show ?thesis by metis
qed

text \<open>
  The connectives of a search query are the operations on sets of messages: AND intersects,
  OR joins, NOT takes the complement within the mailbox, which ALL and the listing hold.
\<close>

theorem search_connectives:
  assumes "backend_inv b"
  shows "found u m (SQ_And p q) b = found u m p b \<inter> found u m q b \<and>
    found u m (SQ_Or p q) b = found u m p b \<union> found u m q b \<and>
    found u m (SQ_Not q) b = found u m SQ_All b - found u m q b \<and>
    (\<exists>ps. ib_list_paths u m b = Ok ps \<and> set ps = found u m SQ_All b)"
proof (intro conjI)
  have one: "i = j" "e = f" if "map_of b i = Some e" "map_of b j = Some f" "make_message_path u m i = make_message_path u m j" for i j e f
    using that by (simp_all add: make_message_path_inj)
  show "found u m (SQ_And p q) b = found u m p b \<inter> found u m q b"
    using one by (intro set_eqI) (auto simp: found_iff [OF assms] make_message_path_inj)
  show "found u m (SQ_Not q) b = found u m SQ_All b - found u m q b"
    using one by (intro set_eqI) (auto simp: found_iff [OF assms] make_message_path_inj)
  show "\<exists>ps. ib_list_paths u m b = Ok ps \<and> set ps = found u m SQ_All b"
    by (auto simp: ib_list_paths_def found_def ib_search_def)
  show "found u m (SQ_Or p q) b = found u m p b \<union> found u m q b"
    unfolding set_eq_iff Un_iff found_iff [OF assms] by (simp only: matches_query.simps) blast
qed

definition example_message :: "string \<Rightarrow> uid \<Rightarrow> message_flag list \<Rightarrow> string \<Rightarrow> indexed_message" where
  "example_message i u fs subject = \<lparr>im_id = MessageId i, im_uid = u, im_mailbox = ''INBOX'', im_flags = fs, im_internal_date = 0,
     im_size = 10, im_from = ''bob'', im_to = ''amy'', im_subject = subject, im_body_preview = ''hi''\<rparr>"

theorem search_connectives_witness:
  "found ''amy'' ''INBOX'' (SQ_Not SQ_Seen)
     (fst (ib_add_message ''amy'' ''INBOX'' (example_message ''1'' 1 [Seen] ''x'')
       (fst (ib_add_message ''amy'' ''INBOX'' (example_message ''2'' 2 [] ''y'') backend_new)))) = {''amy/INBOX/2.eml''}"
proof -
  let ?b = "fst (ib_add_message ''amy'' ''INBOX'' (example_message ''1'' 1 [Seen] ''x'')
       (fst (ib_add_message ''amy'' ''INBOX'' (example_message ''2'' 2 [] ''y'') backend_new)))"
  have "backend_inv ?b" by (intro backend_inv_add backend_inv_new) (simp_all add: example_message_def)
  then have "found ''amy'' ''INBOX'' (SQ_Not SQ_Seen) ?b = found ''amy'' ''INBOX'' SQ_All ?b - found ''amy'' ''INBOX'' SQ_Seen ?b"
    using search_connectives [of ?b] by blast
  also have "\<dots> = {''amy/INBOX/2.eml''}"
    by code_simp
  finally show ?thesis .
qed

text \<open>
  A message's flags are what a search by flag sees: after the flags of a message are
  replaced, a search finds it by Seen, Flagged or Deleted exactly when the new flags say so,
  and the results of all other messages stay.
\<close>

theorem flag_update_is_searched:
  assumes "backend_inv b" and "map_of b i = Some e" and "entry_in u m e"
  shows "found u m SQ_Seen (fst (ib_update_flags i fs b)) =
      (if Seen \<in> set fs then insert (make_message_path u m i) (found u m SQ_Seen b)
       else found u m SQ_Seen b - {make_message_path u m i}) \<and>
    found u m SQ_Undeleted (fst (ib_update_flags i fs b)) =
      (if Deleted \<in> set fs then found u m SQ_Undeleted b - {make_message_path u m i}
       else insert (make_message_path u m i) (found u m SQ_Undeleted b))"
proof -
  let ?e = "e\<lparr>me_metadata := (me_metadata e)\<lparr>im_flags := fs\<rparr>\<rparr>"
  have al: "al_wf b" using assms(1) by (simp add: backend_inv_def)
  have m: "map_of (fst (ib_update_flags i fs b)) = (map_of b)(i \<mapsto> ?e)"
    using ib.update_known [OF al assms(2), of fs] by simp
  have inv: "backend_inv (fst (ib_update_flags i fs b))" by (rule backend_inv_update [OF assms(1)])
  have in': "entry_in u m ?e" using assms(3) by (simp add: entry_in_def)
  have upd: "found u m q (fst (ib_update_flags i fs b)) =
      (if matches_query (me_metadata ?e) q then insert (make_message_path u m i) (found u m q b)
       else found u m q b - {make_message_path u m i})" for q
  proof (rule set_eqI)
    fix p
    have "p \<in> found u m q (fst (ib_update_flags i fs b)) \<longleftrightarrow>
        (p = make_message_path u m i \<and> matches_query (me_metadata ?e) q) \<or>
        (\<exists>j f. j \<noteq> i \<and> map_of b j = Some f \<and> entry_in u m f \<and> matches_query (me_metadata f) q \<and> p = make_message_path u m j)"
      unfolding found_iff [OF inv] m using in' by (auto split: if_splits)
    moreover have "p \<in> found u m q b \<and> p \<noteq> make_message_path u m i \<longleftrightarrow>
        (\<exists>j f. j \<noteq> i \<and> map_of b j = Some f \<and> entry_in u m f \<and> matches_query (me_metadata f) q \<and> p = make_message_path u m j)"
      unfolding found_iff [OF assms(1)] by (auto simp: make_message_path_inj)
    ultimately show "p \<in> found u m q (fst (ib_update_flags i fs b)) \<longleftrightarrow>
        p \<in> (if matches_query (me_metadata ?e) q then insert (make_message_path u m i) (found u m q b)
             else found u m q b - {make_message_path u m i})" by (auto split: if_splits)
  qed
  show ?thesis using upd [of SQ_Seen] upd [of SQ_Undeleted] by simp
qed

theorem flag_update_is_searched_witness:
  "found ''amy'' ''INBOX'' SQ_Seen (fst (ib_update_flags (MessageId ''1'') [Seen]
     (fst (ib_add_message ''amy'' ''INBOX'' (example_message ''1'' 1 [] ''x'') backend_new)))) = {''amy/INBOX/1.eml''}"
proof -
  let ?b = "fst (ib_add_message ''amy'' ''INBOX'' (example_message ''1'' 1 [] ''x'') backend_new)"
  have inv: "backend_inv ?b" by (intro backend_inv_add backend_inv_new) (simp add: example_message_def)
  let ?e = "\<lparr>me_metadata = example_message ''1'' 1 [] ''x'', me_path = ''amy/INBOX/1.eml'', me_username = ''amy''\<rparr>"
  have e: "map_of ?b (MessageId ''1'') = Some ?e" "entry_in ''amy'' ''INBOX'' ?e"
    by (simp_all add: Let_def ib_add_message_def example_message_def backend_new_def make_message_path_def entry_in_def)
  have "found ''amy'' ''INBOX'' SQ_Seen ?b = {}" "make_message_path ''amy'' ''INBOX'' (MessageId ''1'') = ''amy/INBOX/1.eml''"
    by code_simp+
  then show ?thesis using flag_update_is_searched [OF inv e, of "[Seen]"] by simp
qed

end
