(* ===== verification/Indexer.thy ===== *)
theory Indexer
  imports Index_Backend Mailbox_Registry Event_Bus
begin

text \<open>
  src/index/indexer.rs: the writer loop of the index, its handle, and the event listener that
  keeps the index in step with the mail store. The identifier that the listener gives a new
  message and the commands that other clients of the two writer loops got in first are part
  of the delivery that it handles.
\<close>

section \<open>The writer loop and the handle\<close>

datatype index_command =
    IX_AddMessage string string indexed_message
  | IX_UpdateFlags message_id "message_flag list"
  | IX_DeleteMessage message_id
  | IX_RemoveMessagesForMailbox string string
  | IX_Shutdown

datatype index_reply = IR_Path "string result" | IR_Unit "unit result" | IR_Stopped

fun index_exec :: "backend \<Rightarrow> index_command \<Rightarrow> backend \<times> index_reply" where
  "index_exec b (IX_AddMessage u m x) = (case ib_add_message u m x b of (b', r) \<Rightarrow> (b', IR_Path r))"
| "index_exec b (IX_UpdateFlags i fs) = (case ib_update_flags i fs b of (b', r) \<Rightarrow> (b', IR_Unit r))"
| "index_exec b (IX_DeleteMessage i) = (case ib_delete_message i b of (b', r) \<Rightarrow> (b', IR_Unit r))"
| "index_exec b (IX_RemoveMessagesForMailbox u m) = (case ib_remove_mailbox u m b of (b', r) \<Rightarrow> (b', IR_Unit r))"
| "index_exec b IX_Shutdown = (b, IR_Stopped)"

fun index_stops :: "index_command \<Rightarrow> bool" where
  "index_stops IX_Shutdown = True"
| "index_stops _ = False"

fun ir_path :: "index_reply \<Rightarrow> string result" where "ir_path (IR_Path r) = r"
fun ir_unit :: "index_reply \<Rightarrow> unit result" where "ir_unit (IR_Unit r) = r"

type_synonym index_handle = "backend actor"

definition index_new :: index_handle where
  "index_new = \<lparr>alive = True, state = backend_new\<rparr>"

definition index_call :: "(index_reply \<Rightarrow> 'a result) \<Rightarrow> index_command list \<Rightarrow> index_command \<Rightarrow> index_handle \<Rightarrow> index_handle \<times> 'a result" where
  "index_call = client_op index_exec index_stops (Internal ''Writer loop stopped'') (Internal ''Writer loop dropped reply'')"

definition index_add_message :: "index_command list \<Rightarrow> string \<Rightarrow> string \<Rightarrow> indexed_message \<Rightarrow> index_handle \<Rightarrow> index_handle \<times> string result" where
  "index_add_message pending u m x = index_call ir_path pending (IX_AddMessage u m x)"

definition index_update_flags :: "index_command list \<Rightarrow> message_id \<Rightarrow> message_flag list \<Rightarrow> index_handle \<Rightarrow> index_handle \<times> unit result" where
  "index_update_flags pending i fs = index_call ir_unit pending (IX_UpdateFlags i fs)"

definition index_delete_message :: "index_command list \<Rightarrow> message_id \<Rightarrow> index_handle \<Rightarrow> index_handle \<times> unit result" where
  "index_delete_message pending i = index_call ir_unit pending (IX_DeleteMessage i)"

definition index_get_message_path :: "message_id \<Rightarrow> index_handle \<Rightarrow> string option result" where
  "index_get_message_path i a = ib_get_path i (state a)"

definition index_get_message_path_by_uid :: "string \<Rightarrow> string \<Rightarrow> uid \<Rightarrow> index_handle \<Rightarrow> string option result" where
  "index_get_message_path_by_uid u m n a = ib_get_path_by_uid u m n (state a)"

definition index_list_message_paths :: "string \<Rightarrow> string \<Rightarrow> index_handle \<Rightarrow> string list result" where
  "index_list_message_paths u m a = ib_list_paths u m (state a)"

definition index_get_message_metadata :: "message_id \<Rightarrow> index_handle \<Rightarrow> indexed_message option result" where
  "index_get_message_metadata i a = ib_get_metadata i (state a)"

definition index_search :: "string \<Rightarrow> string \<Rightarrow> search_query \<Rightarrow> index_handle \<Rightarrow> string list result" where
  "index_search u m q a = ib_search u m q (state a)"

definition index_shutdown :: "index_command list \<Rightarrow> index_handle \<Rightarrow> index_handle \<times> unit result" where
  "index_shutdown pending a = (fst (client_call index_exec index_stops a pending IX_Shutdown), Ok ())"

fun index_ok :: "backend \<Rightarrow> index_command \<Rightarrow> bool" where
  "index_ok b (IX_AddMessage u m x) = (m = im_mailbox x)"
| "index_ok b _ = True"

lemma index_exec_inv: "backend_inv b \<Longrightarrow> index_ok b c \<Longrightarrow> backend_inv (fst (index_exec b c))"
  by (cases c) (simp_all add: case_prod_beta backend_inv_add backend_inv_update backend_inv_delete backend_inv_remove)

interpretation ixl: writer_loop index_exec index_stops backend_inv index_ok backend_new
  by unfold_locales (simp_all add: index_exec_inv)

section \<open>The event listener\<close>

record listener =
  ls_index :: index_handle
  ls_mapping :: "string \<rightharpoonup> message_id"
  ls_mailboxes :: "mailboxes option"

record bus_delivery =
  bd_event :: event
  bd_new_id :: message_id
  bd_index_pending :: "index_command list"
  bd_uid_pending :: "registry_command list"

definition unique_id_key :: "string \<Rightarrow> string \<Rightarrow> string \<Rightarrow> string" where
  "unique_id_key u m i = u @ ''/'' @ m @ ''/'' @ i"

definition indexed_of :: "message_id \<Rightarrow> uid \<Rightarrow> new_message \<Rightarrow> indexed_message" where
  "indexed_of i u nm = \<lparr>im_id = i, im_uid = u, im_mailbox = nm_mailbox nm, im_flags = nm_flags nm,
     im_internal_date = nm_internal_date nm, im_size = nm_size nm, im_from = nm_from nm, im_to = nm_to nm,
     im_subject = nm_subject nm, im_body_preview = nm_body_preview nm\<rparr>"

lemma indexed_of_fields [simp]:
  "im_id (indexed_of i u nm) = i" "im_uid (indexed_of i u nm) = u"
  "im_mailbox (indexed_of i u nm) = nm_mailbox nm" "im_flags (indexed_of i u nm) = nm_flags nm"
  by (simp_all add: indexed_of_def)

definition on_message_created :: "new_message \<Rightarrow> bus_delivery \<Rightarrow> listener \<Rightarrow> listener" where
  "on_message_created nm d ls =
     (case ls_mailboxes ls of
        None \<Rightarrow> ls
      | Some mb \<Rightarrow>
          (case get_next_uid (bd_uid_pending d) (nm_username nm) (nm_mailbox nm) mb of
             (mb', Err e) \<Rightarrow> ls\<lparr>ls_mailboxes := Some mb'\<rparr>
           | (mb', Ok u) \<Rightarrow>
               (case client_call index_exec index_stops (ls_index ls) (bd_index_pending d)
                   (IX_AddMessage (nm_username nm) (nm_mailbox nm) (indexed_of (bd_new_id d) u nm)) of
                  (ix, Replied (IR_Path (Inr p))) \<Rightarrow>
                    ls\<lparr>ls_mailboxes := Some mb', ls_index := ix, ls_mapping := (ls_mapping ls)(nm_path nm \<mapsto> bd_new_id d)\<rparr>
                | (ix, _) \<Rightarrow> ls\<lparr>ls_mailboxes := Some mb', ls_index := ix\<rparr>)))"

definition on_message_modified :: "string \<Rightarrow> string \<Rightarrow> string \<Rightarrow> message_flag list \<Rightarrow> bus_delivery \<Rightarrow> listener \<Rightarrow> listener" where
  "on_message_modified u m i fs d ls =
     (case ls_mapping ls (unique_id_key u m i) of
        None \<Rightarrow> ls
      | Some mid \<Rightarrow>
          ls\<lparr>ls_index := fst (client_call index_exec index_stops (ls_index ls) (bd_index_pending d) (IX_UpdateFlags mid fs))\<rparr>)"

definition on_message_deleted :: "string \<Rightarrow> string \<Rightarrow> string \<Rightarrow> bus_delivery \<Rightarrow> listener \<Rightarrow> listener" where
  "on_message_deleted u m i d ls =
     (case ls_mapping ls (unique_id_key u m i) of
        None \<Rightarrow> ls
      | Some mid \<Rightarrow>
          ls\<lparr>ls_mapping := (ls_mapping ls)(unique_id_key u m i := None),
             ls_index := fst (client_call index_exec index_stops (ls_index ls) (bd_index_pending d) (IX_DeleteMessage mid))\<rparr>)"

definition on_mailbox_deleted :: "string \<Rightarrow> string \<Rightarrow> bus_delivery \<Rightarrow> listener \<Rightarrow> listener" where
  "on_mailbox_deleted u m d ls =
     ls\<lparr>ls_index := fst (client_call index_exec index_stops (ls_index ls) (bd_index_pending d) (IX_RemoveMessagesForMailbox u m)),
        ls_mapping := map_retain (\<lambda>key _. \<not> starts_with key (u @ ''/'' @ m @ ''/'')) (ls_mapping ls)\<rparr>"

fun handle_event :: "bus_delivery \<Rightarrow> event \<Rightarrow> listener \<Rightarrow> listener" where
  "handle_event d (Ev_MessageCreated nm) ls = on_message_created nm d ls"
| "handle_event d (Ev_MessageModified u m i fs) ls = on_message_modified u m i fs d ls"
| "handle_event d (Ev_MessageDeleted u m i) ls = on_message_deleted u m i d ls"
| "handle_event d (Ev_MailboxDeleted u m) ls = on_mailbox_deleted u m d ls"
| "handle_event d _ ls = ls"

fun event_listener :: "bus_delivery list \<Rightarrow> listener \<Rightarrow> listener" where
  "event_listener [] ls = ls"
| "event_listener (d # ds) ls = event_listener ds (handle_event d (bd_event d) ls)"

definition listener_kinds :: "event_kind list" where
  "listener_kinds = [K_MessageCreated, K_MessageModified, K_MessageDeleted, K_MailboxDeleted]"

definition listener_new :: "mailboxes option \<Rightarrow> listener" where
  "listener_new mb = \<lparr>ls_index = index_new, ls_mapping = Map.empty, ls_mailboxes = mb\<rparr>"

section \<open>The specification: what messages there are\<close>

text \<open>
  An abstract view of the mail store: the messages by their unique key, with user, mailbox and
  flags. An event says how it changes.
\<close>

type_synonym message_view = "string \<rightharpoonup> string \<times> string \<times> message_flag list"

fun view_step :: "event \<Rightarrow> message_view \<Rightarrow> message_view" where
  "view_step (Ev_MessageCreated nm) v =
     v(unique_id_key (nm_username nm) (nm_mailbox nm) (nm_unique_id nm) \<mapsto> (nm_username nm, nm_mailbox nm, nm_flags nm))"
| "view_step (Ev_MessageModified u m i fs) v =
     (case v (unique_id_key u m i) of None \<Rightarrow> v | Some (u', m', _) \<Rightarrow> v(unique_id_key u m i \<mapsto> (u', m', fs)))"
| "view_step (Ev_MessageDeleted u m i) v = v(unique_id_key u m i := None)"
| "view_step (Ev_MailboxDeleted u m) v = map_retain (\<lambda>_ (u', m', _). \<not> (u' = u \<and> m' = m)) v"
| "view_step _ v = v"

definition entry_view :: "message_entry \<Rightarrow> string \<times> string \<times> message_flag list" where
  "entry_view e = (me_username e, im_mailbox (me_metadata e), im_flags (me_metadata e))"

text \<open>What the index knows.\<close>

definition index_view :: "listener \<Rightarrow> message_view" where
  "index_view ls k = (case ls_mapping ls k of None \<Rightarrow> None
     | Some i \<Rightarrow> map_option entry_view (map_of (state (ls_index ls)) i))"

text \<open>
  The mapping knows every message of the index under one key, and the key is made of the
  message's user and mailbox.
\<close>

definition listener_inv :: "listener \<Rightarrow> bool" where
  "listener_inv ls \<longleftrightarrow> alive (ls_index ls) \<and> backend_inv (state (ls_index ls)) \<and>
     (\<forall>k i. ls_mapping ls k = Some i \<longrightarrow>
        (\<exists>e x. map_of (state (ls_index ls)) i = Some e \<and> k = unique_id_key (me_username e) (im_mailbox (me_metadata e)) x)) \<and>
     (\<forall>k l i. ls_mapping ls k = Some i \<and> ls_mapping ls l = Some i \<longrightarrow> k = l) \<and>
     (\<forall>i e. map_of (state (ls_index ls)) i = Some e \<longrightarrow> (\<exists>k. ls_mapping ls k = Some i))"

text \<open>
  An event that the listener can follow: a created message has the key as its path, is not
  known yet, gets a fresh identifier and lies in a registered mailbox; when a mailbox is
  deleted, no message of another mailbox has a key below it.
\<close>

fun event_follows :: "listener \<Rightarrow> bus_delivery \<Rightarrow> event \<Rightarrow> bool" where
  "event_follows ls d (Ev_MessageCreated nm) \<longleftrightarrow>
     nm_path nm = unique_id_key (nm_username nm) (nm_mailbox nm) (nm_unique_id nm) \<and>
     ls_mapping ls (nm_path nm) = None \<and> map_of (state (ls_index ls)) (bd_new_id d) = None \<and>
     (\<exists>mb. ls_mailboxes ls = Some mb \<and> registry_up mb \<and> registry_lookup mb (nm_username nm, nm_mailbox nm) \<noteq> None)"
| "event_follows ls d (Ev_MailboxDeleted u m) \<longleftrightarrow>
     (\<forall>k u' m' fs. index_view ls k = Some (u', m', fs) \<and> starts_with k (u @ ''/'' @ m @ ''/'') \<longrightarrow> u' = u \<and> m' = m)"
| "event_follows ls d _ \<longleftrightarrow> True"

section \<open>Each event keeps index and specification together\<close>

definition quiet :: "bus_delivery \<Rightarrow> bool" where
  "quiet d \<longleftrightarrow> bd_index_pending d = [] \<and> bd_uid_pending d = []"

lemma get_next_uid_known:
  assumes "registry_up mb" and "registry_lookup mb (u, n) \<noteq> None"
  shows "\<exists>mb' x. get_next_uid [] u n mb = (mb', Ok x) \<and> registry_up mb' \<and> dom (registry_lookup mb') = dom (registry_lookup mb)"
proof -
  obtain info where i: "reg_get (state mb) u n = Some info"
    using assms(2) by (auto simp: registry_lookup_def reg_get_def)
  have "reg_inv (fst (reg_next_uid u n (state mb)))" using assms(1) by (auto simp: registry_up_def intro: reg_next_uid_inv)
  then show ?thesis using assms(1) i
    by (auto simp: registry_up_def get_next_uid_def registry_call_def client_op_direct reg_next_uid_def registry_lookup_def reg_get_def)
qed

lemma index_call_quiet:
  "alive a \<Longrightarrow> \<not> index_stops c \<Longrightarrow> client_call index_exec index_stops a [] c =
     (\<lparr>alive = True, state = fst (index_exec (state a) c)\<rparr>, Replied (snd (index_exec (state a) c)))"
  by (simp add: client_call_direct)

lemma index_view_iff:
  "index_view ls k = Some x \<longleftrightarrow>
    (\<exists>i e. ls_mapping ls k = Some i \<and> map_of (state (ls_index ls)) i = Some e \<and> x = entry_view e)"
  by (auto simp: index_view_def split: option.splits)

lemma listener_invD:
  assumes "listener_inv ls"
  shows "alive (ls_index ls)" and "backend_inv (state (ls_index ls))" and "al_wf (state (ls_index ls))"
    and "ls_mapping ls k = Some i \<Longrightarrow>
      \<exists>e x. map_of (state (ls_index ls)) i = Some e \<and> k = unique_id_key (me_username e) (im_mailbox (me_metadata e)) x"
    and "ls_mapping ls k = Some i \<Longrightarrow> ls_mapping ls l = Some i \<Longrightarrow> k = l"
    and "map_of (state (ls_index ls)) i = Some e \<Longrightarrow> \<exists>k. ls_mapping ls k = Some i"
  using assms unfolding listener_inv_def backend_inv_def by blast+

lemma listener_invI:
  assumes "backend_inv (state (ls_index ls))"
    and "\<And>k i. ls_mapping ls k = Some i \<Longrightarrow>
      \<exists>e x. map_of (state (ls_index ls)) i = Some e \<and> k = unique_id_key (me_username e) (im_mailbox (me_metadata e)) x"
    and "\<And>i e. map_of (state (ls_index ls)) i = Some e \<Longrightarrow> \<exists>k. ls_mapping ls k = Some i"
    and "\<And>k l i. ls_mapping ls k = Some i \<Longrightarrow> ls_mapping ls l = Some i \<Longrightarrow> k = l"
    and "alive (ls_index ls)"
  shows "listener_inv ls"
  unfolding listener_inv_def using assms by blast

lemma created_follows:
  assumes "listener_inv ls" and "quiet d" and "event_follows ls d (Ev_MessageCreated nm)"
  shows "listener_inv (handle_event d (Ev_MessageCreated nm) ls) \<and>
    index_view (handle_event d (Ev_MessageCreated nm) ls) = view_step (Ev_MessageCreated nm) (index_view ls)"
proof -
  note inv = listener_invD [OF assms(1)]
  obtain mb where mb: "ls_mailboxes ls = Some mb" "registry_up mb" "registry_lookup mb (nm_username nm, nm_mailbox nm) \<noteq> None"
    using assms(3) by auto
  obtain mb' u where u: "get_next_uid [] (nm_username nm) (nm_mailbox nm) mb = (mb', Ok u)"
    using get_next_uid_known [OF mb(2,3)] by blast
  let ?x = "indexed_of (bd_new_id d) u nm"
  let ?b = "state (ls_index ls)"
  obtain p where p: "snd (ib_add_message (nm_username nm) (nm_mailbox nm) ?x ?b) = Ok p"
    "map_of (fst (ib_add_message (nm_username nm) (nm_mailbox nm) ?x ?b)) =
       (map_of ?b)(bd_new_id d \<mapsto> \<lparr>me_metadata = ?x, me_path = p, me_username = nm_username nm\<rparr>)"
    using ib.add_ok [OF inv(3), of "nm_username nm" "nm_mailbox nm" ?x] by auto
  define ls' where "ls' = handle_event d (Ev_MessageCreated nm) ls"
  have l: "ls' = ls\<lparr>ls_mailboxes := Some mb',
      ls_index := \<lparr>alive = True, state = fst (ib_add_message (nm_username nm) (nm_mailbox nm) ?x ?b)\<rparr>,
      ls_mapping := (ls_mapping ls)(nm_path nm \<mapsto> bd_new_id d)\<rparr>"
    using assms(2) mb(1) u p(1) index_call_quiet [OF inv(1)]
    by (simp add: ls'_def on_message_created_def quiet_def case_prod_beta)
  have fresh: "ls_mapping ls (nm_path nm) = None" "map_of ?b (bd_new_id d) = None"
    and key: "nm_path nm = unique_id_key (nm_username nm) (nm_mailbox nm) (nm_unique_id nm)"
    using assms(3) by auto
  have notin: "ls_mapping ls k \<noteq> Some (bd_new_id d)" for k using inv(4) [of k "bd_new_id d"] fresh(2) by auto
  have "backend_inv (state (ls_index ls'))"
    using backend_inv_add [OF inv(2), of "nm_mailbox nm" ?x] by (simp add: l)
  moreover have "\<exists>e x. map_of (state (ls_index ls')) i = Some e \<and> k = unique_id_key (me_username e) (im_mailbox (me_metadata e)) x"
    if "ls_mapping ls' k = Some i" for k i
    using that inv(4) [of k i] key fresh(2) by (auto simp: l p(2) split: if_splits)
  moreover have "\<exists>k. ls_mapping ls' k = Some i" if "map_of (state (ls_index ls')) i = Some e" for i e
  proof (cases "i = bd_new_id d")
    case True
    then show ?thesis by (intro exI [of _ "nm_path nm"]) (simp add: l)
  next
    case False
    then have "map_of ?b i = Some e" using that by (simp add: l p(2))
    then obtain k where "ls_mapping ls k = Some i" using inv(6) by blast
    then show ?thesis using fresh(1) by (intro exI [of _ k]) (auto simp: l)
  qed
  moreover have "ls_mapping ls' k = Some i \<Longrightarrow> ls_mapping ls' l = Some i \<Longrightarrow> k = l" for k l i
    using inv(5) [of k i l] notin by (auto simp: l split: if_splits)
  moreover have "alive (ls_index ls')" by (simp add: l)
  ultimately have "listener_inv ls'" by (rule listener_invI)
  moreover have "index_view ls' k = view_step (Ev_MessageCreated nm) (index_view ls) k" for k
    using notin [of k] key
    by (auto simp: index_view_def l p(2) entry_view_def split: option.splits)
  ultimately show ?thesis unfolding ls'_def by blast
qed

lemma modified_follows:
  assumes "listener_inv ls" and "quiet d"
  shows "listener_inv (handle_event d (Ev_MessageModified u m x fs) ls) \<and>
    index_view (handle_event d (Ev_MessageModified u m x fs) ls) = view_step (Ev_MessageModified u m x fs) (index_view ls)"
proof (cases "ls_mapping ls (unique_id_key u m x)")
  case None
  then show ?thesis using assms(1) by (simp add: on_message_modified_def index_view_def)
next
  case (Some i)
  note inv = listener_invD [OF assms(1)]
  let ?b = "state (ls_index ls)" and ?k = "unique_id_key u m x"
  obtain e where e: "map_of ?b i = Some e" using inv(4) [OF Some] by blast
  let ?e = "e\<lparr>me_metadata := (me_metadata e)\<lparr>im_flags := fs\<rparr>\<rparr>"
  have m: "map_of (fst (ib_update_flags i fs ?b)) = (map_of ?b)(i \<mapsto> ?e)" using ib.update_known [OF inv(3) e] by blast
  define ls' where "ls' = handle_event d (Ev_MessageModified u m x fs) ls"
  have l: "ls' = ls\<lparr>ls_index := \<lparr>alive = True, state = fst (ib_update_flags i fs ?b)\<rparr>\<rparr>"
    using assms(2) Some index_call_quiet [OF inv(1)] by (simp add: ls'_def on_message_modified_def quiet_def case_prod_beta)
  have "backend_inv (state (ls_index ls'))" using backend_inv_update [OF inv(2)] by (simp add: l)
  moreover have "\<exists>f y. map_of (state (ls_index ls')) j = Some f \<and> k = unique_id_key (me_username f) (im_mailbox (me_metadata f)) y"
    if "ls_mapping ls' k = Some j" for k j
    using that inv(4) [of k j] e by (cases "j = i") (auto simp: l m)
  moreover have "\<exists>k. ls_mapping ls' k = Some j" if "map_of (state (ls_index ls')) j = Some f" for j f
    using that inv(6) [of j] e by (cases "j = i") (auto simp: l m)
  moreover have "ls_mapping ls' k = Some j \<Longrightarrow> ls_mapping ls' l = Some j \<Longrightarrow> k = l" for k l j
    using inv(5) [of k j l] by (simp add: l)
  moreover have "alive (ls_index ls')" by (simp add: l)
  ultimately have "listener_inv ls'" by (rule listener_invI)
  moreover have "index_view ls' k = view_step (Ev_MessageModified u m x fs) (index_view ls) k" for k
  proof (cases "ls_mapping ls k = Some i")
    case True
    then have "k = ?k" using inv(5) Some by blast
    then show ?thesis using Some e by (simp add: index_view_def l m entry_view_def)
  next
    case False
    then have "k \<noteq> ?k" using Some by auto
    then show ?thesis using Some e False
      by (auto simp: index_view_def l m entry_view_def split: option.splits)
  qed
  ultimately show ?thesis unfolding ls'_def by blast
qed

lemma deleted_follows:
  assumes "listener_inv ls" and "quiet d"
  shows "listener_inv (handle_event d (Ev_MessageDeleted u m x) ls) \<and>
    index_view (handle_event d (Ev_MessageDeleted u m x) ls) = view_step (Ev_MessageDeleted u m x) (index_view ls)"
proof (cases "ls_mapping ls (unique_id_key u m x)")
  case None
  then show ?thesis using assms(1) by (auto simp: on_message_deleted_def index_view_def fun_eq_iff)
next
  case (Some i)
  note inv = listener_invD [OF assms(1)]
  let ?b = "state (ls_index ls)" and ?k = "unique_id_key u m x"
  have m: "map_of (fst (ib_delete_message i ?b)) = (map_of ?b)(i := None)" using ib.delete_ok [OF inv(3)] by blast
  define ls' where "ls' = handle_event d (Ev_MessageDeleted u m x) ls"
  have l: "ls' = ls\<lparr>ls_mapping := (ls_mapping ls)(?k := None), ls_index := \<lparr>alive = True, state = fst (ib_delete_message i ?b)\<rparr>\<rparr>"
    using assms(2) Some index_call_quiet [OF inv(1)] by (simp add: ls'_def on_message_deleted_def quiet_def case_prod_beta)
  have other: "j \<noteq> i" if "ls_mapping ls k = Some j" "k \<noteq> ?k" for k j using that inv(5) Some by blast
  have "backend_inv (state (ls_index ls'))" using backend_inv_delete [OF inv(2)] by (simp add: l)
  moreover have "\<exists>f y. map_of (state (ls_index ls')) j = Some f \<and> k = unique_id_key (me_username f) (im_mailbox (me_metadata f)) y"
    if "ls_mapping ls' k = Some j" for k j
    using that inv(4) [of k j] other [of k j] by (auto simp: l m split: if_splits)
  moreover have "\<exists>k. ls_mapping ls' k = Some j" if "map_of (state (ls_index ls')) j = Some f" for j f
    using that inv(6) [of j] Some by (auto simp: l m split: if_splits) (metis option.inject)
  moreover have "ls_mapping ls' k = Some j \<Longrightarrow> ls_mapping ls' l = Some j \<Longrightarrow> k = l" for k l j
    using inv(5) [of k j l] by (auto simp: l split: if_splits)
  moreover have "alive (ls_index ls')" by (simp add: l)
  ultimately have "listener_inv ls'" by (rule listener_invI)
  moreover have "index_view ls' k = view_step (Ev_MessageDeleted u m x) (index_view ls) k" for k
    using other [of k] by (auto simp: index_view_def l m split: option.splits)
  ultimately show ?thesis unfolding ls'_def by blast
qed

lemma key_below: "starts_with (unique_id_key u m x) (u @ ''/'' @ m @ ''/'')"
  by (simp add: starts_with_def unique_id_key_def)

lemma mailbox_deleted_follows:
  assumes "listener_inv ls" and "quiet d" and "event_follows ls d (Ev_MailboxDeleted u m)"
  shows "listener_inv (handle_event d (Ev_MailboxDeleted u m) ls) \<and>
    index_view (handle_event d (Ev_MailboxDeleted u m) ls) = view_step (Ev_MailboxDeleted u m) (index_view ls)"
proof -
  note inv = listener_invD [OF assms(1)]
  let ?b = "state (ls_index ls)"
  have r: "map_of (fst (ib_remove_mailbox u m ?b)) = map_retain (\<lambda>_ e. \<not> entry_in u m e) (map_of ?b)"
    using ib.remove_ok [OF inv(3)] by blast
  define ls' where "ls' = handle_event d (Ev_MailboxDeleted u m) ls"
  have l: "ls' = ls\<lparr>ls_index := \<lparr>alive = True, state = fst (ib_remove_mailbox u m ?b)\<rparr>,
      ls_mapping := map_retain (\<lambda>key _. \<not> starts_with key (u @ ''/'' @ m @ ''/'')) (ls_mapping ls)\<rparr>"
    using assms(2) index_call_quiet [OF inv(1)] by (simp add: ls'_def on_mailbox_deleted_def quiet_def case_prod_beta)
  have same: "starts_with k (u @ ''/'' @ m @ ''/'') \<longleftrightarrow> entry_in u m e"
    if "ls_mapping ls k = Some i" "map_of ?b i = Some e" for k i e
  proof
    assume "starts_with k (u @ ''/'' @ m @ ''/'')"
    moreover have "index_view ls k = Some (me_username e, im_mailbox (me_metadata e), im_flags (me_metadata e))"
      using that by (simp add: index_view_def entry_view_def)
    ultimately show "entry_in u m e" using assms(3) by (auto simp: entry_in_def)
  next
    assume "entry_in u m e"
    then show "starts_with k (u @ ''/'' @ m @ ''/'')"
      using inv(4) [OF that(1)] that(2) key_below by (auto simp: entry_in_def)
  qed
  have "backend_inv (state (ls_index ls'))" using backend_inv_remove [OF inv(2)] by (simp add: l)
  moreover have "\<exists>f y. map_of (state (ls_index ls')) j = Some f \<and> k = unique_id_key (me_username f) (im_mailbox (me_metadata f)) y"
    if "ls_mapping ls' k = Some j" for k j
    using that inv(4) [of k j] same [of k j] by (auto simp: l r)
  moreover have "\<exists>k. ls_mapping ls' k = Some j" if j: "map_of (state (ls_index ls')) j = Some f" for j f
  proof -
    have f: "map_of ?b j = Some f" "\<not> entry_in u m f" using j by (simp_all add: l r)
    obtain k where k: "ls_mapping ls k = Some j" using inv(6) [OF f(1)] by blast
    then show ?thesis using same [OF k f(1)] f(2) by (intro exI [of _ k]) (simp add: l)
  qed
  moreover have "ls_mapping ls' k = Some j \<Longrightarrow> ls_mapping ls' l = Some j \<Longrightarrow> k = l" for k l j
    using inv(5) [of k j l] by (auto simp: l)
  moreover have "alive (ls_index ls')" by (simp add: l)
  ultimately have "listener_inv ls'" by (rule listener_invI)
  moreover have "index_view ls' k = view_step (Ev_MailboxDeleted u m) (index_view ls) k" for k
  proof (cases "ls_mapping ls k")
    case None
    then show ?thesis by (simp add: index_view_def l map_retain_def)
  next
    case (Some i)
    then obtain e where e: "map_of ?b i = Some e" using inv(4) by blast
    then show ?thesis using same [OF Some e] Some
      by (auto simp: index_view_def l r map_retain_def entry_view_def entry_in_def)
  qed
  ultimately show ?thesis unfolding ls'_def by blast
qed

lemma event_keeps:
  assumes "listener_inv ls" and "quiet d" and "event_follows ls d ev"
  shows "listener_inv (handle_event d ev ls) \<and> index_view (handle_event d ev ls) = view_step ev (index_view ls)"
  using assms created_follows modified_follows deleted_follows mailbox_deleted_follows
  by (cases ev) (simp_all del: handle_event.simps(1-4) view_step.simps(1-4) event_follows.simps(1,2))

section \<open>Properties\<close>

text \<open>The deliveries of a run, each one followed by the state that the ones before it left.\<close>

fun deliveries_follow :: "bus_delivery list \<Rightarrow> listener \<Rightarrow> bool" where
  "deliveries_follow [] ls = True"
| "deliveries_follow (d # ds) ls = (quiet d \<and> event_follows ls d (bd_event d) \<and> deliveries_follow ds (handle_event d (bd_event d) ls))"

lemma listener_inv_new: "listener_inv (listener_new mb)"
  by (simp add: listener_inv_def listener_new_def index_new_def backend_new_def backend_inv_def)

lemma index_view_new [simp]: "index_view (listener_new mb) = Map.empty"
  by (simp add: listener_new_def index_view_def fun_eq_iff)

lemma event_listener_keeps:
  "listener_inv ls \<Longrightarrow> deliveries_follow ds ls \<Longrightarrow> listener_inv (event_listener ds ls) \<and>
   index_view (event_listener ds ls) = fold (view_step \<circ> bd_event) ds (index_view ls)"
proof (induction ds arbitrary: ls)
  case (Cons d ds)
  then show ?case using event_keeps [of ls d "bd_event d"] by simp
qed simp

text \<open>The deliveries of the examples: a message arrives in a registered mailbox, is read, another one arrives.\<close>

definition example_new_message :: "string \<Rightarrow> string \<Rightarrow> new_message" where
  "example_new_message m i = \<lparr>nm_username = ''amy'', nm_mailbox = m, nm_unique_id = i, nm_path = unique_id_key ''amy'' m i,
     nm_flags = [], nm_is_new = True, nm_from = ''bob'', nm_to = ''amy'', nm_subject = ''s'', nm_body_preview = ''b'',
     nm_size = 3, nm_internal_date = 0\<rparr>"

definition example_delivery :: "string \<Rightarrow> event \<Rightarrow> bus_delivery" where
  "example_delivery i ev = \<lparr>bd_event = ev, bd_new_id = MessageId i, bd_index_pending = [], bd_uid_pending = []\<rparr>"

definition example_listener :: listener where
  "example_listener = listener_new (Some (fst (create_mailbox [] ''amy'' ''INBOX'' mailboxes_new)))"

definition example_deliveries :: "bus_delivery list" where
  "example_deliveries = [example_delivery ''1'' (Ev_MessageCreated (example_new_message ''INBOX'' ''x'')),
     example_delivery ''2'' (Ev_MessageModified ''amy'' ''INBOX'' ''x'' [Seen])]"

lemma example_inbox:
  "registry_up (fst (create_mailbox [] ''amy'' ''INBOX'' mailboxes_new))"
  "registry_lookup (fst (create_mailbox [] ''amy'' ''INBOX'' mailboxes_new)) (''amy'', ''INBOX'') \<noteq> None"
  using mbs.create_fresh [OF registry_up_new, of "''amy''" "''INBOX''"]
  by (auto simp: registry_lookup_def mailboxes_new_def registry_init_def)

lemma example_follow: "deliveries_follow example_deliveries example_listener"
  using example_inbox
  by (simp add: example_deliveries_def example_listener_def example_delivery_def example_new_message_def listener_new_def
      index_new_def backend_new_def quiet_def)



lemma view_found_bij:
  assumes "listener_inv ls" and "\<And>x y. matches_query x q \<longleftrightarrow> P (im_flags x)"
  shows "bij_betw (\<lambda>k. make_message_path u m (the (ls_mapping ls k)))
    {k. \<exists>fs. index_view ls k = Some (u, m, fs) \<and> P fs} (found u m q (state (ls_index ls)))"
proof (rule bij_betw_imageI)
  note inv = listener_invD [OF assms(1)]
  have some: "\<exists>i. ls_mapping ls k = Some i" if "index_view ls k = Some x" for k x
    using that by (auto simp: index_view_iff)
  show "inj_on (\<lambda>k. make_message_path u m (the (ls_mapping ls k))) {k. \<exists>fs. index_view ls k = Some (u, m, fs) \<and> P fs}"
  proof (rule inj_onI)
    fix k l
    assume "k \<in> {k. \<exists>fs. index_view ls k = Some (u, m, fs) \<and> P fs}" "l \<in> {k. \<exists>fs. index_view ls k = Some (u, m, fs) \<and> P fs}"
      and eq: "make_message_path u m (the (ls_mapping ls k)) = make_message_path u m (the (ls_mapping ls l))"
    then obtain i j where "ls_mapping ls k = Some i" "ls_mapping ls l = Some j" using some by blast
    then show "k = l" using eq inv(5) by (simp add: make_message_path_inj)
  qed
  show "(\<lambda>k. make_message_path u m (the (ls_mapping ls k))) ` {k. \<exists>fs. index_view ls k = Some (u, m, fs) \<and> P fs} =
      found u m q (state (ls_index ls))"
  proof (rule set_eqI)
    fix p
    have "p \<in> found u m q (state (ls_index ls)) \<longleftrightarrow>
        (\<exists>i e. map_of (state (ls_index ls)) i = Some e \<and> entry_in u m e \<and> P (im_flags (me_metadata e)) \<and> p = make_message_path u m i)"
      unfolding found_iff [OF inv(2)] using assms(2) by simp
    also have "\<dots> \<longleftrightarrow> (\<exists>k i e. ls_mapping ls k = Some i \<and> map_of (state (ls_index ls)) i = Some e \<and> entry_in u m e \<and>
        P (im_flags (me_metadata e)) \<and> p = make_message_path u m i)" using inv(6) by blast
    also have "\<dots> \<longleftrightarrow> p \<in> (\<lambda>k. make_message_path u m (the (ls_mapping ls k))) ` {k. \<exists>fs. index_view ls k = Some (u, m, fs) \<and> P fs}"
      by (force simp: index_view_iff entry_view_def entry_in_def image_iff)
    finally show "p \<in> (\<lambda>k. make_message_path u m (the (ls_mapping ls k))) ` {k. \<exists>fs. index_view ls k = Some (u, m, fs) \<and> P fs}
        \<longleftrightarrow> p \<in> found u m q (state (ls_index ls))" by blast
  qed
qed



text \<open>
  Deleting a mailbox makes the index lose track of the messages in mailboxes below it: they
  stay in the index and are found by searches, but the event of their deletion has no effect
  any more.
\<close>

theorem parent_deletion_orphans_children:
  assumes "listener_inv ls" and "quiet d" and "quiet d'"
    and "ls_mapping ls (unique_id_key u (m @ ''/'' @ s) x) = Some i"
    and "map_of (state (ls_index ls)) i = Some e" and "entry_in u (m @ ''/'' @ s) e"
  shows "map_of (state (ls_index (handle_event d' (Ev_MessageDeleted u (m @ ''/'' @ s) x)
      (handle_event d (Ev_MailboxDeleted u m) ls)))) i = Some e"
proof -
  note inv = listener_invD [OF assms(1)]
  have key: "starts_with (unique_id_key u (m @ ''/'' @ s) x) (u @ ''/'' @ m @ ''/'')"
    by (simp add: starts_with_def unique_id_key_def)
  have "\<not> entry_in u m e" using assms(6) by (simp add: entry_in_def)
  then have "map_of (state (ls_index (handle_event d (Ev_MailboxDeleted u m) ls))) i = Some e"
    using ib.remove_ok [OF inv(3), of u m] assms(2,5) index_call_quiet [OF inv(1)]
    by (simp add: on_mailbox_deleted_def quiet_def case_prod_beta)
  moreover have "ls_mapping (handle_event d (Ev_MailboxDeleted u m) ls) (unique_id_key u (m @ ''/'' @ s) x) = None"
    using key by (simp add: on_mailbox_deleted_def map_retain_None)
  ultimately show ?thesis by (simp add: on_message_deleted_def)
qed

definition example_nested :: listener where
  "example_nested = event_listener [example_delivery ''1'' (Ev_MessageCreated (example_new_message ''a/b'' ''x''))]
     (listener_new (Some (fst (create_mailbox [] ''amy'' ''a/b'' mailboxes_new))))"

theorem parent_deletion_orphans_children_witness:
  "map_of (state (ls_index (handle_event (example_delivery ''3'' (Ev_MessageDeleted ''amy'' ''a/b'' ''x'')) (Ev_MessageDeleted ''amy'' ''a/b'' ''x'')
      (handle_event (example_delivery ''2'' (Ev_MailboxDeleted ''amy'' ''a'')) (Ev_MailboxDeleted ''amy'' ''a'') example_nested)))) (MessageId ''1'') \<noteq> None"
proof -
  let ?mb = "fst (create_mailbox [] ''amy'' ''a/b'' mailboxes_new)"
  have mb: "registry_up ?mb" "registry_lookup ?mb (''amy'', ''a/b'') \<noteq> None"
    using mbs.create_fresh [OF registry_up_new, of "''amy''" "''a/b''"] by (auto simp: registry_lookup_def mailboxes_new_def registry_init_def)
  then have f: "deliveries_follow [example_delivery ''1'' (Ev_MessageCreated (example_new_message ''a/b'' ''x''))] (listener_new (Some ?mb))"
    by (simp add: example_delivery_def example_new_message_def listener_new_def index_new_def backend_new_def quiet_def)
  have inv: "listener_inv example_nested" unfolding example_nested_def using event_listener_keeps [OF listener_inv_new f] by blast
  have k: "unique_id_key ''amy'' (''a'' @ ''/'' @ ''b'') ''x'' = ''amy/a/b/x''" by code_simp
  have "index_view example_nested = [''amy/a/b/x'' \<mapsto> (''amy'', ''a/b'', [])]"
    using event_listener_keeps [OF listener_inv_new f] k
    unfolding example_nested_def by (simp add: example_delivery_def example_new_message_def del: event_listener.simps)
  then obtain i e where i: "ls_mapping example_nested ''amy/a/b/x'' = Some i" "map_of (state (ls_index example_nested)) i = Some e"
    "entry_view e = (''amy'', ''a/b'', [])"
    using index_view_iff [of example_nested "''amy/a/b/x''" "(''amy'', ''a/b'', [])"] by auto
  moreover have "i = MessageId ''1''"
  proof -
    obtain mb' u where "get_next_uid [] ''amy'' ''a/b'' ?mb = (mb', Ok u)" using get_next_uid_known [OF mb] by blast
    then show ?thesis using i(1) unfolding example_nested_def
      by (simp add: example_delivery_def example_new_message_def listener_new_def on_message_created_def index_new_def
          client_call_direct case_prod_beta ib_add_message_def Let_def split: if_splits)
  qed
  ultimately show ?thesis
    using parent_deletion_orphans_children [OF inv, of "example_delivery ''2'' (Ev_MailboxDeleted ''amy'' ''a'')"
        "example_delivery ''3'' (Ev_MessageDeleted ''amy'' ''a/b'' ''x'')" "''amy''" "''a''" "''b''" "''x''" i e] k
    by (simp add: quiet_def example_delivery_def entry_in_def entry_view_def)
qed

end
