(* ===== verification/Mail_Sync.thy ===== *)
theory Mail_Sync
  imports Storage Watcher Indexer
begin

text \<open>
  The parts of the server that keep the index in step with the mail store, put together: the
  storage changes message files, the watcher is told by the file system and publishes events,
  the listener of the index follows them. A step is one change made through the storage and
  the report on it that the notify crate documents: a creation with the new path, a rename as
  one modification with the old and the new path, a removal with the old path.
\<close>

section \<open>Steps\<close>

datatype mail_op =
    Deliver string string string string "message_flag list" bytes
  | Set_Flags string string string "message_flag list"
  | Expunge string string string

definition message_file :: "string \<Rightarrow> string \<Rightarrow> string \<Rightarrow> string \<Rightarrow> message_flag list \<Rightarrow> path" where
  "message_file u m d i fs = [u, m, d, i @ flags_to_filename_component fs]"

definition well_named :: "string \<Rightarrow> string \<Rightarrow> string \<Rightarrow> string \<Rightarrow> bool" where
  "well_named u m d i \<longleftrightarrow> plain_name u \<and> plain_name m \<and> d \<in> set watch_subdirectories \<and> maildir_id i"

definition files :: "watcher_config \<Rightarrow> watcher \<Rightarrow> path \<rightharpoonup> bytes" where
  "files cfg w = stored (wc_root cfg) (fs_tree (wa_fs w))"

definition report :: "watcher_config \<Rightarrow> datetime \<Rightarrow> event_class \<Rightarrow> path list \<Rightarrow> watcher \<Rightarrow> watcher" where
  "report cfg now cls ps = handle_filesystem_event cfg now \<lparr>ne_kind = cls, ne_paths = ps\<rparr>"

text \<open>The storage runs a command with success.\<close>

definition executes :: "watcher_config \<Rightarrow> fs \<Rightarrow> storage_command \<Rightarrow> fs \<Rightarrow> bool" where
  "executes cfg s c s' \<longleftrightarrow> storage_exec (filesystem_store (wc_root cfg)) s c = (s', SR_Unit (Ok ()))"

inductive sync_step :: "watcher_config \<Rightarrow> watcher \<Rightarrow> mail_op \<Rightarrow> watcher \<Rightarrow> bool" for cfg where
  step_deliver: "well_named u m d i \<Longrightarrow> (\<And>e gs. files cfg w (message_file u m e i gs) = None) \<Longrightarrow>
    wc_parse_mail cfg c = Some email \<Longrightarrow>
    executes cfg (wa_fs w) (SC_Write (join_with ''/'' (message_file u m d i fs)) c) s \<Longrightarrow>
    sync_step cfg w (Deliver u m d i fs c)
      (report cfg now EC_Create [wc_root cfg @ message_file u m d i fs] (w\<lparr>wa_fs := s\<rparr>))"
| step_flags: "well_named u m d i \<Longrightarrow> files cfg w (message_file u m d i gs) = Some c \<Longrightarrow>
    flagged_path (wc_format cfg) fs (join_with ''/'' (message_file u m d i gs)) = Ok q \<Longrightarrow>
    executes cfg (wa_fs w) (SC_Move (join_with ''/'' (message_file u m d i gs)) q) s \<Longrightarrow>
    sync_step cfg w (Set_Flags u m i fs)
      (report cfg now EC_Modify [wc_root cfg @ message_file u m d i gs, path_join (wc_root cfg) q] (w\<lparr>wa_fs := s\<rparr>))"
| step_expunge: "well_named u m d i \<Longrightarrow> files cfg w (message_file u m d i gs) = Some c \<Longrightarrow>
    executes cfg (wa_fs w) (SC_Remove (join_with ''/'' (message_file u m d i gs))) s \<Longrightarrow>
    sync_step cfg w (Expunge u m i)
      (report cfg now EC_Remove [wc_root cfg @ message_file u m d i gs] (w\<lparr>wa_fs := s\<rparr>))"

inductive_cases deliver_cases: "sync_step cfg w (Deliver u m d i fs c) w'"
inductive_cases flags_cases: "sync_step cfg w (Set_Flags u m i fs) w'"
inductive_cases expunge_cases: "sync_step cfg w (Expunge u m i) w'"

inductive sync_run :: "watcher_config \<Rightarrow> watcher \<Rightarrow> mail_op list \<Rightarrow> watcher \<Rightarrow> bool" for cfg where
  run_none: "sync_run cfg w [] w"
| run_step: "sync_run cfg w ops w' \<Longrightarrow> sync_step cfg w' op w'' \<Longrightarrow> sync_run cfg w (ops @ [op]) w''"

section \<open>The specification\<close>

text \<open>The messages that there are, by user, mailbox and identifier: directory, flags, content.\<close>

type_synonym mail_spec = "string \<times> string \<times> string \<rightharpoonup> string \<times> message_flag list \<times> bytes"

fun spec_op :: "mail_op \<Rightarrow> mail_spec \<Rightarrow> mail_spec" where
  "spec_op (Deliver u m d i fs c) F = F((u, m, i) \<mapsto> (d, fs, c))"
| "spec_op (Set_Flags u m i fs) F = (case F (u, m, i) of
     None \<Rightarrow> F | Some (d, gs, c) \<Rightarrow> F((u, m, i) \<mapsto> (seen_dir fs, fs, c)))"
| "spec_op (Expunge u m i) F = F((u, m, i) := None)"

text \<open>The flags that the index is to hold: those kept in the name, and Recent for a new message.\<close>

definition shown_flags :: "string \<Rightarrow> message_flag list \<Rightarrow> message_flag list" where
  "shown_flags d fs = (if d = ''new'' then kept_flags fs @ [Recent] else kept_flags fs)"

text \<open>What the specification says about the files and about the view of the events.\<close>

definition spec_named :: "mail_spec \<Rightarrow> bool" where
  "spec_named F \<longleftrightarrow> (\<forall>u m i d fs c. F (u, m, i) = Some (d, fs, c) \<longrightarrow> well_named u m d i)"

definition spec_files :: "mail_spec \<Rightarrow> (path \<rightharpoonup> bytes) \<Rightarrow> bool" where
  "spec_files = represents (\<lambda>(u, m, i) (d, fs, c). message_file u m d i fs) (\<lambda>_ (d, fs, c). c)"

definition spec_view :: "mail_spec \<Rightarrow> message_view \<Rightarrow> bool" where
  "spec_view = represents (\<lambda>(u, m, i) _. unique_id_key u m i) (\<lambda>(u, m, i) (d, fs, c). (u, m, shown_flags d fs))"

definition view_of :: "event list \<Rightarrow> message_view" where
  "view_of evs = fold view_step evs Map.empty"

definition sync_rel :: "watcher_config \<Rightarrow> mail_spec \<Rightarrow> watcher \<Rightarrow> bool" where
  "sync_rel cfg F w \<longleftrightarrow> store_ready (wc_root cfg) (wa_fs w) \<and> spec_named F \<and> spec_files F (files cfg w) \<and>
     spec_view F (view_of (wa_published w))"

section \<open>Names\<close>

lemma unique_id_key_inj:
  assumes "CHR ''/'' \<notin> set u" and "CHR ''/'' \<notin> set u'" and "CHR ''/'' \<notin> set m" and "CHR ''/'' \<notin> set m'"
  shows "unique_id_key u m i = unique_id_key u' m' i' \<longleftrightarrow> u = u' \<and> m = m' \<and> i = i'"
proof
  assume e: "unique_id_key u m i = unique_id_key u' m' i'"
  have cut: "v = v' \<and> x = x'" if "CHR ''/'' \<notin> set v" "CHR ''/'' \<notin> set v'" "v @ CHR ''/'' # x = v' @ CHR ''/'' # x'" for v v' x x'
  proof -
    have "splitn2 CHR ''/'' (v @ CHR ''/'' # x) = splitn2 CHR ''/'' (v' @ CHR ''/'' # x')" using that(3) by (rule arg_cong)
    then show ?thesis unfolding splitn2_found [OF that(1)] splitn2_found [OF that(2)] by simp
  qed
  have "u @ CHR ''/'' # (m @ CHR ''/'' # i) = u' @ CHR ''/'' # (m' @ CHR ''/'' # i')"
    using e by (simp add: unique_id_key_def)
  then show "u = u' \<and> m = m' \<and> i = i'" using cut [OF assms(1,2)] cut [OF assms(3,4)] by blast
qed simp

lemma well_named_plain: "well_named u m d i \<Longrightarrow> CHR ''/'' \<notin> set u \<and> CHR ''/'' \<notin> set m"
  by (simp add: well_named_def plain_name_def)

lemma well_named_key: "well_named u m d i \<Longrightarrow> well_named u' m' d' i' \<Longrightarrow>
  unique_id_key u m i = unique_id_key u' m' i' \<longleftrightarrow> u = u' \<and> m = m' \<and> i = i'"
  using well_named_plain unique_id_key_inj by meson

lemma message_file_names:
  assumes "well_named u m d i"
  shows "\<forall>s\<in>set (message_file u m d i fs). plain_name s"
  using assms maildir_filename_plain [of i fs] maildir.subdirectories_plain [of d]
  by (simp add: message_file_def well_named_def)

lemma message_file_path:
  assumes "well_named u m d i"
  shows "message_path (join_with ''/'' (message_file u m d i fs))"
    and "path_components (join_with ''/'' (message_file u m d i fs)) = message_file u m d i fs"
    and "message_key (message_file u m d i fs)"
    and "path_join root (join_with ''/'' (message_file u m d i fs)) = root @ message_file u m d i fs"
proof -
  note n = message_file_names [OF assms, of fs]
  show c: "path_components (join_with ''/'' (message_file u m d i fs)) = message_file u m d i fs"
    by (rule path_components_join [OF n])
  show p: "message_path (join_with ''/'' (message_file u m d i fs))"
    using message_path_names(1) n unfolding message_file_def by blast
  show "message_key (message_file u m d i fs)" using message_pathD [OF p] c by simp
  show "path_join root (join_with ''/'' (message_file u m d i fs)) = root @ message_file u m d i fs"
    by (rule path_join_names [OF n])
qed

lemma message_file_parsed:
  "well_named u m d i \<Longrightarrow> parse_message_path (root @ message_file u m d i fs) root =
     Some \<lparr>pm_unique_id = i, pm_flags = kept_flags fs, pm_is_new = (d = ''new''), pm_username = u, pm_mailbox = m\<rparr>"
  using parse_message_path_at [of i root u m d fs]
  by (auto simp: message_file_def well_named_def watch_subdirectories_def)

lemma message_file_eq:
  assumes "well_named u m d i" and "well_named u' m' d' i'"
    and "message_file u m d i fs = message_file u' m' d' i' fs'"
  shows "u = u'" and "m = m'" and "d = d'" and "i = i'" and "kept_flags fs = kept_flags fs'"
  using message_file_parsed [OF assms(1), of "[]" fs] message_file_parsed [OF assms(2), of "[]" fs'] assms(3)
  by (auto simp: message_file_def)

section \<open>One step\<close>

lemma spec_namedD: "spec_named F \<Longrightarrow> F (u, m, i) = Some (d, fs, c) \<Longrightarrow> well_named u m d i"
  unfolding spec_named_def by blast

lemma spec_filesD:
  assumes "spec_named F" and "spec_files F n" and "well_named u m d i" and "n (message_file u m d i gs) = Some c"
  shows "\<exists>fs. F (u, m, i) = Some (d, fs, c) \<and> message_file u m d i gs = message_file u m d i fs \<and> kept_flags gs = kept_flags fs"
proof -
  obtain u' m' i' d' fs where f: "F (u', m', i') = Some (d', fs, c)" "message_file u m d i gs = message_file u' m' d' i' fs"
    using represents_get [OF assms(2) [unfolded spec_files_def] assms(4)] by auto
  then show ?thesis using message_file_eq [OF assms(3) spec_namedD [OF assms(1) f(1)] f(2)] by auto
qed

lemma spec_files_none:
  assumes "spec_files F n" and "\<And>e gs. n (message_file u m e i gs) = None"
  shows "F (u, m, i) = None"
proof (rule ccontr)
  assume "F (u, m, i) \<noteq> None"
  then obtain d fs c where "F (u, m, i) = Some (d, fs, c)" by auto
  then show False using represents_has [OF assms(1) [unfolded spec_files_def]] assms(2) by fastforce
qed

text \<open>File names and keys keep well-named messages apart.\<close>

lemma files_apart:
  assumes "spec_named F" and "well_named u m d i" and "F t = Some v"
    and "(case t of (u, m, i) \<Rightarrow> \<lambda>(d, fs, c). message_file u m d i fs) v = message_file u m d i gs"
  shows "t = (u, m, i)"
proof -
  obtain u' m' i' d' fs c where tv: "t = (u', m', i')" "v = (d', fs, c)" by (metis prod_cases3)
  then show ?thesis using message_file_eq [OF spec_namedD [OF assms(1), of u' m' i' d' fs c] assms(2), of fs gs] assms(3,4) by simp
qed

lemma keys_apart:
  assumes "spec_named F" and "well_named u m d i" and "F t = Some v"
    and "(case t of (u, m, i) \<Rightarrow> \<lambda>_. unique_id_key u m i) v = unique_id_key u m i"
  shows "t = (u, m, i)"
proof -
  obtain u' m' i' d' fs c where tv: "t = (u', m', i')" "v = (d', fs, c)" by (metis prod_cases3)
  then show ?thesis using well_named_key [OF spec_namedD [OF assms(1)] assms(2), of u' m' i' d' fs c] assms(3,4) by simp
qed

lemma spec_named_put: "spec_named F \<Longrightarrow> well_named u m d i \<Longrightarrow> spec_named (F((u, m, i) \<mapsto> (d, fs, c)))"
  by (simp add: spec_named_def)

lemma spec_named_drop: "spec_named F \<Longrightarrow> spec_named (F((u, m, i) := None))"
  by (simp add: spec_named_def)

lemma spec_files_put:
  assumes "spec_named F" and "spec_files F n" and "well_named u m d i" and "F (u, m, i) = None"
  shows "spec_files (F((u, m, i) \<mapsto> (d, fs, c))) (n(message_file u m d i fs \<mapsto> c))"
  using represents_put [OF assms(2) [unfolded spec_files_def] assms(4), of "(d, fs, c)"] files_apart [OF assms(1,3)] assms(4)
  by (force simp: spec_files_def)

lemma spec_files_drop:
  assumes "spec_named F" and "spec_files F n" and "F (u, m, i) = Some (d, fs, c)"
  shows "spec_files (F((u, m, i) := None)) (n(message_file u m d i fs := None))"
  using represents_drop [OF assms(2) [unfolded spec_files_def] assms(3)] files_apart [OF assms(1) spec_namedD [OF assms(1,3)]]
  by (simp add: spec_files_def)

lemma spec_files_replace:
  assumes "spec_named F" and "spec_files F n" and "F (u, m, i) = Some (d, gs, c)" and "well_named u m e i"
  shows "spec_files (F((u, m, i) \<mapsto> (e, fs, c))) ((n(message_file u m d i gs := None))(message_file u m e i fs \<mapsto> c))"
  using represents_replace [OF assms(2) [unfolded spec_files_def] assms(3), of "(e, fs, c)"]
    files_apart [OF assms(1) spec_namedD [OF assms(1,3)]] files_apart [OF assms(1,4)]
  by (simp add: spec_files_def)

lemma spec_view_put:
  assumes "spec_named F" and "spec_view F v" and "well_named u m d i"
  shows "spec_view (F((u, m, i) \<mapsto> (d, fs, c))) (v(unique_id_key u m i \<mapsto> (u, m, shown_flags d fs)))"
proof (cases "F (u, m, i)")
  case None
  then show ?thesis
    using represents_put [OF assms(2) [unfolded spec_view_def] None, of "(d, fs, c)"] keys_apart [OF assms(1,3)]
    by (force simp: spec_view_def)
next
  case (Some w)
  show ?thesis
    using represents_replace [OF assms(2) [unfolded spec_view_def] Some keys_apart [OF assms(1,3)] keys_apart [OF assms(1,3)],
        where v = "(d, fs, c)"]
    by (simp add: spec_view_def)
qed

lemma spec_view_drop:
  assumes "spec_named F" and "spec_view F v" and "F (u, m, i) = Some (d, fs, c)"
  shows "spec_view (F((u, m, i) := None)) (v(unique_id_key u m i := None))"
  using represents_drop [OF assms(2) [unfolded spec_view_def] assms(3)] keys_apart [OF assms(1) spec_namedD [OF assms(1,3)]]
  by (simp add: spec_view_def)

section \<open>What the watcher makes of a report\<close>

lemma view_of_append: "view_of (evs @ es) = fold view_step es (view_of evs)"
  by (simp add: view_of_def)

definition named_message :: "string \<Rightarrow> string \<Rightarrow> string \<Rightarrow> string \<Rightarrow> message_flag list \<Rightarrow> parsed_message" where
  "named_message u m d i fs = \<lparr>pm_unique_id = i, pm_flags = kept_flags fs, pm_is_new = (d = ''new''), pm_username = u, pm_mailbox = m\<rparr>"

lemma named_message_sel [simp]:
  "pm_unique_id (named_message u m d i fs) = i" "pm_username (named_message u m d i fs) = u"
  "pm_mailbox (named_message u m d i fs) = m" "event_flags (named_message u m d i fs) = shown_flags d fs"
  by (simp_all add: named_message_def event_flags_def shown_flags_def)

lemma created_event_view:
  "view_step (created_event u m (named_message u m d i fs) email c now) v = v(unique_id_key u m i \<mapsto> (u, m, shown_flags d fs))"
  by (simp add: created_event_def)

lemma report_create:
  assumes "wc_format cfg = maildir_format" and "well_named u m d i" and "leaves (wc_root cfg) n (wa_fs w)"
    and "n (message_file u m d i fs) = Some c" and "wc_parse_mail cfg c = Some email"
  obtains s where "report cfg now EC_Create [wc_root cfg @ message_file u m d i fs] w =
      wa_publish (created_event u m (named_message u m d i fs) email c now) (w\<lparr>wa_fs := s\<rparr>)"
    and "leaves (wc_root cfg) n s"
proof -
  let ?k = "message_file u m d i fs"
  note key = message_file_path(3) [OF assms(2), of fs]
  obtain s0 where s0: "fs_exists (wc_root cfg @ ?k) (wa_fs w) = (s0, n ?k \<noteq> None)" "leaves (wc_root cfg) n s0"
    using exists_leaves [OF assms(3) key] .
  obtain s1 where s1: "fs_read_file (wc_root cfg @ ?k) s0 = (s1, Inr c)" "leaves (wc_root cfg) n s1"
    using read_file_leaves [OF s0(2) key assms(4)] .
  have "handle_create_event cfg now (wc_root cfg @ ?k) w =
      wa_publish (created_event u m (named_message u m d i fs) email c now) (w\<lparr>wa_fs := s1\<rparr>)"
    using s0(1) s1(1) assms(4,5) message_file_parsed [OF assms(2), of "wc_root cfg" fs]
    by (simp add: handle_create_event_def assms(1) wa_call_def named_message_def)
  then show thesis using that s1(2) by (simp add: report_def handle_filesystem_event_def)
qed

lemma report_modify:
  assumes "wc_format cfg = maildir_format" and "well_named u m d i" and "well_named u m e i"
  shows "report cfg now EC_Modify [wc_root cfg @ message_file u m d i gs, wc_root cfg @ message_file u m e i fs] w =
    wa_publish (Ev_MessageModified u m i (shown_flags e fs)) (wa_publish (Ev_MessageModified u m i (shown_flags d gs)) w)"
  using message_file_parsed [OF assms(2), of "wc_root cfg" gs] message_file_parsed [OF assms(3), of "wc_root cfg" fs]
  by (simp add: report_def handle_filesystem_event_def handle_modify_event_def assms(1) event_flags_def shown_flags_def)

lemma report_remove:
  assumes "wc_format cfg = maildir_format" and "well_named u m d i"
  shows "report cfg now EC_Remove [wc_root cfg @ message_file u m d i gs] w = wa_publish (Ev_MessageDeleted u m i) w"
  using message_file_parsed [OF assms(2), of "wc_root cfg" gs]
  by (simp add: report_def handle_filesystem_event_def handle_remove_event_def assms(1))

section \<open>The simulation\<close>

lemma sync_relI:
  assumes "leaves (wc_root cfg) n (wa_fs w)" and "spec_named F" and "spec_files F n" and "spec_view F (view_of (wa_published w))"
  shows "sync_rel cfg F w"
  using assms leavesD [OF assms(1)] by (simp add: sync_rel_def files_def)

lemma sync_relD:
  assumes "sync_rel cfg F w"
  shows "leaves (wc_root cfg) (files cfg w) (wa_fs w)" and "spec_named F" and "spec_files F (files cfg w)"
    and "spec_view F (view_of (wa_published w))"
  using assms by (simp_all add: sync_rel_def files_def leaves_def)

lemma exec_leaves:
  assumes "leaves (wc_root cfg) n s" and "\<forall>p\<in>command_paths c. message_path p" and "executes cfg s c s'"
  shows "leaves (wc_root cfg) (fst (kv_exec path_components n c)) s'"
  using fstore.exec_refines [OF assms(1,2)] assms(3) by (simp add: executes_def)

lemma deliver_keeps:
  assumes cfg: "wc_format cfg = maildir_format" and rel: "sync_rel cfg F w" and step: "sync_step cfg w (Deliver u m d i fs c) w'"
  shows "sync_rel cfg (spec_op (Deliver u m d i fs c) F) w'"
  using step
proof (rule deliver_cases)
  fix email s now
  assume w: "well_named u m d i" and none: "\<And>e gs. files cfg w (message_file u m e i gs) = None"
    and mail: "wc_parse_mail cfg c = Some email"
    and exec: "executes cfg (wa_fs w) (SC_Write (join_with ''/'' (message_file u m d i fs)) c) s"
    and w': "w' = report cfg now EC_Create [wc_root cfg @ message_file u m d i fs] (w\<lparr>wa_fs := s\<rparr>)"
  note r = sync_relD [OF rel]
  let ?n = "(files cfg w)(message_file u m d i fs \<mapsto> c)"
  have l: "leaves (wc_root cfg) ?n s"
    using exec_leaves [OF r(1) _ exec] message_file_path(1,2) [OF w, of fs] by simp
  obtain s1 where s1: "w' = wa_publish (created_event u m (named_message u m d i fs) email c now) (w\<lparr>wa_fs := s1\<rparr>)"
      "leaves (wc_root cfg) ?n s1"
    using report_create [OF cfg w, of ?n "w\<lparr>wa_fs := s\<rparr>" fs c email now] l mail unfolding w' by auto
  show ?thesis
  proof (rule sync_relI)
    show "leaves (wc_root cfg) ?n (wa_fs w')" using s1 by simp
    show "spec_named (spec_op (Deliver u m d i fs c) F)" using spec_named_put [OF r(2) w] by simp
    show "spec_files (spec_op (Deliver u m d i fs c) F) ?n"
      using spec_files_put [OF r(2,3) w spec_files_none [OF r(3) none]] by simp
    show "spec_view (spec_op (Deliver u m d i fs c) F) (view_of (wa_published w'))"
      using spec_view_put [OF r(2,4) w] by (simp add: s1(1) view_of_append created_event_view)
  qed
qed

lemma flags_keeps:
  assumes cfg: "wc_format cfg = maildir_format" and rel: "sync_rel cfg F w" and step: "sync_step cfg w (Set_Flags u m i fs) w'"
  shows "sync_rel cfg (spec_op (Set_Flags u m i fs) F) w'"
  using step
proof (rule flags_cases)
  fix d gs c q s now
  let ?old = "message_file u m d i gs" and ?new = "message_file u m (seen_dir fs) i fs"
  assume w: "well_named u m d i" and fl: "files cfg w ?old = Some c"
    and q: "flagged_path (wc_format cfg) fs (join_with ''/'' ?old) = Ok q"
    and exec: "executes cfg (wa_fs w) (SC_Move (join_with ''/'' ?old) q) s"
    and w': "w' = report cfg now EC_Modify [wc_root cfg @ ?old, path_join (wc_root cfg) q] (w\<lparr>wa_fs := s\<rparr>)"
  note r = sync_relD [OF rel]
  have wn: "well_named u m (seen_dir fs) i" using w by (simp add: well_named_def seen_dir_def watch_subdirectories_def)
  have q': "q = join_with ''/'' ?new"
    using flagged_path_written [of i d u m fs gs] w q by (simp add: cfg well_named_def message_file_def)
  obtain gs' where F: "F (u, m, i) = Some (d, gs', c)" "?old = message_file u m d i gs'"
    using spec_filesD [OF r(2,3) w fl] by blast
  let ?n = "((files cfg w)(?old := None))(?new \<mapsto> c)"
  have l: "leaves (wc_root cfg) ?n s"
    using exec_leaves [OF r(1) _ exec] message_file_path(1,2) [OF w, of gs] message_file_path(1,2) [OF wn, of fs] fl
    by (simp add: q')
  have w'': "w' = wa_publish (Ev_MessageModified u m i (shown_flags (seen_dir fs) fs))
      (wa_publish (Ev_MessageModified u m i (shown_flags d gs)) (w\<lparr>wa_fs := s\<rparr>))"
    unfolding w' q' message_file_path(4) [OF wn] by (rule report_modify [OF cfg w wn])
  have known: "view_of (wa_published w) (unique_id_key u m i) = Some (u, m, shown_flags d gs')"
    using represents_has [OF r(4) [unfolded spec_view_def] F(1)] by simp
  show ?thesis
  proof (rule sync_relI)
    show "leaves (wc_root cfg) ?n (wa_fs w')" using l by (simp add: w'')
    show "spec_named (spec_op (Set_Flags u m i fs) F)" using spec_named_put [OF r(2) wn] F(1) by simp
    show "spec_files (spec_op (Set_Flags u m i fs) F) ?n"
      using spec_files_replace [OF r(2,3) F(1) wn, of fs] F by simp
    show "spec_view (spec_op (Set_Flags u m i fs) F) (view_of (wa_published w'))"
      using spec_view_put [OF r(2,4) wn, of fs c] F(1) known by (simp add: w'' view_of_append)
  qed
qed

lemma expunge_keeps:
  assumes cfg: "wc_format cfg = maildir_format" and rel: "sync_rel cfg F w" and step: "sync_step cfg w (Expunge u m i) w'"
  shows "sync_rel cfg (spec_op (Expunge u m i) F) w'"
  using step
proof (rule expunge_cases)
  fix d gs c s now
  let ?old = "message_file u m d i gs"
  assume w: "well_named u m d i" and fl: "files cfg w ?old = Some c"
    and exec: "executes cfg (wa_fs w) (SC_Remove (join_with ''/'' ?old)) s"
    and w': "w' = report cfg now EC_Remove [wc_root cfg @ ?old] (w\<lparr>wa_fs := s\<rparr>)"
  note r = sync_relD [OF rel]
  obtain gs' where F: "F (u, m, i) = Some (d, gs', c)" "?old = message_file u m d i gs'"
    using spec_filesD [OF r(2,3) w fl] by blast
  have l: "leaves (wc_root cfg) ((files cfg w)(?old := None)) s"
    using exec_leaves [OF r(1) _ exec] message_file_path(1,2) [OF w, of gs] fl by simp
  have w'': "w' = wa_publish (Ev_MessageDeleted u m i) (w\<lparr>wa_fs := s\<rparr>)"
    unfolding w' by (rule report_remove [OF cfg w])
  show ?thesis
  proof (rule sync_relI)
    show "leaves (wc_root cfg) ((files cfg w)(?old := None)) (wa_fs w')" using l by (simp add: w'')
    show "spec_named (spec_op (Expunge u m i) F)" using spec_named_drop [OF r(2)] by simp
    show "spec_files (spec_op (Expunge u m i) F) ((files cfg w)(?old := None))"
      using spec_files_drop [OF r(2,3) F(1)] F(2) by simp
    show "spec_view (spec_op (Expunge u m i) F) (view_of (wa_published w'))"
      using spec_view_drop [OF r(2,4) F(1)] by (simp add: w'' view_of_append)
  qed
qed

lemma sync_step_keeps:
  assumes "wc_format cfg = maildir_format" and "sync_rel cfg F w" and "sync_step cfg w op w'"
  shows "sync_rel cfg (spec_op op F) w'"
proof (cases op)
  case (Deliver u m d i fs c)
  then show ?thesis using deliver_keeps [OF assms(1,2)] assms(3) by simp
next
  case (Set_Flags u m i fs)
  then show ?thesis using flags_keeps [OF assms(1,2)] assms(3) by simp
next
  case (Expunge u m i)
  then show ?thesis using expunge_keeps [OF assms(1,2)] assms(3) by simp
qed

lemma sync_run_keeps:
  assumes "wc_format cfg = maildir_format" and "sync_run cfg w ops w'" and "sync_rel cfg F w"
  shows "sync_rel cfg (fold spec_op ops F) w'"
  using assms(2,3) by (induction rule: sync_run.induct) (auto intro: sync_step_keeps [OF assms(1)])

section \<open>The events can be followed\<close>

fun op_mailbox :: "mail_op \<Rightarrow> string \<times> string" where
  "op_mailbox (Deliver u m d i fs c) = (u, m)"
| "op_mailbox (Set_Flags u m i fs) = (u, m)"
| "op_mailbox (Expunge u m i) = (u, m)"

text \<open>The events of messages in the mailboxes \<open>B\<close>, each creation under a key that is free.\<close>

fun event_fresh :: "(string \<times> string) set \<Rightarrow> event \<Rightarrow> message_view \<Rightarrow> bool" where
  "event_fresh B (Ev_MessageCreated nm) v \<longleftrightarrow>
     nm_path nm = unique_id_key (nm_username nm) (nm_mailbox nm) (nm_unique_id nm) \<and> v (nm_path nm) = None \<and>
     (nm_username nm, nm_mailbox nm) \<in> B"
| "event_fresh B (Ev_MessageModified u m i fs) v = True"
| "event_fresh B (Ev_MessageDeleted u m i) v = True"
| "event_fresh B _ v = False"

fun events_fresh :: "(string \<times> string) set \<Rightarrow> event list \<Rightarrow> message_view \<Rightarrow> bool" where
  "events_fresh B [] v = True"
| "events_fresh B (e # es) v = (event_fresh B e v \<and> events_fresh B es (view_step e v))"

lemma events_fresh_append: "events_fresh B (es @ fs) v \<longleftrightarrow> events_fresh B es v \<and> events_fresh B fs (fold view_step es v)"
  by (induction es arbitrary: v) auto

lemma created_event_fresh:
  "event_fresh B (created_event u m (named_message u m d i fs) email c now) v \<longleftrightarrow> v (unique_id_key u m i) = None \<and> (u, m) \<in> B"
  by (auto simp: created_event_def message_event_path_def unique_id_key_def)

lemma sync_step_fresh:
  assumes cfg: "wc_format cfg = maildir_format" and rel: "sync_rel cfg F w" and "op_mailbox op \<in> B"
    and "sync_step cfg w op w'" and "events_fresh B (wa_published w) Map.empty"
  shows "events_fresh B (wa_published w') Map.empty"
  using assms(4)
proof cases
  case (step_deliver u m d i c email fs s now)
  note r = sync_relD [OF rel]
  let ?n = "(files cfg w)(message_file u m d i fs \<mapsto> c)"
  have "leaves (wc_root cfg) ?n s"
    using exec_leaves [OF r(1) _ step_deliver(6)] message_file_path(1,2) [OF step_deliver(3), of fs] by simp
  then obtain s1 where s1: "w' = wa_publish (created_event u m (named_message u m d i fs) email c now) (w\<lparr>wa_fs := s1\<rparr>)"
    using report_create [OF cfg step_deliver(3), of ?n "w\<lparr>wa_fs := s\<rparr>" fs c email now] step_deliver(2,5) by auto
  have "view_of (wa_published w) (unique_id_key u m i) = None"
  proof (rule ccontr)
    assume "view_of (wa_published w) (unique_id_key u m i) \<noteq> None"
    then obtain t v where "F t = Some v" "(case t of (u, m, i) \<Rightarrow> \<lambda>_. unique_id_key u m i) v = unique_id_key u m i"
      using represents_get [OF r(4) [unfolded spec_view_def]] by (metis option.exhaust)
    then show False
      using keys_apart [OF r(2) step_deliver(3)] spec_files_none [OF r(3) step_deliver(4)] by auto
  qed
  then show ?thesis using assms(3,5) step_deliver(1)
    by (simp add: s1 events_fresh_append created_event_fresh view_of_def)
next
  case (step_flags u m d i gs c fs q s now)
  have "well_named u m (seen_dir fs) i" using step_flags(3) by (simp add: well_named_def seen_dir_def watch_subdirectories_def)
  moreover have "q = join_with ''/'' (message_file u m (seen_dir fs) i fs)"
    using flagged_path_written [of i d u m fs gs] step_flags(3,5) by (simp add: cfg well_named_def message_file_def)
  ultimately show ?thesis
    using step_flags(2) report_modify [OF cfg step_flags(3)] message_file_path(4) assms(5) by (simp add: events_fresh_append)
next
  case (step_expunge u m d i gs c s now)
  then show ?thesis using report_remove [OF cfg step_expunge(3)] assms(5) by (simp add: events_fresh_append)
qed

lemma sync_run_fresh:
  assumes "wc_format cfg = maildir_format" and "sync_run cfg w ops w'" and "sync_rel cfg F w"
    and "\<forall>op\<in>set ops. op_mailbox op \<in> B" and "events_fresh B (wa_published w) Map.empty"
  shows "events_fresh B (wa_published w') Map.empty"
  using assms(2-5)
proof (induction rule: sync_run.induct)
  case (run_step w ops w' op w'')
  then show ?case
    using sync_step_fresh [OF assms(1) sync_run_keeps [OF assms(1) run_step.hyps(1) run_step.prems(1)], of op B w''] by simp
qed

section \<open>The listener follows them\<close>

definition listener_ids :: "listener \<Rightarrow> message_id set" where
  "listener_ids ls = dom (map_of (state (ls_index ls)))"

definition mailboxes_known :: "(string \<times> string) set \<Rightarrow> listener \<Rightarrow> bool" where
  "mailboxes_known B ls \<longleftrightarrow> (\<exists>mb. ls_mailboxes ls = Some mb \<and> registry_up mb \<and> B \<subseteq> dom (registry_lookup mb))"

lemma listener_event:
  assumes inv: "listener_inv ls" and q: "quiet d" and f: "event_follows ls d ev" and k: "mailboxes_known B ls"
    and fresh: "event_fresh B ev v"
  shows "listener_ids (handle_event d ev ls) \<subseteq> insert (bd_new_id d) (listener_ids ls) \<and> mailboxes_known B (handle_event d ev ls)"
proof (cases ev)
  case (Ev_MessageCreated nm)
  note i = listener_invD [OF inv]
  obtain mb where mb: "ls_mailboxes ls = Some mb" "registry_up mb" "registry_lookup mb (nm_username nm, nm_mailbox nm) \<noteq> None"
    using f Ev_MessageCreated by auto
  then have B: "B \<subseteq> dom (registry_lookup mb)" using k by (auto simp: mailboxes_known_def)
  obtain mb' u where u: "get_next_uid [] (nm_username nm) (nm_mailbox nm) mb = (mb', Ok u)" "registry_up mb'"
      "dom (registry_lookup mb') = dom (registry_lookup mb)"
    using get_next_uid_known [OF mb(2,3)] by blast
  let ?x = "indexed_of (bd_new_id d) u nm" and ?b = "state (ls_index ls)"
  obtain p where p: "snd (ib_add_message (nm_username nm) (nm_mailbox nm) ?x ?b) = Ok p"
    "map_of (fst (ib_add_message (nm_username nm) (nm_mailbox nm) ?x ?b)) =
       (map_of ?b)(bd_new_id d \<mapsto> \<lparr>me_metadata = ?x, me_path = p, me_username = nm_username nm\<rparr>)"
    using ib.add_ok [OF i(3), of "nm_username nm" "nm_mailbox nm" ?x] by auto
  have "handle_event d ev ls = ls\<lparr>ls_mailboxes := Some mb',
      ls_index := \<lparr>alive = True, state = fst (ib_add_message (nm_username nm) (nm_mailbox nm) ?x ?b)\<rparr>,
      ls_mapping := (ls_mapping ls)(nm_path nm \<mapsto> bd_new_id d)\<rparr>"
    using Ev_MessageCreated q mb(1) u(1) p(1) index_call_quiet [OF i(1)]
    by (simp add: on_message_created_def quiet_def case_prod_beta)
  then show ?thesis using p(2) u(2,3) B by (auto simp: listener_ids_def mailboxes_known_def)
next
  case (Ev_MessageModified u m x fs)
  note i = listener_invD [OF inv]
  show ?thesis
  proof (cases "ls_mapping ls (unique_id_key u m x)")
    case None
    then show ?thesis using k Ev_MessageModified by (auto simp: on_message_modified_def)
  next
    case (Some j)
    obtain e where e: "map_of (state (ls_index ls)) j = Some e" using i(4) [OF Some] by blast
    then have "dom (map_of (fst (ib_update_flags j fs (state (ls_index ls))))) = dom (map_of (state (ls_index ls)))"
      using ib.update_known [OF i(3) e, of fs] by auto
    then show ?thesis using k Ev_MessageModified Some q index_call_quiet [OF i(1)]
      by (auto simp: on_message_modified_def quiet_def case_prod_beta listener_ids_def mailboxes_known_def)
  qed
next
  case (Ev_MessageDeleted u m x)
  note i = listener_invD [OF inv]
  show ?thesis
  proof (cases "ls_mapping ls (unique_id_key u m x)")
    case None
    then show ?thesis using k Ev_MessageDeleted by (auto simp: on_message_deleted_def)
  next
    case (Some j)
    have "map_of (fst (ib_delete_message j (state (ls_index ls)))) = (map_of (state (ls_index ls)))(j := None)"
      using ib.delete_ok [OF i(3)] by blast
    then have "dom (map_of (fst (ib_delete_message j (state (ls_index ls))))) \<subseteq> dom (map_of (state (ls_index ls)))" by auto
    then show ?thesis using k Ev_MessageDeleted Some q index_call_quiet [OF i(1)]
      by (auto simp: on_message_deleted_def quiet_def case_prod_beta listener_ids_def mailboxes_known_def)
  qed
qed (use fresh in simp_all)

lemma fresh_event_follows:
  assumes "listener_inv ls" and "mailboxes_known B ls" and "event_fresh B ev (index_view ls)" and "bd_new_id d \<notin> listener_ids ls"
  shows "event_follows ls d ev"
proof (cases ev)
  case (Ev_MessageCreated nm)
  have "ls_mapping ls (nm_path nm) = None"
  proof (rule ccontr)
    assume "ls_mapping ls (nm_path nm) \<noteq> None"
    then obtain i where i: "ls_mapping ls (nm_path nm) = Some i" by auto
    then obtain e where "map_of (state (ls_index ls)) i = Some e" using listener_invD(4) [OF assms(1) i] by blast
    then show False using assms(3) Ev_MessageCreated i by (simp add: index_view_def)
  qed
  then show ?thesis using assms(2-4) Ev_MessageCreated by (auto simp: mailboxes_known_def listener_ids_def)
qed (use assms(3) in simp_all)

lemma fresh_deliveries_follow:
  assumes "listener_inv ls" and "mailboxes_known B ls" and "events_fresh B (map bd_event ds) (index_view ls)"
    and "\<forall>d\<in>set ds. quiet d" and "distinct (map bd_new_id ds)" and "\<forall>d\<in>set ds. bd_new_id d \<notin> listener_ids ls"
  shows "deliveries_follow ds ls"
  using assms
proof (induction ds arbitrary: ls)
  case (Cons d ds)
  let ?ls = "handle_event d (bd_event d) ls"
  have f: "event_follows ls d (bd_event d)" using fresh_event_follows Cons.prems by simp
  note keep = event_keeps [OF Cons.prems(1) _ f] and ev = listener_event [OF Cons.prems(1) _ f Cons.prems(2), of "index_view ls"]
  have "deliveries_follow ds ?ls"
  proof (rule Cons.IH)
    show "events_fresh B (map bd_event ds) (index_view ?ls)" using Cons.prems(3,4) keep by simp
    show "\<forall>x\<in>set ds. bd_new_id x \<notin> listener_ids ?ls"
    proof
      fix x
      assume x: "x \<in> set ds"
      have "bd_new_id x \<noteq> bd_new_id d" using Cons.prems(5) imageI [OF x, of bd_new_id] by auto
      then show "bd_new_id x \<notin> listener_ids ?ls" using ev Cons.prems(3,4,6) x by auto
    qed
  qed (use Cons.prems keep ev in simp_all)
  then show ?case using f Cons.prems(4) by simp
qed simp

section \<open>Every operation can be carried out\<close>

text \<open>The steps are not vacuous: on a store in the mail layout no operation fails.\<close>

lemma deliver_possible:
  assumes "wc_format cfg = maildir_format" and "sync_rel cfg F w" and "well_named u m d i" and "F (u, m, i) = None"
    and "wc_parse_mail cfg c = Some email"
  shows "\<exists>w'. sync_step cfg w (Deliver u m d i fs c) w'"
proof -
  note r = sync_relD [OF assms(2)]
  have none: "files cfg w (message_file u m e i gs) = None" for e gs
  proof (rule ccontr)
    assume "files cfg w (message_file u m e i gs) \<noteq> None"
    then obtain t v where tv: "F t = Some v" "message_file u m e i gs = (case t of (u, m, i) \<Rightarrow> \<lambda>(d, fs, c). message_file u m d i fs) v"
      using represents_get [OF r(3) [unfolded spec_files_def]] by (metis option.exhaust)
    obtain u' m' i' d' fs' c' where t: "t = (u', m', i')" "v = (d', fs', c')" by (metis prod_cases3)
    have w: "well_named u' m' d' i'" using spec_namedD [OF r(2)] tv(1) t by simp
    have e: "u = u'" "m = m'" "e = d'" using tv(2) t by (simp_all add: message_file_def)
    then have "well_named u m e i" using assms(3) w by (simp add: well_named_def)
    then have "i = i'" using message_file_eq(4) [OF _ w, of u m e i gs fs'] tv(2) t by simp
    then show False using assms(4) tv(1) t e by simp
  qed
  obtain s where "sm_write (filesystem_store (wc_root cfg)) (join_with ''/'' (message_file u m d i fs)) c (wa_fs w) = (s, Ok ())"
    using fstore.write_law [OF r(1) message_file_path(1) [OF assms(3)]] by blast
  then have "executes cfg (wa_fs w) (SC_Write (join_with ''/'' (message_file u m d i fs)) c) s" by (simp add: executes_def)
  then show ?thesis using step_deliver [OF assms(3) none assms(5)] by blast
qed

lemma flags_possible:
  assumes "wc_format cfg = maildir_format" and "sync_rel cfg F w" and "F (u, m, i) \<noteq> None"
  shows "\<exists>w'. sync_step cfg w (Set_Flags u m i fs) w'"
proof -
  note r = sync_relD [OF assms(2)]
  obtain d gs c where f: "F (u, m, i) = Some (d, gs, c)" using assms(3) by auto
  have w: "well_named u m d i" by (rule spec_namedD [OF r(2) f])
  have wn: "well_named u m (seen_dir fs) i" using w by (simp add: well_named_def seen_dir_def watch_subdirectories_def)
  have n: "files cfg w (message_file u m d i gs) = Some c"
    using represents_has [OF r(3) [unfolded spec_files_def] f] by simp
  have q: "flagged_path (wc_format cfg) fs (join_with ''/'' (message_file u m d i gs)) =
      Ok (join_with ''/'' (message_file u m (seen_dir fs) i fs))"
    using flagged_path_written [of i d u m fs gs] w by (simp add: assms(1) well_named_def message_file_def)
  obtain s where "sm_move_file (filesystem_store (wc_root cfg)) (join_with ''/'' (message_file u m d i gs))
      (join_with ''/'' (message_file u m (seen_dir fs) i fs)) (wa_fs w) = (s, Ok ())"
    using fstore.move_law [OF r(1) message_file_path(1) [OF w] message_file_path(1) [OF wn], of gs c fs] n
    unfolding message_file_path(2) [OF w] by blast
  then have "executes cfg (wa_fs w) (SC_Move (join_with ''/'' (message_file u m d i gs)) (join_with ''/'' (message_file u m (seen_dir fs) i fs))) s"
    by (simp add: executes_def)
  then show ?thesis using step_flags [OF w n q] by blast
qed

section \<open>Properties\<close>

lemma sync_rel_start:
  "store_ready (wc_root cfg) (wa_fs w) \<Longrightarrow> files cfg w = Map.empty \<Longrightarrow> wa_published w = [] \<Longrightarrow> sync_rel cfg Map.empty w"
  by (simp add: sync_rel_def spec_named_def spec_files_def spec_view_def view_of_def)


text \<open>The events of a list as quiet deliveries with identifiers of their own.\<close>

definition numbered_deliveries :: "event list \<Rightarrow> bus_delivery list" where
  "numbered_deliveries evs = map (\<lambda>(n, ev). example_delivery (replicate n CHR ''x'') ev) (enumerate 0 evs)"

lemma numbered_deliveries_facts:
  "map bd_event (numbered_deliveries evs) = evs" "\<forall>d\<in>set (numbered_deliveries evs). quiet d" "distinct (map bd_new_id (numbered_deliveries evs))"
proof -
  show "map bd_event (numbered_deliveries evs) = evs"
    by (simp add: numbered_deliveries_def example_delivery_def comp_def case_prod_beta)
  show "\<forall>d\<in>set (numbered_deliveries evs). quiet d"
    by (auto simp: numbered_deliveries_def example_delivery_def quiet_def)
  have "map bd_new_id (numbered_deliveries evs) = map (\<lambda>n. MessageId (replicate n CHR ''x'')) [0..<length evs]"
  proof -
    have "map (\<lambda>x. MessageId (replicate (fst x) CHR ''x'')) (enumerate 0 evs) =
        map (\<lambda>n. MessageId (replicate n CHR ''x'')) (map fst (enumerate 0 evs))"
      by (simp only: map_map comp_def)
    then show ?thesis
      by (simp add: numbered_deliveries_def example_delivery_def comp_def case_prod_beta)
  qed
  moreover have "inj (\<lambda>n. MessageId (replicate n CHR ''x''))" by (rule injI) simp
  ultimately show "distinct (map bd_new_id (numbered_deliveries evs))" by (simp add: distinct_map inj_def inj_on_def)
qed

text \<open>An example: a message is delivered to an empty store and read.\<close>

lemma example_empty: "files example_config example_watcher = Map.empty"
  by (auto simp: fun_eq_iff files_def stored_def example_config_def example_watcher_def example_fs_def)

lemma example_sync_run:
  "\<exists>w'. sync_run example_config example_watcher
     [Deliver ''amy'' ''INBOX'' ''new'' ''17'' [] [7, 8], Set_Flags ''amy'' ''INBOX'' ''17'' [Seen]] w' \<and>
   files example_config w' (message_file ''amy'' ''INBOX'' ''cur'' ''17'' [Seen]) = Some [7, 8]"
proof -
  let ?op = "Deliver ''amy'' ''INBOX'' ''new'' ''17'' [] [7, 8]" and ?cfg = example_config and ?w = example_watcher
  have cfg: "wc_format ?cfg = maildir_format" by (simp add: example_config_def)
  have s: "sync_rel ?cfg Map.empty ?w"
    using example_empty example_fs_ready by (intro sync_rel_start) (simp_all add: example_config_def example_watcher_def)
  obtain w1 where w1: "sync_step ?cfg ?w ?op w1"
    using deliver_possible [OF cfg s, of "''amy''" "''INBOX''" "''new''" "''17''" "[7, 8]" _ "[]"]
    by (auto simp: well_named_def plain_name_def maildir_id_def watch_subdirectories_def example_config_def)
  obtain w2 where w2: "sync_step ?cfg w1 (Set_Flags ''amy'' ''INBOX'' ''17'' [Seen]) w2"
    using flags_possible [OF cfg sync_step_keeps [OF cfg s w1], of "''amy''" "''INBOX''" "''17''" "[Seen]"] by auto
  have "files ?cfg w2 (message_file ''amy'' ''INBOX'' ''cur'' ''17'' [Seen]) = Some [7, 8]"
    using represents_has [OF sync_relD(3) [OF sync_step_keeps [OF cfg sync_step_keeps [OF cfg s w1] w2], unfolded spec_files_def],
        of "(''amy'', ''INBOX'', ''17'')"] by (simp add: seen_dir_def)
  then show ?thesis using run_step [OF run_step [OF run_none w1] w2] by auto
qed

lemma kept_seen: "shown_flags ''cur'' [Seen] = [Seen]"
  by (simp add: shown_flags_def kept_flags_def flag_chars_def parse_flags_def List.map_filter_def)


end
