(* ===== verification/User_Store.thy ===== *)
theory User_Store
  imports Core_Types
begin

text \<open>
  src/userstore/mod.rs and src/userstore/impl/sqlite.rs: the accounts in a table of an SQLite
  database. The database engine, the password hash and the date format are crates and so
  parameters: a record of functions over an unspecified state of the databases, which gets the
  SQL texts that the code sends. What the code relies on is stated once, as a hypothesis over
  a view of the users table; faults may hit every call of the engine.

  Each operation opens a connection, runs one statement and drops the connection, on a thread
  of \<open>spawn_blocking\<close>. One statement is atomic, so operations of other tasks come between
  operations. The join error of \<open>spawn_blocking\<close> (a panic or the end of the runtime) is not
  modelled.
\<close>

section \<open>The crates\<close>

record 'd crates =
  sq_open :: "string \<Rightarrow> 'd \<Rightarrow> 'd \<times> (string + unit)"
  sq_execute :: "string \<Rightarrow> string \<Rightarrow> string list \<Rightarrow> 'd \<Rightarrow> 'd \<times> (string + nat)"
  sq_query :: "string \<Rightarrow> string \<Rightarrow> string list \<Rightarrow> 'd \<Rightarrow> string + string list list"
  sq_close :: "string \<Rightarrow> 'd \<Rightarrow> 'd"
  bc_hash :: "string \<Rightarrow> string \<Rightarrow> string + string"
  bc_verify :: "string \<Rightarrow> string \<Rightarrow> string + bool"
  rfc3339_text :: "datetime \<Rightarrow> string"
  rfc3339_parse :: "string \<Rightarrow> string + datetime"

text \<open>
  The statements of the code. The argument of \<open>bc_hash\<close> before the password is the salt that
  the crate draws.
\<close>

definition sql_create_table :: string where
  "sql_create_table = (let newline = CHR 0x0A # replicate 20 CHR '' '' in
     ''CREATE TABLE IF NOT EXISTS users ('' @ newline @ ''username TEXT PRIMARY KEY,'' @ newline @
     ''password_hash TEXT NOT NULL,'' @ newline @ ''created_at TEXT NOT NULL'' @
     CHR 0x0A # replicate 16 CHR '' '' @ '')'')"

definition sql_insert :: string where
  "sql_insert = ''INSERT INTO users (username, password_hash, created_at) VALUES (?1, ?2, ?3)''"

definition sql_select_user :: string where
  "sql_select_user = ''SELECT username, password_hash, created_at FROM users WHERE username = ?1''"

definition sql_update :: string where
  "sql_update = ''UPDATE users SET password_hash = ?1 WHERE username = ?2''"

definition sql_delete :: string where
  "sql_delete = ''DELETE FROM users WHERE username = ?1''"

definition sql_select_names :: string where
  "sql_select_names = ''SELECT username FROM users''"

section \<open>The code\<close>

text \<open>\<open>Connection::open(..)?\<close>, the rest of the closure, and the drop of the connection at its end.\<close>

definition with_connection :: "'d crates \<Rightarrow> string \<Rightarrow> ('d \<Rightarrow> 'd \<times> 'a result) \<Rightarrow> 'd \<Rightarrow> 'd \<times> 'a result" where
  "with_connection X path body d =
     (case sq_open X path d of
        (d1, Inl e) \<Rightarrow> (d1, Err (from_rusqlite e))
      | (d1, Inr _) \<Rightarrow> (case body d1 of (d2, r) \<Rightarrow> (sq_close X path d2, r)))"

text \<open>A connection on which one statement is executed: \<open>bad\<close> is the \<open>map_err\<close>, \<open>good\<close> the rest.\<close>

definition run_statement ::
  "'d crates \<Rightarrow> string \<Rightarrow> string \<Rightarrow> string list \<Rightarrow> (string \<Rightarrow> error) \<Rightarrow> (nat \<Rightarrow> 'a result) \<Rightarrow> 'd \<Rightarrow> 'd \<times> 'a result" where
  "run_statement X path sql params bad good = with_connection X path (\<lambda>d.
     case sq_execute X path sql params d of
       (d', Inl e) \<Rightarrow> (d', Err (bad e))
     | (d', Inr affected) \<Rightarrow> (d', good affected))"

record sqlite_user_store =
  db_path :: string

definition create_users_table :: "'d crates \<Rightarrow> string \<Rightarrow> 'd \<Rightarrow> 'd \<times> unit result" where
  "create_users_table X path = run_statement X path sql_create_table [] from_rusqlite (\<lambda>_. Ok ())"

definition user_store_new :: "'d crates \<Rightarrow> string \<Rightarrow> 'd \<Rightarrow> 'd \<times> sqlite_user_store result" where
  "user_store_new X path d =
     (case create_users_table X path d of (d', Err e) \<Rightarrow> (d', Err e) | (d', Ok _) \<Rightarrow> (d', Ok \<lparr>db_path = path\<rparr>))"

text \<open>\<open>in_memory\<close>; the number is the static counter, which the call increments.\<close>

definition memory_path :: "64 word \<Rightarrow> string" where
  "memory_path i = ''file:memdb'' @ nat_text (unat i) @ ''?mode=memory&cache=shared''"

definition user_store_in_memory :: "'d crates \<Rightarrow> 64 word \<Rightarrow> 'd \<Rightarrow> 64 word \<times> 'd \<times> sqlite_user_store result" where
  "user_store_in_memory X counter d =
     (case create_users_table X (memory_path counter) d of
        (d', Err e) \<Rightarrow> (counter + 1, d', Err e)
      | (d', Ok _) \<Rightarrow> (counter + 1, d', Ok \<lparr>db_path = memory_path counter\<rparr>))"

definition insert_error :: "string \<Rightarrow> string \<Rightarrow> error" where
  "insert_error username e =
     (if contains_str e ''UNIQUE constraint failed'' then AlreadyExists (''User already exists: '' @ username)
      else from_rusqlite e)"

definition create_user :: "'d crates \<Rightarrow> sqlite_user_store \<Rightarrow> string \<Rightarrow> datetime \<Rightarrow> string \<Rightarrow> string \<Rightarrow> 'd \<Rightarrow> 'd \<times> unit result" where
  "create_user X s salt now username password d =
     (case bc_hash X salt password of
        Inl e \<Rightarrow> (d, Err (Internal (''Failed to hash password: '' @ e)))
      | Inr password_hash \<Rightarrow>
          run_statement X (db_path s) sql_insert [username, password_hash, rfc3339_text X now]
            (insert_error username) (\<lambda>_. Ok ()) d)"

text \<open>\<open>row.get(i)?\<close>\<close>

definition row_get :: "nat \<Rightarrow> string list \<Rightarrow> string result" where
  "row_get i row = (if i < length row then Ok (row ! i) else Err (from_rusqlite (''Invalid column index: '' @ nat_text i)))"

definition read_user :: "'d crates \<Rightarrow> string list \<Rightarrow> user option result" where
  "read_user X row =
     (case row_get 0 row of Err e \<Rightarrow> Err e | Ok username \<Rightarrow>
      case row_get 1 row of Err e \<Rightarrow> Err e | Ok password_hash \<Rightarrow>
      case row_get 2 row of Err e \<Rightarrow> Err e | Ok created_at_str \<Rightarrow>
      case rfc3339_parse X created_at_str of
        Inl e \<Rightarrow> Err (Internal (''Failed to parse date: '' @ e))
      | Inr created_at \<Rightarrow>
          Ok (Some \<lparr>user_name = username, user_password_hash = password_hash, user_created_at = created_at\<rparr>))"

definition get_user :: "'d crates \<Rightarrow> sqlite_user_store \<Rightarrow> string \<Rightarrow> 'd \<Rightarrow> 'd \<times> user option result" where
  "get_user X s username = with_connection X (db_path s) (\<lambda>d.
     (d, case sq_query X (db_path s) sql_select_user [username] d of
           Inl e \<Rightarrow> Err (from_rusqlite e)
         | Inr [] \<Rightarrow> Ok None
         | Inr (row # _) \<Rightarrow> read_user X row))"

text \<open>\<open>execute(..)?\<close> and the test of the number of affected rows.\<close>

definition row_affected :: "string \<Rightarrow> nat \<Rightarrow> unit result" where
  "row_affected username affected =
     (if affected = 0 then Err (NotFound (''User not found: '' @ username)) else Ok ())"

definition change_user :: "'d crates \<Rightarrow> string \<Rightarrow> string \<Rightarrow> string list \<Rightarrow> string \<Rightarrow> 'd \<Rightarrow> 'd \<times> unit result" where
  "change_user X path sql params username = run_statement X path sql params from_rusqlite (row_affected username)"

definition update_password :: "'d crates \<Rightarrow> sqlite_user_store \<Rightarrow> string \<Rightarrow> string \<Rightarrow> string \<Rightarrow> 'd \<Rightarrow> 'd \<times> unit result" where
  "update_password X s salt username new_password d =
     (case bc_hash X salt new_password of
        Inl e \<Rightarrow> (d, Err (Internal (''Failed to hash password: '' @ e)))
      | Inr password_hash \<Rightarrow> change_user X (db_path s) sql_update [password_hash, username] username d)"

definition delete_user :: "'d crates \<Rightarrow> sqlite_user_store \<Rightarrow> string \<Rightarrow> 'd \<Rightarrow> 'd \<times> unit result" where
  "delete_user X s username = change_user X (db_path s) sql_delete [username] username"

text \<open>\<open>collect\<close> into a \<open>Result\<close>: the first error, or all values.\<close>

fun collect_results :: "'a result list \<Rightarrow> 'a list result" where
  "collect_results [] = Ok []"
| "collect_results (Inl e # rs) = Err e"
| "collect_results (Inr x # rs) = (case collect_results rs of Err e \<Rightarrow> Err e | Ok xs \<Rightarrow> Ok (x # xs))"

definition list_users :: "'d crates \<Rightarrow> sqlite_user_store \<Rightarrow> 'd \<Rightarrow> 'd \<times> string list result" where
  "list_users X s = with_connection X (db_path s) (\<lambda>d.
     (d, case sq_query X (db_path s) sql_select_names [] d of
           Inl e \<Rightarrow> Err (from_rusqlite e)
         | Inr rows \<Rightarrow> collect_results (map (row_get 0) rows)))"

definition verify_password :: "'d crates \<Rightarrow> sqlite_user_store \<Rightarrow> string \<Rightarrow> string \<Rightarrow> 'd \<Rightarrow> 'd \<times> bool result" where
  "verify_password X s username password d =
     (case get_user X s username d of
        (d', Err e) \<Rightarrow> (d', Err e)
      | (d', Ok (Some u)) \<Rightarrow>
          (d', case bc_verify X password (user_password_hash u) of
                 Inl e \<Rightarrow> Err (Internal (''Failed to verify password: '' @ e))
               | Inr b \<Rightarrow> Ok b)
      | (d', Ok None) \<Rightarrow> (d', Ok False))"

section \<open>What the crates promise\<close>

text \<open>The users table: the hash and the creation date of each user name.\<close>

type_synonym users_table = "string \<rightharpoonup> string \<times> string"

text \<open>
  SQLite: the effect of the statements that change the table, and their result. A database
  that has no users table answers them with an error.
\<close>

definition sql_effect :: "string \<Rightarrow> string list \<Rightarrow> users_table option \<Rightarrow> (users_table option \<times> (string + nat)) option" where
  "sql_effect sql ps t =
     (if sql = sql_create_table then Some (Some (case t of None \<Rightarrow> Map.empty | Some m \<Rightarrow> m), Inr 0)
      else case t of
        None \<Rightarrow> Some (None, Inl ''no such table: users'')
      | Some m \<Rightarrow>
          if sql = sql_insert then
            (case ps of
               [u, h, c] \<Rightarrow>
                 if m u \<noteq> None then Some (Some m, Inl ''UNIQUE constraint failed: users.username'')
                 else Some (Some (m(u \<mapsto> (h, c))), Inr 1)
             | _ \<Rightarrow> None)
          else if sql = sql_update then
            (case ps of
               [h, u] \<Rightarrow>
                 (case m u of None \<Rightarrow> Some (Some m, Inr 0) | Some (g, c) \<Rightarrow> Some (Some (m(u \<mapsto> (h, c))), Inr 1))
             | _ \<Rightarrow> None)
          else if sql = sql_delete then
            (case ps of
               [u] \<Rightarrow> if m u = None then Some (Some m, Inr 0) else Some (Some (m(u := None)), Inr 1)
             | _ \<Rightarrow> None)
          else None)"

definition memory_database :: "string \<Rightarrow> bool" where
  "memory_database path \<longleftrightarrow> prefix ''file:'' path \<and> contains_str path ''mode=memory''"

text \<open>
  A call may fail only if \<open>faulty\<close>; it then changes no table, and its message is not the one
  of a constraint. Closing the last connection to an in-memory database deletes it.
\<close>

definition sqlite_documented :: "bool \<Rightarrow> 'd crates \<Rightarrow> ('d \<Rightarrow> string \<Rightarrow> users_table option) \<Rightarrow> bool" where
  "sqlite_documented faulty X tab \<longleftrightarrow>
     (\<forall>path d. tab (fst (sq_open X path d)) = tab d \<and>
        (snd (sq_open X path d) = Inr () \<or> faulty \<and> (\<exists>e. snd (sq_open X path d) = Inl e))) \<and>
     (\<forall>path d. tab (sq_close X path d) = (if memory_database path then (tab d)(path := None) else tab d)) \<and>
     (\<forall>path sql ps d t r. sql_effect sql ps (tab d path) = Some (t, r) \<longrightarrow>
        tab (fst (sq_execute X path sql ps d)) = (tab d)(path := t) \<and> snd (sq_execute X path sql ps d) = r \<or>
        faulty \<and> tab (fst (sq_execute X path sql ps d)) = tab d \<and>
          (\<exists>e. snd (sq_execute X path sql ps d) = Inl e \<and> \<not> contains_str e ''UNIQUE constraint failed'')) \<and>
     (\<forall>path u d. sq_query X path sql_select_user [u] d =
          (case tab d path of None \<Rightarrow> Inl ''no such table: users''
           | Some m \<Rightarrow> Inr (case m u of None \<Rightarrow> [] | Some (h, c) \<Rightarrow> [[u, h, c]])) \<or>
        faulty \<and> (\<exists>e. sq_query X path sql_select_user [u] d = Inl e)) \<and>
     (\<forall>path d. (case tab d path of None \<Rightarrow> sq_query X path sql_select_names [] d = Inl ''no such table: users''
           | Some m \<Rightarrow> (\<exists>us. sq_query X path sql_select_names [] d = Inr (map (\<lambda>u. [u]) us) \<and> distinct us \<and> set us = dom m)) \<or>
        faulty \<and> (\<exists>e. sq_query X path sql_select_names [] d = Inl e))"

text \<open>
  bcrypt: only the first 72 bytes of a password without NUL count, and the hash of a password
  verifies exactly the passwords that agree with it there; without faults (of the random source)
  hashing succeeds. chrono reads the dates it writes.
\<close>

definition plain_password :: "string \<Rightarrow> bool" where
  "plain_password p \<longleftrightarrow> CHR 0x00 \<notin> set p"

definition same_password :: "string \<Rightarrow> string \<Rightarrow> bool" where
  "same_password p q \<longleftrightarrow> take 72 p = take 72 q"

definition bcrypt_documented :: "bool \<Rightarrow> 'd crates \<Rightarrow> bool" where
  "bcrypt_documented faulty X \<longleftrightarrow>
     (\<forall>salt p. faulty \<or> (\<exists>h. bc_hash X salt p = Inr h)) \<and>
     (\<forall>salt p q h. bc_hash X salt p = Inr h \<and> plain_password p \<and> plain_password q \<longrightarrow>
        bc_verify X q h = Inr (same_password p q))"

definition chrono_documented :: "'d crates \<Rightarrow> bool" where
  "chrono_documented X \<longleftrightarrow> (\<forall>t. rfc3339_parse X (rfc3339_text X t) = Inr t)"

definition crates_documented :: "bool \<Rightarrow> 'd crates \<Rightarrow> ('d \<Rightarrow> string \<Rightarrow> users_table option) \<Rightarrow> bool" where
  "crates_documented faulty X tab \<longleftrightarrow> sqlite_documented faulty X tab \<and> bcrypt_documented faulty X \<and> chrono_documented X"

section \<open>Accounts\<close>

text \<open>
  The abstract specification: a map from user names to passwords, and the answers that the
  operations give over it.
\<close>

type_synonym accounts = "string \<rightharpoonup> string"

datatype account_op =
    Create_User string datetime string string
  | Update_Password string string string
  | Delete_User string

fun account_spec :: "accounts \<Rightarrow> account_op \<Rightarrow> accounts \<times> unit result" where
  "account_spec m (Create_User salt now u p) =
     (if m u \<noteq> None then (m, Err (AlreadyExists (''User already exists: '' @ u))) else (m(u \<mapsto> p), Ok ()))"
| "account_spec m (Update_Password salt u p) =
     (if m u = None then (m, Err (NotFound (''User not found: '' @ u))) else (m(u \<mapsto> p), Ok ()))"
| "account_spec m (Delete_User u) =
     (if m u = None then (m, Err (NotFound (''User not found: '' @ u))) else (m(u := None), Ok ()))"

fun account_exec :: "'d crates \<Rightarrow> sqlite_user_store \<Rightarrow> 'd \<Rightarrow> account_op \<Rightarrow> 'd \<times> unit result" where
  "account_exec X s d (Create_User salt now u p) = create_user X s salt now u p d"
| "account_exec X s d (Update_Password salt u p) = update_password X s salt u p d"
| "account_exec X s d (Delete_User u) = delete_user X s u d"

fun op_plain :: "account_op \<Rightarrow> bool" where
  "op_plain (Create_User salt now u p) = plain_password p"
| "op_plain (Update_Password salt u p) = plain_password p"
| "op_plain (Delete_User u) = True"

text \<open>Operations one after the other, with their answers.\<close>

fun run_ops :: "('s \<Rightarrow> 'op \<Rightarrow> 's \<times> 'r) \<Rightarrow> 's \<Rightarrow> 'op list \<Rightarrow> 's \<times> 'r list" where
  "run_ops ex s [] = (s, [])"
| "run_ops ex s (op # ops) = (case ex s op of (s', r) \<Rightarrow> case run_ops ex s' ops of (s'', rs) \<Rightarrow> (s'', r # rs))"

lemma run_ops_Cons:
  "run_ops ex s (op # ops) =
     (fst (run_ops ex (fst (ex s op)) ops), snd (ex s op) # snd (run_ops ex (fst (ex s op)) ops))"
  by (simp split: prod.splits)

declare run_ops.simps(2) [simp del]

text \<open>The accounts that follow from the answers: an operation that failed has done nothing.\<close>

fun believed :: "accounts \<Rightarrow> account_op list \<Rightarrow> unit result list \<Rightarrow> accounts" where
  "believed m (op # ops) (Inr x # rs) = believed (fst (account_spec m op)) ops rs"
| "believed m (op # ops) (Inl e # rs) = believed m ops rs"
| "believed m _ _ = m"

text \<open>
  The contract of a user store, for any specification of its operations: an operation answers
  as specified, or it fails without an effect, the latter only with faults; a verification has
  no effect and tells whether the password is the user's.
\<close>

locale account_store =
  fixes exec :: "'s \<Rightarrow> account_op \<Rightarrow> 's \<times> unit result"
    and verify :: "string \<Rightarrow> string \<Rightarrow> 's \<Rightarrow> 's \<times> bool result"
    and holds :: "'s \<Rightarrow> accounts \<Rightarrow> bool"
    and faulty :: bool
  assumes exec_step: "holds s m \<Longrightarrow> op_plain op \<Longrightarrow>
      holds (fst (exec s op)) (fst (account_spec m op)) \<and> snd (exec s op) = snd (account_spec m op) \<or>
      faulty \<and> holds (fst (exec s op)) m \<and> (\<exists>e. snd (exec s op) = Err e)"
    and verify_answer: "holds s m \<Longrightarrow> plain_password q \<Longrightarrow>
      snd (verify u q s) = Ok (\<exists>p. m u = Some p \<and> same_password p q) \<or> faulty \<and> (\<exists>e. snd (verify u q s) = Err e)"
    and verify_keeps: "holds s m \<Longrightarrow> holds (fst (verify u q s)) m"
begin

lemma run_believed:
  "holds s m \<Longrightarrow> \<forall>op\<in>set ops. op_plain op \<Longrightarrow>
   holds (fst (run_ops exec s ops)) (believed m ops (snd (run_ops exec s ops)))"
proof (induction ops arbitrary: s m)
  case (Cons op ops)
  obtain s' r where ex: "exec s op = (s', r)" by fastforce
  have step: "holds s' (fst (account_spec m op)) \<and> r = snd (account_spec m op) \<or> holds s' m \<and> (\<exists>e. r = Err e)"
    using exec_step [OF Cons.prems(1), of op] Cons.prems(2) ex by auto
  show ?case
  proof (cases r)
    case (Inl e)
    then have "fst (account_spec m op) = m" if "r = snd (account_spec m op)"
      using that by (cases op) (auto split: if_splits)
    then have "holds s' m" using step by auto
    then show ?thesis using Cons.IH [of s' m] Cons.prems(2) ex Inl by (simp add: run_ops_Cons)
  next
    case (Inr x)
    then have "holds s' (fst (account_spec m op))" using step by auto
    then show ?thesis using Cons.IH [of s' "fst (account_spec m op)"] Cons.prems(2) ex Inr by (simp add: run_ops_Cons)
  qed
qed simp

lemma run_refines:
  "\<not> faulty \<Longrightarrow> holds s m \<Longrightarrow> \<forall>op\<in>set ops. op_plain op \<Longrightarrow>
   holds (fst (run_ops exec s ops)) (fst (run_ops account_spec m ops)) \<and>
   snd (run_ops exec s ops) = snd (run_ops account_spec m ops)"
proof (induction ops arbitrary: s m)
  case (Cons op ops)
  then have "holds (fst (exec s op)) (fst (account_spec m op)) \<and> snd (exec s op) = snd (account_spec m op)"
    using exec_step [of s m op] by simp
  then show ?case using Cons.IH [of "fst (exec s op)" "fst (account_spec m op)"] Cons.prems
    by (simp add: run_ops_Cons)
qed simp

lemma verify_after_run:
  assumes "holds s m" and "\<forall>op\<in>set ops. op_plain op" and "plain_password q"
  shows "snd (verify u q (fst (run_ops exec s ops))) =
      Ok (\<exists>p. believed m ops (snd (run_ops exec s ops)) u = Some p \<and> same_password p q) \<or>
    faulty \<and> (\<exists>e. snd (verify u q (fst (run_ops exec s ops))) = Err e)"
  using verify_answer [OF run_believed [OF assms(1,2)] assms(3)] .

end

section \<open>The code implements the contract\<close>

lemmas sql_texts = sql_create_table_def sql_insert_def sql_select_user_def sql_update_def sql_delete_def sql_select_names_def

lemma sql_effects:
  "sql_effect sql_create_table [] t = Some (Some (case t of None \<Rightarrow> Map.empty | Some m \<Rightarrow> m), Inr 0)"
  "sql_effect sql_insert [u, h, c] (Some m) =
     Some (if m u \<noteq> None then (Some m, Inl ''UNIQUE constraint failed: users.username'') else (Some (m(u \<mapsto> (h, c))), Inr 1))"
  "sql_effect sql_update [h, u] (Some m) =
     Some (case m u of None \<Rightarrow> (Some m, Inr 0) | Some (g, c) \<Rightarrow> (Some (m(u \<mapsto> (h, c))), Inr 1))"
  "sql_effect sql_delete [u] (Some m) = Some (if m u = None then (Some m, Inr 0) else (Some (m(u := None)), Inr 1))"
  "sql \<noteq> sql_create_table \<Longrightarrow> sql_effect sql ps None = Some (None, Inl ''no such table: users'')"
  by (auto simp: sql_effect_def sql_texts Let_def split: option.splits)

lemma documented_execute:
  assumes "sqlite_documented F X tab" and "sql_effect sql ps (tab d path) = Some (t, r)"
  shows "tab (fst (sq_execute X path sql ps d)) = (tab d)(path := t) \<and> snd (sq_execute X path sql ps d) = r \<or>
    F \<and> tab (fst (sq_execute X path sql ps d)) = tab d \<and>
      (\<exists>e. snd (sq_execute X path sql ps d) = Inl e \<and> \<not> contains_str e ''UNIQUE constraint failed'')"
  using assms unfolding sqlite_documented_def by blast

lemma documented_select_user:
  assumes "sqlite_documented F X tab"
  shows "sq_query X path sql_select_user [u] d =
      (case tab d path of None \<Rightarrow> Inl ''no such table: users''
       | Some m \<Rightarrow> Inr (case m u of None \<Rightarrow> [] | Some (h, c) \<Rightarrow> [[u, h, c]])) \<or>
    F \<and> (\<exists>e. sq_query X path sql_select_user [u] d = Inl e)"
  using assms unfolding sqlite_documented_def by blast

lemma documented_connection:
  assumes "sqlite_documented F X tab"
  shows "(\<exists>d1. tab d1 = tab d \<and> snd (with_connection X path body d) = snd (body d1) \<and>
      tab (fst (with_connection X path body d)) =
        (if memory_database path then (tab (fst (body d1)))(path := None) else tab (fst (body d1)))) \<or>
    F \<and> tab (fst (with_connection X path body d)) = tab d \<and> (\<exists>e. snd (with_connection X path body d) = Err (from_rusqlite e))"
proof -
  obtain d1 r where o: "sq_open X path d = (d1, r)" by fastforce
  have t: "tab d1 = tab d" "r = Inr () \<or> F \<and> (\<exists>e. r = Inl e)"
    using assms o unfolding sqlite_documented_def by (metis fst_conv, metis snd_conv)
  have c: "tab (sq_close X path d') = (if memory_database path then (tab d')(path := None) else tab d')" for d'
    using assms unfolding sqlite_documented_def by blast
  show ?thesis
  proof (cases r)
    case (Inl e)
    then show ?thesis using o t by (simp add: with_connection_def)
  next
    case (Inr x)
    then show ?thesis using o t c by (intro disjI1 exI [of _ d1]) (simp add: with_connection_def split: prod.split)
  qed
qed

text \<open>The accounts that a database holds: each user's row has a hash of the user's password.\<close>

definition row_of :: "'d crates \<Rightarrow> string \<Rightarrow> string \<times> string \<Rightarrow> bool" where
  "row_of X p row \<longleftrightarrow> plain_password p \<and> (\<exists>salt. bc_hash X salt p = Inr (fst row)) \<and> (\<exists>t. snd row = rfc3339_text X t)"

definition table_holds :: "'d crates \<Rightarrow> users_table option \<Rightarrow> accounts \<Rightarrow> bool" where
  "table_holds X t m \<longleftrightarrow> (\<exists>rows. t = Some rows \<and> rel_fun (=) (rel_option (row_of X)) m rows)"

definition accounts_hold ::
  "bool \<Rightarrow> 'd crates \<Rightarrow> ('d \<Rightarrow> string \<Rightarrow> users_table option) \<Rightarrow> sqlite_user_store \<Rightarrow> 'd \<Rightarrow> accounts \<Rightarrow> bool" where
  "accounts_hold F X tab s d m \<longleftrightarrow>
     crates_documented F X tab \<and> \<not> memory_database (db_path s) \<and> table_holds X (tab d (db_path s)) m"

lemma table_holds_cases:
  assumes "table_holds X t m"
  obtains rows where "t = Some rows" and "\<And>u. rel_option (row_of X) (m u) (rows u)" and "\<And>u. m u = None \<longleftrightarrow> rows u = None"
  using assms unfolding table_holds_def rel_fun_def by (metis option.rel_distinct(1,2) option.exhaust option.rel_sel)

lemma table_holds_put:
  "table_holds X (Some rows) m \<Longrightarrow> row_of X p row \<Longrightarrow> table_holds X (Some (rows(u \<mapsto> row))) (m(u \<mapsto> p))"
  by (auto simp: table_holds_def rel_fun_def)

lemma table_holds_drop: "table_holds X (Some rows) m \<Longrightarrow> table_holds X (Some (rows(u := None))) (m(u := None))"
  by (auto simp: table_holds_def rel_fun_def)

text \<open>A statement run on a connection of its own.\<close>

lemma statement_run:
  assumes "crates_documented F X tab" and "\<not> memory_database path"
    and "sql_effect sql ps (tab d path) = Some (t, r)"
  shows "tab (fst (run_statement X path sql ps bad good d)) = (tab d)(path := t) \<and>
      snd (run_statement X path sql ps bad good d) = (case r of Inl e \<Rightarrow> Err (bad e) | Inr n \<Rightarrow> good n) \<or>
    F \<and> tab (fst (run_statement X path sql ps bad good d)) = tab d \<and> (\<exists>e. snd (run_statement X path sql ps bad good d) = Err e)"
    (is "?done \<or> ?failed")
proof -
  let ?body = "\<lambda>d. case sq_execute X path sql ps d of (d', Inl e) \<Rightarrow> (d', Err (bad e)) | (d', Inr n) \<Rightarrow> (d', good n)"
  have lite: "sqlite_documented F X tab" using assms(1) by (simp add: crates_documented_def)
  have run: "run_statement X path sql ps bad good d = with_connection X path ?body d" by (simp add: run_statement_def)
  consider (ran) d1 where "tab d1 = tab d" "snd (with_connection X path ?body d) = snd (?body d1)"
      "tab (fst (with_connection X path ?body d)) = tab (fst (?body d1))"
    | (closed) ?failed
    using documented_connection [OF lite, of d path ?body] assms(2) run by auto
  then show ?thesis
  proof cases
    case ran
    obtain d2 q where ex: "sq_execute X path sql ps d1 = (d2, q)" by fastforce
    have "tab d2 = (tab d1)(path := t) \<and> q = r \<or> F \<and> tab d2 = tab d1 \<and> (\<exists>e. q = Inl e)"
      using documented_execute [OF lite, of sql ps d1 path t r] assms(3) ran(1) ex by auto
    then show ?thesis unfolding run using ran ex by (auto split: sum.splits)
  next
    case closed
    then show ?thesis ..
  qed
qed

lemma accounts_hold_iff:
  "accounts_hold F X tab s d m \<longleftrightarrow>
     crates_documented F X tab \<and> \<not> memory_database (db_path s) \<and> table_holds X (tab d (db_path s)) m"
  by (rule accounts_hold_def)

text \<open>A statement whose effect is the specified one, on the table and in its answer.\<close>

lemma statement_step:
  assumes "accounts_hold F X tab s d m" and "sql_effect sql ps (tab d (db_path s)) = Some (t, r)"
    and "table_holds X t m'" and "(case r of Inl e \<Rightarrow> Err (bad e) | Inr n \<Rightarrow> good n) = answer"
  shows "accounts_hold F X tab s (fst (run_statement X (db_path s) sql ps bad good d)) m' \<and>
      snd (run_statement X (db_path s) sql ps bad good d) = answer \<or>
    F \<and> accounts_hold F X tab s (fst (run_statement X (db_path s) sql ps bad good d)) m \<and>
      (\<exists>e. snd (run_statement X (db_path s) sql ps bad good d) = Err e)"
  using statement_run [of F X tab "db_path s" sql ps d t r bad good] assms by (auto simp: accounts_hold_iff)

lemma insert_error_exists:
  "insert_error u ''UNIQUE constraint failed: users.username'' = AlreadyExists (''User already exists: '' @ u)"
proof -
  have "sublist ''UNIQUE constraint failed'' (''UNIQUE constraint failed'' @ '': users.username'')"
    unfolding sublist_def by (rule exI [of _ "[]"]) auto
  then show ?thesis by (simp add: insert_error_def contains_str_def)
qed

lemma row_of_hash: "bc_hash X salt p = Inr h \<Longrightarrow> plain_password p \<Longrightarrow> row_of X p (h, rfc3339_text X t)"
  by (auto simp: row_of_def)

lemma row_affected_iff [simp]:
  "row_affected u 0 = Err (NotFound (''User not found: '' @ u))" "0 < n \<Longrightarrow> row_affected u n = Ok ()"
  by (simp_all add: row_affected_def)

lemma create_user_step:
  assumes "accounts_hold F X tab s d m" and "plain_password p"
  shows "accounts_hold F X tab s (fst (create_user X s salt now u p d)) (fst (account_spec m (Create_User salt now u p))) \<and>
      snd (create_user X s salt now u p d) = snd (account_spec m (Create_User salt now u p)) \<or>
    F \<and> accounts_hold F X tab s (fst (create_user X s salt now u p d)) m \<and> (\<exists>e. snd (create_user X s salt now u p d) = Err e)"
proof (cases "bc_hash X salt p")
  case (Inl e)
  moreover have "F" using assms(1) Inl by (auto simp: accounts_hold_iff crates_documented_def bcrypt_documented_def) (metis Inl_Inr_False)
  ultimately show ?thesis using assms(1) by (simp add: create_user_def)
next
  case (Inr h)
  obtain rows where rows: "tab d (db_path s) = Some rows" "m u = None \<longleftrightarrow> rows u = None"
    using assms(1) by (auto simp: accounts_hold_iff elim: table_holds_cases)
  have holds: "table_holds X (Some rows) m" using assms(1) rows(1) by (simp add: accounts_hold_iff)
  note put = table_holds_put [OF holds row_of_hash [OF Inr assms(2)], of u now]
  show ?thesis
  proof (cases "m u = None")
    case True
    then show ?thesis using Inr rows(2)
        statement_step [OF assms(1), of sql_insert "[u, h, rfc3339_text X now]"
          "Some (rows(u \<mapsto> (h, rfc3339_text X now)))" "Inr 1" "m(u \<mapsto> p)" "insert_error u" "\<lambda>_. Ok ()" "Ok ()"] put
      by (simp add: create_user_def rows(1) sql_effects(2))
  next
    case False
    then show ?thesis using Inr rows(2)
        statement_step [OF assms(1), of sql_insert "[u, h, rfc3339_text X now]"
          "Some rows" "Inl ''UNIQUE constraint failed: users.username''" m "insert_error u" "\<lambda>_. Ok ()"
          "Err (AlreadyExists (''User already exists: '' @ u))"] holds
      by (simp add: create_user_def rows(1) sql_effects(2) insert_error_exists)
  qed
qed

lemma update_password_step:
  assumes "accounts_hold F X tab s d m" and "plain_password p"
  shows "accounts_hold F X tab s (fst (update_password X s salt u p d)) (fst (account_spec m (Update_Password salt u p))) \<and>
      snd (update_password X s salt u p d) = snd (account_spec m (Update_Password salt u p)) \<or>
    F \<and> accounts_hold F X tab s (fst (update_password X s salt u p d)) m \<and> (\<exists>e. snd (update_password X s salt u p d) = Err e)"
proof (cases "bc_hash X salt p")
  case (Inl e)
  moreover have "F" using assms(1) Inl by (auto simp: accounts_hold_iff crates_documented_def bcrypt_documented_def) (metis Inl_Inr_False)
  ultimately show ?thesis using assms(1) by (simp add: update_password_def)
next
  case (Inr h)
  obtain rows where rows: "tab d (db_path s) = Some rows" "rel_option (row_of X) (m u) (rows u)"
    using assms(1) by (auto simp: accounts_hold_iff elim: table_holds_cases)
  have holds: "table_holds X (Some rows) m" using assms(1) rows(1) by (simp add: accounts_hold_iff)
  show ?thesis
  proof (cases "rows u")
    case None
    then show ?thesis using Inr rows(2) holds
        statement_step [OF assms(1), of sql_update "[h, u]" "Some rows" "Inr 0" m from_rusqlite
          "row_affected u"
          "Err (NotFound (''User not found: '' @ u))"]
      by (simp add: update_password_def change_user_def rows(1) sql_effects(3))
  next
    case (Some row)
    obtain g c where row: "row = (g, c)" by (cases row)
    obtain p' where "m u = Some p'" "row_of X p' (g, c)" using rows(2) Some row by (auto simp: option_rel_Some2)
    then have "row_of X p (h, c)" using Inr assms(2) by (auto simp: row_of_def)
    then have "table_holds X (Some (rows(u \<mapsto> (h, c)))) (m(u \<mapsto> p))" by (rule table_holds_put [OF holds])
    then show ?thesis using Inr Some row \<open>m u = Some p'\<close>
        statement_step [OF assms(1), of sql_update "[h, u]" "Some (rows(u \<mapsto> (h, c)))" "Inr 1" "m(u \<mapsto> p)" from_rusqlite
          "row_affected u" "Ok ()"]
      by (simp add: update_password_def change_user_def rows(1) sql_effects(3))
  qed
qed

lemma delete_user_step:
  assumes "accounts_hold F X tab s d m"
  shows "accounts_hold F X tab s (fst (delete_user X s u d)) (fst (account_spec m (Delete_User u))) \<and>
      snd (delete_user X s u d) = snd (account_spec m (Delete_User u)) \<or>
    F \<and> accounts_hold F X tab s (fst (delete_user X s u d)) m \<and> (\<exists>e. snd (delete_user X s u d) = Err e)"
proof -
  obtain rows where rows: "tab d (db_path s) = Some rows" "m u = None \<longleftrightarrow> rows u = None"
    using assms by (auto simp: accounts_hold_iff elim: table_holds_cases)
  have holds: "table_holds X (Some rows) m" using assms rows(1) by (simp add: accounts_hold_iff)
  show ?thesis
  proof (cases "m u = None")
    case True
    then show ?thesis using rows(2) holds
        statement_step [OF assms, of sql_delete "[u]" "Some rows" "Inr 0" m from_rusqlite
          "row_affected u"
          "Err (NotFound (''User not found: '' @ u))"]
      by (simp add: delete_user_def change_user_def rows(1) sql_effects(4))
  next
    case False
    then obtain p row where "m u = Some p" "rows u = Some row" using rows(2) by auto
    then show ?thesis using table_holds_drop [OF holds, of u]
        statement_step [OF assms, of sql_delete "[u]" "Some (rows(u := None))" "Inr 1" "m(u := None)" from_rusqlite
          "row_affected u" "Ok ()"]
      by (simp add: delete_user_def change_user_def rows(1) sql_effects(4))
  qed
qed

lemma read_user_row:
  "chrono_documented X \<Longrightarrow> read_user X [u, h, rfc3339_text X t] =
     Ok (Some \<lparr>user_name = u, user_password_hash = h, user_created_at = t\<rparr>)"
  by (simp add: read_user_def row_get_def chrono_documented_def)

text \<open>A lookup finds the row of the user.\<close>

lemma get_user_step:
  assumes "accounts_hold F X tab s d m"
  shows "accounts_hold F X tab s (fst (get_user X s u d)) m \<and>
    (F \<and> (\<exists>e. snd (get_user X s u d) = Err e) \<or>
     (case m u of None \<Rightarrow> snd (get_user X s u d) = Ok None
      | Some p \<Rightarrow> \<exists>h t. snd (get_user X s u d) = Ok (Some \<lparr>user_name = u, user_password_hash = h, user_created_at = t\<rparr>) \<and>
          row_of X p (h, rfc3339_text X t)))"
proof -
  let ?body = "\<lambda>d. (d, case sq_query X (db_path s) sql_select_user [u] d of
           Inl e \<Rightarrow> Err (from_rusqlite e) | Inr [] \<Rightarrow> Ok None | Inr (row # _) \<Rightarrow> read_user X row)"
  have docs: "sqlite_documented F X tab" "chrono_documented X" "\<not> memory_database (db_path s)"
    using assms by (simp_all add: accounts_hold_iff crates_documented_def)
  obtain rows where rows: "tab d (db_path s) = Some rows" "rel_option (row_of X) (m u) (rows u)"
    using assms by (auto simp: accounts_hold_iff elim: table_holds_cases)
  have get: "get_user X s u d = with_connection X (db_path s) ?body d" by (simp add: get_user_def)
  from documented_connection [OF docs(1), of d "db_path s" ?body] docs(3)
  consider (ran) d1 where "tab d1 = tab d" "snd (get_user X s u d) = snd (?body d1)" "tab (fst (get_user X s u d)) = tab d"
    | (closed) "F" "tab (fst (get_user X s u d)) = tab d" "\<exists>e. snd (get_user X s u d) = Err e"
    unfolding get by auto
  then show ?thesis
  proof cases
    case ran
    have q: "sq_query X (db_path s) sql_select_user [u] d1 = Inr (case rows u of None \<Rightarrow> [] | Some (h, c) \<Rightarrow> [[u, h, c]]) \<or>
        F \<and> (\<exists>e. sq_query X (db_path s) sql_select_user [u] d1 = Inl e)"
      using documented_select_user [OF docs(1), of "db_path s" u d1] ran(1) rows(1) by simp
    have "F \<and> (\<exists>e. snd (?body d1) = Err e) \<or>
        (case m u of None \<Rightarrow> snd (?body d1) = Ok None
         | Some p \<Rightarrow> \<exists>h t. snd (?body d1) = Ok (Some \<lparr>user_name = u, user_password_hash = h, user_created_at = t\<rparr>) \<and>
             row_of X p (h, rfc3339_text X t))"
    proof (cases "m u")
      case None
      then have "rows u = None" using rows(2) by simp
      then show ?thesis using q None by auto
    next
      case (Some p)
      then obtain h c where r: "rows u = Some (h, c)" "row_of X p (h, c)" using rows(2) by (auto simp: option_rel_Some1)
      then obtain t where "c = rfc3339_text X t" by (auto simp: row_of_def)
      then show ?thesis using q Some r read_user_row [OF docs(2)] by auto
    qed
    then show ?thesis unfolding ran(2) using ran(3) assms by (simp only: accounts_hold_iff simp_thms)
  next
    case closed
    then show ?thesis using assms by (simp add: accounts_hold_iff)
  qed
qed

lemma verify_password_step:
  assumes "accounts_hold F X tab s d m"
  shows "accounts_hold F X tab s (fst (verify_password X s u q d)) m"
    and "plain_password q \<Longrightarrow> snd (verify_password X s u q d) = Ok (\<exists>p. m u = Some p \<and> same_password p q) \<or>
      F \<and> (\<exists>e. snd (verify_password X s u q d) = Err e)"
proof -
  obtain d' r where get: "get_user X s u d = (d', r)" by fastforce
  note step = get_user_step [OF assms, of u]
  show "accounts_hold F X tab s (fst (verify_password X s u q d)) m"
    using step get by (auto simp: verify_password_def split: sum.split option.split)
  assume q: "plain_password q"
  have bc: "bc_verify X q h = Inr (same_password p q)" if "row_of X p (h, c)" for p h c
    using that q assms by (auto simp: row_of_def accounts_hold_iff crates_documented_def bcrypt_documented_def)
  show "snd (verify_password X s u q d) = Ok (\<exists>p. m u = Some p \<and> same_password p q) \<or>
      F \<and> (\<exists>e. snd (verify_password X s u q d) = Err e)"
    using step get bc by (auto simp: verify_password_def split: option.splits)
qed

interpretation accounts: account_store "account_exec X s" "verify_password X s" "accounts_hold F X tab s" F for X s F tab
proof
  show "accounts_hold F X tab s (fst (account_exec X s d op)) (fst (account_spec m op)) \<and>
      snd (account_exec X s d op) = snd (account_spec m op) \<or>
    F \<and> accounts_hold F X tab s (fst (account_exec X s d op)) m \<and> (\<exists>e. snd (account_exec X s d op) = Err e)"
    if "accounts_hold F X tab s d m" "op_plain op" for d m op
    using that create_user_step [OF that(1)] update_password_step [OF that(1)] delete_user_step [OF that(1)]
    by (cases op) simp_all
qed (rule verify_password_step; assumption)+

end
