(* ===== verification/Accounts.thy ===== *)
theory Accounts
  imports User_Store Handlers
begin

text \<open>
  src/authenticator/mod.rs and src/authenticator/impl/basic.rs over the user store, and the way
  from a LOGIN command to the accounts: which passwords let a client in after any history of
  account operations.
\<close>

section \<open>The authenticator\<close>

text \<open>
  \<open>BasicAuthenticator\<close> is generic in the user store, of which it uses \<open>verify_password\<close>.
\<close>

definition basic_authenticate ::
  "(string \<Rightarrow> string \<Rightarrow> 's \<Rightarrow> 's \<times> bool result) \<Rightarrow> credentials \<Rightarrow> 's \<Rightarrow> 's \<times> bool result" where
  "basic_authenticate verify credentials = verify (cred_username credentials) (cred_password credentials)"

definition validate_token :: "string \<Rightarrow> string option result" where
  "validate_token token = Ok None"

section \<open>A new store\<close>

lemma new_store_holds:
  assumes "crates_documented F X tab" and "\<not> memory_database path" and "tab d path = None"
    and "user_store_new X path d = (d', Ok s)"
  shows "accounts_hold F X tab s d' Map.empty"
proof -
  have "(\<exists>e. snd (create_users_table X path d) = Err e) \<or> tab (fst (create_users_table X path d)) path = Some Map.empty"
    unfolding create_users_table_def
    using statement_run [where d = d, OF assms(1,2) sql_effects(1), of from_rusqlite "\<lambda>_. Ok ()"] assms(3)
    by (elim disjE conjE) simp_all
  moreover have "fst (create_users_table X path d) = d'" "snd (create_users_table X path d) = Ok ()" "db_path s = path"
    using assms(4) by (auto simp: user_store_new_def split: prod.splits sum.splits)
  ultimately show ?thesis using assms(1,2)
    by (auto simp: accounts_hold_iff table_holds_def rel_fun_def)
qed

text \<open>The names of a listing.\<close>

lemma collect_row_names: "collect_results (map (row_get 0) (map (\<lambda>u. [u]) us)) = Ok us"
  by (induction us) (simp_all add: row_get_def)

lemma list_users_names:
  assumes "accounts_hold False X tab s d m"
  shows "\<exists>us. snd (list_users X s d) = Ok us \<and> distinct us \<and> set us = dom m"
proof -
  let ?body = "\<lambda>d. (d, case sq_query X (db_path s) sql_select_names [] d of
      Inl e \<Rightarrow> Err (from_rusqlite e) | Inr rows \<Rightarrow> collect_results (map (row_get 0) rows))"
  have lite: "sqlite_documented False X tab" using assms by (simp add: accounts_hold_iff crates_documented_def)
  obtain rows where rows: "tab d (db_path s) = Some rows" "\<And>u. m u = None \<longleftrightarrow> rows u = None"
    using assms by (auto simp: accounts_hold_iff elim: table_holds_cases)
  obtain d1 where d1: "tab d1 = tab d" "snd (list_users X s d) = snd (?body d1)"
    using documented_connection [OF lite, of d "db_path s" ?body] by (auto simp: list_users_def)
  have t1: "tab d1 (db_path s) = Some rows" using d1(1) rows(1) by simp
  have "case tab d1 (db_path s) of
      None \<Rightarrow> sq_query X (db_path s) sql_select_names [] d1 = Inl ''no such table: users''
    | Some t \<Rightarrow> \<exists>us. sq_query X (db_path s) sql_select_names [] d1 = Inr (map (\<lambda>u. [u]) us) \<and> distinct us \<and> set us = dom t"
    using lite unfolding sqlite_documented_def simp_thms by blast
  then obtain us where us: "sq_query X (db_path s) sql_select_names [] d1 = Inr (map (\<lambda>u. [u]) us)" "distinct us" "set us = dom rows"
    unfolding t1 option.case by blast
  have "dom rows = dom m" using rows(2) by (auto simp: dom_def)
  then show ?thesis using d1(2) us collect_row_names by simp
qed

section \<open>Crates for the examples\<close>

type_synonym db_files = "string \<Rightarrow> (string \<times> string \<times> string) list option"

definition db_files_table :: "db_files \<Rightarrow> string \<Rightarrow> users_table option" where
  "db_files_table d path = map_option map_of (d path)"

definition model_execute :: "string \<Rightarrow> string \<Rightarrow> string list \<Rightarrow> db_files \<Rightarrow> db_files \<times> (string + nat)" where
  "model_execute path sql ps d =
     (if sql = sql_create_table then (d(path := Some (case d path of None \<Rightarrow> [] | Some al \<Rightarrow> al)), Inr 0)
      else case d path of
        None \<Rightarrow> (d, Inl ''no such table: users'')
      | Some al \<Rightarrow>
          if sql = sql_insert then
            (case ps of [u, h, c] \<Rightarrow>
               if map_of al u \<noteq> None then (d, Inl ''UNIQUE constraint failed: users.username'')
               else (d(path := Some ((u, h, c) # al)), Inr 1)
             | _ \<Rightarrow> (d, Inl ''bad parameters''))
          else if sql = sql_update then
            (case ps of [h, u] \<Rightarrow>
               (case map_of al u of None \<Rightarrow> (d, Inr 0)
                | Some (g, c) \<Rightarrow> (d(path := Some (AList.update u (h, c) al)), Inr 1))
             | _ \<Rightarrow> (d, Inl ''bad parameters''))
          else if sql = sql_delete then
            (case ps of [u] \<Rightarrow>
               if map_of al u = None then (d, Inr 0) else (d(path := Some (AList.delete u al)), Inr 1)
             | _ \<Rightarrow> (d, Inl ''bad parameters''))
          else (d, Inl ''syntax error''))"

definition model_query :: "string \<Rightarrow> string \<Rightarrow> string list \<Rightarrow> db_files \<Rightarrow> string + string list list" where
  "model_query path sql ps d =
     (case d path of
        None \<Rightarrow> Inl ''no such table: users''
      | Some al \<Rightarrow>
          if sql = sql_select_names then Inr (map (\<lambda>u. [u]) (remdups (map fst al)))
          else case map_of al (hd ps) of None \<Rightarrow> Inr [] | Some (h, c) \<Rightarrow> Inr [[hd ps, h, c]])"

definition model_crates :: "db_files crates" where
  "model_crates = \<lparr>sq_open = (\<lambda>path d. (d, Inr ())), sq_execute = model_execute, sq_query = model_query,
     sq_close = (\<lambda>path d. if memory_database path then d(path := None) else d),
     bc_hash = (\<lambda>salt p. Inr (''$2b$'' @ take 72 p)), bc_verify = (\<lambda>q h. Inr (h = ''$2b$'' @ take 72 q)),
     rfc3339_text = (\<lambda>t. (if t < 0 then ''-'' else []) @ replicate (nat \<bar>t\<bar>) CHR ''1''),
     rfc3339_parse = (\<lambda>s. Inr (if s \<noteq> [] \<and> hd s = CHR ''-'' then - int (length (tl s)) else int (length s)))\<rparr>"

lemma model_effect:
  assumes "sql_effect sql ps (db_files_table d path) = Some (t, r)"
  shows "db_files_table (fst (model_execute path sql ps d)) = (db_files_table d)(path := t) \<and> snd (model_execute path sql ps d) = r"
proof -
  have same: "(db_files_table d)(path := db_files_table d path) = db_files_table d" by simp
  have upd: "db_files_table (d(path := Some al)) = (db_files_table d)(path := Some (map_of al))" for al
    by (auto simp: db_files_table_def)
  show ?thesis
  proof (cases "d path")
    case None
    then have "db_files_table d path = None" by (simp add: db_files_table_def)
    then show ?thesis using assms None same by (auto simp: model_execute_def sql_effect_def upd split: if_splits)
  next
    case (Some al)
    then have "db_files_table d path = Some (map_of al)" by (simp add: db_files_table_def)
    then show ?thesis using assms Some same
      by (auto simp: model_execute_def sql_effect_def upd split: if_splits list.splits option.splits)
  qed
qed

lemma model_crates_documented: "crates_documented F model_crates db_files_table"
proof -
  have "sq_query model_crates path sql_select_user [u] d =
      (case db_files_table d path of None \<Rightarrow> Inl ''no such table: users''
       | Some m \<Rightarrow> Inr (case m u of None \<Rightarrow> [] | Some (h, c) \<Rightarrow> [[u, h, c]]))" for path u d
    by (auto simp: model_crates_def model_query_def db_files_table_def sql_texts split: option.splits)
  moreover have "case db_files_table d path of None \<Rightarrow> sq_query model_crates path sql_select_names [] d = Inl ''no such table: users''
      | Some m \<Rightarrow> (\<exists>us. sq_query model_crates path sql_select_names [] d = Inr (map (\<lambda>u. [u]) us) \<and> distinct us \<and> set us = dom m)"
    for path d
    by (auto simp: model_crates_def model_query_def db_files_table_def dom_map_of_conv_image_fst
        simp del: set_map split: option.split intro!: exI [of _ "remdups (map fst _)"]) (force+)
  moreover have "db_files_table (sq_close model_crates path d) =
      (if memory_database path then (db_files_table d)(path := None) else db_files_table d)" for path d
    by (auto simp: model_crates_def db_files_table_def)
  ultimately have "sqlite_documented F model_crates db_files_table"
    unfolding sqlite_documented_def using model_effect by (simp add: model_crates_def)
  moreover have "bcrypt_documented F model_crates"
    by (simp add: bcrypt_documented_def model_crates_def same_password_def)
  moreover have "chrono_documented model_crates"
    by (auto simp: chrono_documented_def model_crates_def)
  ultimately show ?thesis by (simp add: crates_documented_def)
qed

section \<open>Properties\<close>

text \<open>What LOGIN makes of an answer of the authenticator.\<close>

lemma login_follows_authenticator:
  assumes "w_authenticate w \<lparr>cred_username = u, cred_password = q\<rparr> = Ok ok \<or>
      F \<and> (\<exists>e. w_authenticate w \<lparr>cred_username = u, cred_password = q\<rparr> = Err e)"
    and "conn_writable (w_conn w)" and "login_parse_args args = Some (u, q)"
  shows "\<exists>r. conn_sent (w_conn (fst (login_handle tag args st w))) = conn_sent (w_conn w) @ [response_display r] \<and>
      response_tag r = Some tag \<and>
      (if ok then snd (login_handle tag args st w) = Ok (Some (SS_Authenticated u)) \<or> F \<and> snd (login_handle tag args st w) = Ok None
       else snd (login_handle tag args st w) = Ok None)"
proof -
  have reply: "conn_sent (w_conn (fst (respond r (finish x) w))) = conn_sent (w_conn w) @ [response_display r] \<and>
      snd (respond r (finish x) w) = Ok x" for r x
    using assms(2) by (simp add: respond_def finish_def)
  show ?thesis
  proof (cases "w_authenticate w \<lparr>cred_username = u, cred_password = q\<rparr>")
    case (Inl e)
    then have "F" using assms(1) by auto
    then show ?thesis using Inl assms(3) reply
      by (intro exI [of _ "Response_No (Some tag) (''LOGIN failed: '' @ error_display e)"]) (simp add: login_handle_def)
  next
    case (Inr b)
    then have "b = ok" using assms(1) by auto
    then show ?thesis using Inr assms(3) reply
      by (intro exI [of _ "if ok then Response_Ok (Some tag) ''LOGIN completed''
            else Response_No (Some tag) ''LOGIN failed: invalid credentials''"])
        (cases ok; simp add: login_handle_def)
  qed
qed

text \<open>
  C6: LOGIN, from the words of the client to the accounts. After any history of account
  operations, some of which may have failed, LOGIN lets a client in as a user only if the
  operations that succeeded left the user an account whose password agrees with the given one
  (in the 72 bytes that bcrypt reads); without faults it does so then, and a wrong password or
  name is refused; each time with one tagged response.
\<close>

theorem login_checks_account:
  fixes X :: "'d crates"
  assumes "crates_documented F X tab" and "\<not> memory_database path" and "tab d path = None"
    and "user_store_new X path d = (d1, Ok s)" and "\<forall>op\<in>set ops. op_plain op"
    and "run_ops (account_exec X s) d1 ops = (d2, rs)"
    and "w_authenticate w = (\<lambda>c. snd (basic_authenticate (verify_password X s) c d2))"
    and "conn_writable (w_conn w)" and "login_parse_args args = Some (u, q)" and "plain_password q"
  shows "\<exists>r. conn_sent (w_conn (fst (login_handle tag args st w))) = conn_sent (w_conn w) @ [response_display r] \<and>
      response_tag r = Some tag \<and>
      (if \<exists>p. believed Map.empty ops rs u = Some p \<and> same_password p q
       then snd (login_handle tag args st w) = Ok (Some (SS_Authenticated u)) \<or> F \<and> snd (login_handle tag args st w) = Ok None
       else snd (login_handle tag args st w) = Ok None)"
proof -
  have start: "accounts_hold F X tab s d1 Map.empty" by (rule new_store_holds [OF assms(1-4)])
  have "w_authenticate w \<lparr>cred_username = u, cred_password = q\<rparr> =
        Ok (\<exists>p. believed Map.empty ops rs u = Some p \<and> same_password p q) \<or>
      F \<and> (\<exists>e. w_authenticate w \<lparr>cred_username = u, cred_password = q\<rparr> = Err e)"
    using accounts.verify_after_run [OF start assms(5,10), of u] assms(6,7) by (simp add: basic_authenticate_def)
  then show ?thesis using assms(8,9) by (rule login_follows_authenticator)
qed

text \<open>
  C20: without faults the user store implements its specification: over any sequence of
  operations every answer is the specified one (already exists, not found, or success), and a
  listing names exactly the users that exist, each once.
\<close>

theorem user_store_implements_accounts:
  assumes "crates_documented False X tab" and "\<not> memory_database path" and "tab d path = None"
    and "user_store_new X path d = (d1, Ok s)" and "\<forall>op\<in>set ops. op_plain op"
  shows "snd (run_ops (account_exec X s) d1 ops) = snd (run_ops account_spec Map.empty ops) \<and>
    (\<exists>us. snd (list_users X s (fst (run_ops (account_exec X s) d1 ops))) = Ok us \<and> distinct us \<and>
       set us = dom (fst (run_ops account_spec Map.empty ops)))"
proof -
  have start: "accounts_hold False X tab s d1 Map.empty" by (rule new_store_holds [OF assms(1-4)])
  have run: "accounts_hold False X tab s (fst (run_ops (account_exec X s) d1 ops)) (fst (run_ops account_spec Map.empty ops))"
      "snd (run_ops (account_exec X s) d1 ops) = snd (run_ops account_spec Map.empty ops)"
    using accounts.run_refines [OF _ start assms(5)] by simp_all
  show ?thesis using run(2) list_users_names [OF run(1)] by (rule conjI)
qed

lemma memory_path_memory: "memory_database (memory_path i)"
proof -
  have "sublist ''mode=memory'' ((''file:memdb'' @ nat_text (unat i) @ ''?'') @ ''mode=memory'' @ ''&cache=shared'')"
    by (simp only: sublist_appendI)
  then show ?thesis by (simp add: memory_database_def memory_path_def contains_str_def)
qed

lemma memory_statement_fails:
  assumes "crates_documented F X tab" and "tab d path = None" and "sql \<noteq> sql_create_table"
  shows "tab (fst (run_statement X path sql ps bad good d)) path = None \<and>
    (\<exists>e. snd (run_statement X path sql ps bad good d) = Err e)"
proof -
  let ?body = "\<lambda>d. case sq_execute X path sql ps d of (d', Inl e) \<Rightarrow> (d', Err (bad e)) | (d', Inr n) \<Rightarrow> (d', good n)"
  have lite: "sqlite_documented F X tab" using assms(1) by (simp add: crates_documented_def)
  have fails: "tab (fst (?body d1)) path = None \<and> (\<exists>e. snd (?body d1) = Err e)" if "tab d1 = tab d" for d1
  proof -
    have "sql_effect sql ps (tab d1 path) = Some (None, Inl ''no such table: users'')"
      using that assms(2,3) by (simp add: sql_effects(5))
    from documented_execute [OF lite this] that assms(2) show ?thesis
      by (auto split: prod.splits sum.splits)
  qed
  have run: "run_statement X path sql ps bad good d = with_connection X path ?body d" by (simp add: run_statement_def)
  show ?thesis unfolding run using documented_connection [OF lite, of d path ?body] fails assms(2)
    by (elim disjE exE conjE) (force split: if_splits)+
qed

lemma memory_operation_fails:
  assumes "crates_documented F X tab" and "tab d (db_path s) = None"
  shows "tab (fst (account_exec X s d op)) (db_path s) = None \<and> (\<exists>e. snd (account_exec X s d op) = Err e)"
proof -
  have "sql_insert \<noteq> sql_create_table" "sql_update \<noteq> sql_create_table" "sql_delete \<noteq> sql_create_table"
    by (simp_all add: sql_texts Let_def)
  note fails = this [THEN memory_statement_fails [OF assms]]
  show ?thesis
  proof (cases op)
    case (Create_User salt now u p)
    then show ?thesis using fails(1) assms(2) by (cases "bc_hash X salt p") (simp_all add: create_user_def)
  next
    case (Update_Password salt u p)
    then show ?thesis using fails(2) assms(2)
      by (cases "bc_hash X salt p") (simp_all add: update_password_def change_user_def)
  qed (use fails(3) in \<open>simp add: delete_user_def change_user_def\<close>)
qed

lemma memory_run_fails:
  "crates_documented F X tab \<Longrightarrow> tab d (db_path s) = None \<Longrightarrow>
   \<forall>r\<in>set (snd (run_ops (account_exec X s) d ops)). \<exists>e. r = Err e"
proof (induction ops arbitrary: d)
  case (Cons op ops)
  then show ?case using memory_operation_fails [of F X tab d s op] Cons.IH [of "fst (account_exec X s d op)"]
    by (simp add: run_ops_Cons)
qed simp


section \<open>Examples\<close>

lemma model_new: "user_store_new model_crates ''users.db'' (\<lambda>_. None) = ((\<lambda>_. None)(''users.db'' := Some []), Ok \<lparr>db_path = ''users.db''\<rparr>)"
proof -
  have "\<not> memory_database ''users.db''" by (simp add: memory_database_def)
  then show ?thesis
    by (simp add: user_store_new_def create_users_table_def run_statement_def with_connection_def model_crates_def model_execute_def)
qed

definition example_ops :: "account_op list" where
  "example_ops = [Create_User ''s1'' 5 ''bob'' ''old'', Create_User ''s2'' 6 ''bob'' ''mine'', Update_Password ''s3'' ''bob'' ''new'']"

definition example_users :: sqlite_user_store where
  "example_users = \<lparr>db_path = ''users.db''\<rparr>"

definition example_db :: db_files where
  "example_db = fst (run_ops (account_exec model_crates example_users) ((\<lambda>_. None)(''users.db'' := Some [])) example_ops)"

lemma example_start:
  "accounts_hold False model_crates db_files_table example_users ((\<lambda>_. None)(''users.db'' := Some [])) Map.empty"
  unfolding example_users_def
  by (rule new_store_holds [OF model_crates_documented _ _ model_new]) (simp_all add: memory_database_def db_files_table_def)

lemma example_plain: "\<forall>op\<in>set example_ops. op_plain op"
  by (simp add: example_ops_def plain_password_def)

lemma example_replies:
  "snd (run_ops (account_exec model_crates example_users) ((\<lambda>_. None)(''users.db'' := Some [])) example_ops) =
     [Ok (), Err (AlreadyExists ''User already exists: bob''), Ok ()]"
  using accounts.run_refines [OF _ example_start example_plain] by (simp add: example_ops_def run_ops_Cons)

theorem login_checks_account_witness:
  "snd (login_handle ''a1'' ''bob new'' SS_NotAuthenticated ((example_world [])\<lparr>w_authenticate :=
       \<lambda>c. snd (basic_authenticate (verify_password model_crates example_users) c example_db)\<rparr>)) = Ok (Some (SS_Authenticated ''bob'')) \<and>
   snd (login_handle ''a1'' ''bob mine'' SS_NotAuthenticated ((example_world [])\<lparr>w_authenticate :=
       \<lambda>c. snd (basic_authenticate (verify_password model_crates example_users) c example_db)\<rparr>)) = Ok None"
proof -
  let ?w = "(example_world [])\<lparr>w_authenticate :=
      \<lambda>c. snd (basic_authenticate (verify_password model_crates example_users) c example_db)\<rparr>"
  have run: "run_ops (account_exec model_crates example_users) ((\<lambda>_. None)(''users.db'' := Some [])) example_ops =
      (example_db, [Ok (), Err (AlreadyExists ''User already exists: bob''), Ok ()])"
    using example_replies by (simp add: example_db_def prod_eq_iff)
  have bob: "believed Map.empty example_ops [Ok (), Err (AlreadyExists ''User already exists: bob''), Ok ()] ''bob'' = Some ''new''"
    by (simp add: example_ops_def)
  have args: "login_parse_args ''bob new'' = Some (''bob'', ''new'')" "login_parse_args ''bob mine'' = Some (''bob'', ''mine'')"
    by code_simp+
  have w: "w_authenticate ?w = (\<lambda>c. snd (basic_authenticate (verify_password model_crates example_users) c example_db))"
      "conn_writable (w_conn ?w)"
    using example_world_writable [of "[]"] by simp_all
  have fresh: "\<not> memory_database ''users.db''" "db_files_table (\<lambda>_. None) ''users.db'' = None"
    by (simp_all add: memory_database_def db_files_table_def)
  note check = login_checks_account [where X = model_crates and F = False and tab = db_files_table and w = ?w
      and st = SS_NotAuthenticated and tag = "''a1''", OF model_crates_documented fresh model_new [folded example_users_def]
      example_plain run w]
  have same: "same_password ''new'' ''new''" "\<not> same_password ''new'' ''mine''" "plain_password ''new''" "plain_password ''mine''"
    by (simp_all add: same_password_def plain_password_def)
  show ?thesis
    using check [OF args(1) same(3)] check [OF args(2) same(4)] same(1,2) bob by (elim exE conjE) (intro conjI, simp_all)
qed

theorem user_store_implements_accounts_witness:
  "snd (run_ops (account_exec model_crates example_users) ((\<lambda>_. None)(''users.db'' := Some [])) (example_ops @ [Delete_User ''amy''])) =
     [Ok (), Err (AlreadyExists ''User already exists: bob''), Ok (), Err (NotFound ''User not found: amy'')]"
proof -
  have "\<forall>op\<in>set (example_ops @ [Delete_User ''amy'']). op_plain op" using example_plain by simp
  from user_store_implements_accounts [OF model_crates_documented _ _ model_new this]
  show ?thesis by (simp add: memory_database_def db_files_table_def example_users_def example_ops_def run_ops_Cons)
qed


end
