(* ===== verification/Program.thy ===== *)
theory Program
  imports Accounts Server Mail_Store Indexer Task_Queue
begin

text \<open>
  src/bin/main.rs: what the program sets up and how its parts are put together, and what
  follows from the components for the running program. Whether main returns an error or panics
  before the listeners are spawned is part of the outcome; logging and the wait for a signal
  at the end are not.
\<close>

section \<open>Start-up\<close>

text \<open>What main finds: files, the database, the environment of the crates that it calls.\<close>

record 'd startup =
  su_cwd :: path
  su_fs :: fs
  su_db :: 'd
  su_salt :: string
  su_now :: datetime
  su_identity :: "string + unit"
  su_acceptor :: "string + unit"
  su_signals :: "string + unit"

record 'd program =
  pr_fs :: fs
  pr_db :: 'd
  pr_mail_store :: mail_store
  pr_user_store :: sqlite_user_store
  pr_mailboxes :: mailboxes
  pr_index :: index_handle
  pr_queue :: "unit channel_queue"
  pr_server :: server

datatype 'a outcome_of_main = Running 'a | Exited string | Panicked string

definition users_db :: string where
  "users_db = ''./data/users.db''"

text \<open>\<open>create_inmemory_index\<close> without an event bus: only the writer loop is spawned.\<close>

definition create_inmemory_index :: "mailboxes option \<Rightarrow> index_handle" where
  "create_inmemory_index mailboxes = index_new"

text \<open>The default user and mailbox; a failure is only logged.\<close>

definition create_defaults :: "'d crates \<Rightarrow> 'd startup \<Rightarrow> sqlite_user_store \<Rightarrow> 'd \<Rightarrow> mailboxes \<Rightarrow> 'd \<times> mailboxes" where
  "create_defaults X su users d mailboxes =
     (fst (create_user X users (su_salt su) (su_now su) ''test'' ''test'' d),
      fst (create_mailbox [] ''test'' ''INBOX'' mailboxes))"

text \<open>The certificate and the server.\<close>

definition start_server :: "'d startup \<Rightarrow> fs \<Rightarrow> fs \<times> server outcome_of_main" where
  "start_server su s =
     (case fs_read_file (path_join (su_cwd su) ''tls/cert.pem'') s of
        (s1, Inl e) \<Rightarrow> (s1, Panicked ''failed to read test certificate'')
      | (s1, Inr cert) \<Rightarrow>
          (case fs_read_file (path_join (su_cwd su) ''tls/key.pem'') s1 of
             (s2, Inl e) \<Rightarrow> (s2, Panicked ''failed to read key file'')
           | (s2, Inr key) \<Rightarrow>
               (case with_tls_pem (su_identity su) (su_acceptor su) server_new of
                  Err e \<Rightarrow> (s2, Panicked ''failed to add TLS config to IMAP server'')
                | Ok sv \<Rightarrow>
                    (case su_signals su of
                       Inl e \<Rightarrow> (s2, Exited e)
                     | Inr _ \<Rightarrow> (s2, Running sv)))))"

definition main_start :: "'d crates \<Rightarrow> 'd startup \<Rightarrow> 'd program outcome_of_main" where
  "main_start X su =
     (case fs_create_dir_all (path_join (su_cwd su) ''./data'') (su_fs su) of
        (s1, Inl e) \<Rightarrow> Exited e
      | (s1, Inr _) \<Rightarrow>
     (case fs_create_dir_all (path_join (su_cwd su) ''./data/mail'') s1 of
        (s2, Inl e) \<Rightarrow> Exited e
      | (s2, Inr _) \<Rightarrow>
     (case mail_store_new (path_join (su_cwd su) ''./data/mail'') s2 of
        (s3, Err e) \<Rightarrow> Exited (error_display e)
      | (s3, Ok mail_store) \<Rightarrow>
     (case user_store_new X users_db (su_db su) of
        (d1, Err e) \<Rightarrow> Exited (error_display e)
      | (d1, Ok users) \<Rightarrow>
          (let index = create_inmemory_index (Some mailboxes_new);
               (d2, mailboxes) = create_defaults X su users d1 mailboxes_new in
           case start_server su s3 of
             (s4, Running sv) \<Rightarrow>
               Running \<lparr>pr_fs = s4, pr_db = d2, pr_mail_store = mail_store, pr_user_store = users,
                 pr_mailboxes = mailboxes, pr_index = index, pr_queue = channel_queue_new, pr_server = sv\<rparr>
           | (s4, Exited e) \<Rightarrow> Exited e
           | (s4, Panicked e) \<Rightarrow> Panicked e)))))"

text \<open>The two listeners, over what their sockets give.\<close>

definition serve_plain :: "'d program \<Rightarrow> string + unit \<Rightarrow> (string + connection result) list \<Rightarrow> spawned" where
  "serve_plain p bound clients = fst (listen (pr_server p) bound clients)"

definition serve_tls :: "'d program \<Rightarrow> string + unit \<Rightarrow> (string + string + connection) list \<Rightarrow> spawned" where
  "serve_tls p bound clients = fst (listen_tls (pr_server p) bound clients)"

section \<open>What is set up\<close>

lemma main_start_parts:
  assumes "main_start X su = Running p"
  obtains d1 where "user_store_new X users_db (su_db su) = (d1, Ok (pr_user_store p))"
    and "(pr_db p, pr_mailboxes p) = create_defaults X su (pr_user_store p) d1 mailboxes_new"
    and "sv_handlers (pr_server p) = server_handlers"
proof -
  have server: "sv_handlers sv = server_handlers" if "start_server su s = (s', Running sv)" for s s' sv
    using that by (auto simp: start_server_def with_tls_pem_def with_tls_identity_def server_new_def split: prod.splits sum.splits)
  show thesis
    using assms that server
    by (auto simp: main_start_def Let_def split: prod.splits sum.splits outcome_of_main.splits)
qed

text \<open>The only account is the default one, if it could be made.\<close>

lemma program_accounts:
  assumes "crates_documented F X tab" and "tab (su_db su) users_db = None" and "main_start X su = Running p"
  shows "\<exists>m. accounts_hold F X tab (pr_user_store p) (pr_db p) m \<and>
    (m = [''test'' \<mapsto> ''test''] \<or> F \<and> m = Map.empty)"
proof -
  obtain d1 where d1: "user_store_new X users_db (su_db su) = (d1, Ok (pr_user_store p))"
    and made: "(pr_db p, pr_mailboxes p) = create_defaults X su (pr_user_store p) d1 mailboxes_new"
    using main_start_parts [OF assms(3)] by metis
  have "\<not> memory_database users_db" by (simp add: memory_database_def users_db_def)
  then have start: "accounts_hold F X tab (pr_user_store p) d1 Map.empty"
    using new_store_holds [OF assms(1) _ assms(2) d1] by simp
  have "pr_db p = fst (create_user X (pr_user_store p) (su_salt su) (su_now su) ''test'' ''test'' d1)"
    using made by (simp add: create_defaults_def)
  moreover have "plain_password ''test''" by (simp add: plain_password_def)
  ultimately show ?thesis
    using create_user_step [OF start, of "''test''" "su_salt su" "su_now su" "''test''"] by auto
qed

lemma program_mailboxes:
  assumes "main_start X su = Running p"
  shows "registry_up (pr_mailboxes p) \<and>
    (registry_lookup (pr_mailboxes p) (v, n) \<noteq> None \<longleftrightarrow> v = ''test'' \<and> n = ''INBOX'')"
proof -
  obtain d1 where "(pr_db p, pr_mailboxes p) = create_defaults X su (pr_user_store p) d1 mailboxes_new"
    using main_start_parts [OF assms] by metis
  then have made: "pr_mailboxes p = fst (create_mailbox [] ''test'' ''INBOX'' mailboxes_new)"
    by (simp add: create_defaults_def)
  have none: "registry_lookup mailboxes_new k = None" for k
    by (cases k) (simp add: registry_lookup_def mailboxes_new_def registry_init_def reg_get_def)
  have up: "registry_up mailboxes_new" by (rule registry_up_new)
  from mbs.create_fresh [OF up none] obtain m' info where fresh: "create_mailbox [] ''test'' ''INBOX'' mailboxes_new = (m', Ok info)"
      "registry_up m'" "registry_lookup m' = (registry_lookup mailboxes_new)((''test'', ''INBOX'') \<mapsto> info)"
    by blast
  then show ?thesis using made none by simp
qed

lemma verify_unknown:
  assumes "accounts_hold F X tab s d m" and "m u = None"
  shows "snd (verify_password X s u q d) \<noteq> Ok True"
  using get_user_step [OF assms(1), of u] assms(2)
  by (auto simp: verify_password_def split: prod.splits sum.splits option.splits)

section \<open>Properties\<close>


text \<open>Clients that are served one after the other, each with its connection.\<close>

definition serve_clients :: "session \<Rightarrow> (bool \<times> turn list \<times> world) list \<Rightarrow> mailboxes \<Rightarrow> mailboxes" where
  "serve_clients ses clients =
     fold (\<lambda>(tls, ts, w) mb. w_mailboxes (fst (session_handle ses tls ts (w\<lparr>w_mailboxes := mb\<rparr>)))) clients"

lemma serve_clients_keeps:
  assumes "ses_handlers ses = server_handlers"
    and "\<forall>(tls, ts, w)\<in>set clients. \<forall>t\<in>set ts. (\<forall>c\<in>set (t_others t). leaves_user v c) \<and>
      (\<forall>q. t_authenticate t \<lparr>cred_username = v, cred_password = q\<rparr> \<noteq> Ok True)"
    and "registry_up mb"
  shows "registry_up (serve_clients ses clients mb) \<and>
    registry_lookup (serve_clients ses clients mb) (v, n) = registry_lookup mb (v, n)"
  using assms(2,3)
proof (induction clients arbitrary: mb)
  case (Cons client clients)
  obtain tls ts w where client: "client = (tls, ts, w)" by (cases client)
  let ?mb = "w_mailboxes (fst (session_handle ses tls ts (w\<lparr>w_mailboxes := mb\<rparr>)))"
  have "registry_up ?mb \<and> registry_lookup ?mb (v, n) = registry_lookup mb (v, n)"
    using session_keeps_others [OF assms(1), of "w\<lparr>w_mailboxes := mb\<rparr>" ts v tls n] Cons.prems client by simp
  then show ?case using Cons.IH [of ?mb] Cons.prems(1) client by (simp add: serve_clients_def)
qed (simp add: serve_clients_def)


section \<open>Examples\<close>

definition example_startup :: "db_files startup" where
  "example_startup = \<lparr>su_cwd = [],
     su_fs = \<lparr>fs_tree = [[] \<mapsto> Dir, [''tls''] \<mapsto> Dir, [''tls'', ''cert.pem''] \<mapsto> File [], [''tls'', ''key.pem''] \<mapsto> File []],
       fs_fault = (\<lambda>_. None), fs_calls = 0\<rparr>,
     su_db = (\<lambda>_. None), su_salt = ''s'', su_now = 0, su_identity = Inr (), su_acceptor = Inr (), su_signals = Inr ()\<rparr>"

lemma example_paths:
  "path_join [] ''./data'' = [''data'']" "path_join [] ''./data/mail'' = [''data'', ''mail'']"
  "path_join [] ''tls/cert.pem'' = [''tls'', ''cert.pem'']" "path_join [] ''tls/key.pem'' = [''tls'', ''key.pem'']"
  "resolve [''data''] = [''data'']" "resolve [''data'', ''mail''] = [''data'', ''mail'']"
  "resolve [''tls'', ''cert.pem''] = [''tls'', ''cert.pem'']" "resolve [''tls'', ''key.pem''] = [''tls'', ''key.pem'']"
  by code_simp+

lemma example_fresh: "db_files_table (su_db example_startup) users_db = None"
  by (simp add: example_startup_def db_files_table_def)

lemma example_running: "\<exists>p. main_start model_crates example_startup = Running p"
proof -
  have disk: "\<not> memory_database users_db" by (simp add: memory_database_def users_db_def)
  have users: "\<exists>d1. user_store_new model_crates users_db (\<lambda>_. None) = (d1, Ok \<lparr>db_path = users_db\<rparr>)"
    using disk by (simp add: user_store_new_def create_users_table_def run_statement_def with_connection_def model_crates_def model_execute_def)
  show ?thesis using users
    by (auto simp: main_start_def example_startup_def example_paths fs_create_dir_all_def fs_call_def tree_create_dir_all_def
        mail_store_new_def fs_bind_def start_server_def fs_read_file_def tree_read_file_def with_tls_pem_def
        with_tls_identity_def Let_def split: prod.split)
qed



end
