(* ===== verification/Searcher.thy ===== *)
theory Searcher
  imports Core_Types
begin

text \<open>
  src/searcher.rs: the read-only search interface. The backend is a trait object, so a record
  of its four methods over the state that it reads; the repository has no implementation of the
  trait outside the tests. A clone of a searcher shares the backend.
\<close>

record 's search_backend =
  sb_search :: "string \<Rightarrow> string \<Rightarrow> search_query \<Rightarrow> 's \<Rightarrow> string list result"
  sb_list_mailboxes :: "string \<Rightarrow> 's \<Rightarrow> string list result"
  sb_message_count :: "string \<Rightarrow> string \<Rightarrow> 's \<Rightarrow> nat result"
  sb_mailbox_exists :: "string \<Rightarrow> string \<Rightarrow> 's \<Rightarrow> bool result"

record 's searcher =
  sr_backend :: "'s search_backend"

definition searcher_new :: "'s search_backend \<Rightarrow> 's searcher" where
  "searcher_new backend = \<lparr>sr_backend = backend\<rparr>"

definition searcher_search :: "'s searcher \<Rightarrow> string \<Rightarrow> string \<Rightarrow> search_query \<Rightarrow> 's \<Rightarrow> string list result" where
  "searcher_search sr username mailbox q = sb_search (sr_backend sr) username mailbox q"

definition searcher_list_mailboxes :: "'s searcher \<Rightarrow> string \<Rightarrow> 's \<Rightarrow> string list result" where
  "searcher_list_mailboxes sr username = sb_list_mailboxes (sr_backend sr) username"

definition searcher_message_count :: "'s searcher \<Rightarrow> string \<Rightarrow> string \<Rightarrow> 's \<Rightarrow> nat result" where
  "searcher_message_count sr username mailbox = sb_message_count (sr_backend sr) username mailbox"

definition searcher_mailbox_exists :: "'s searcher \<Rightarrow> string \<Rightarrow> string \<Rightarrow> 's \<Rightarrow> bool result" where
  "searcher_mailbox_exists sr username mailbox = sb_mailbox_exists (sr_backend sr) username mailbox"

end
