(* ===== verification/Tantivy_Index.thy ===== *)
theory Tantivy_Index
  imports Writer_Loop "HOL-Library.Multiset"
begin

text \<open>
  src/index/impl/tantivy.rs: the index over the tantivy search library. The mailboxes with their
  counters live in the writer loop, the messages are documents of the library, which is a record
  of functions: over the state of the index the calls that change it, over a view (the commit
  that the reader has loaded last) the searches. A reader loads a commit some time after it was
  made, so the view of a read is an input. The clients of the loop are modelled as everywhere
  (theory Writer\_Loop).
\<close>

section \<open>Documents and the library\<close>

text \<open>A document is the list of its field values; a field handle is the name of the field.\<close>

datatype field_value = Text string | U64 "64 word"

type_synonym document = "(string \<times> field_value) list"

text \<open>The schema: each field with the options it is added with.\<close>

datatype field_option = Opt_String | Opt_Text | Opt_Indexed | Opt_Stored

definition index_schema :: "(string \<times> field_option list) list" where
  "index_schema =
     [(''message_id'', [Opt_String, Opt_Stored]),
      (''uid'', [Opt_Indexed, Opt_Stored]),
      (''username'', [Opt_String, Opt_Stored]),
      (''mailbox'', [Opt_String, Opt_Stored]),
      (''from'', [Opt_Text, Opt_Stored]),
      (''to'', [Opt_Text, Opt_Stored]),
      (''subject'', [Opt_Text, Opt_Stored]),
      (''body'', [Opt_Text]),
      (''flags'', [Opt_String, Opt_Stored]),
      (''path'', [Opt_String, Opt_Stored])]"

text \<open>The queries that the code builds itself, and those of the query parser.\<close>

datatype 'q tantivy_query =
    Term_Query string field_value
  | Must_Query "'q tantivy_query list"
  | Parsed_Query 'q

record ('t, 'v, 'q, 'a) tantivy =
  ty_exists :: "string \<Rightarrow> 't \<Rightarrow> bool"
  ty_open_in_dir :: "string \<Rightarrow> 't \<Rightarrow> 't \<times> (string + unit)"
  ty_create_dir_all :: "string \<Rightarrow> 't \<Rightarrow> 't \<times> (string + unit)"
  ty_create_in_dir :: "string \<Rightarrow> (string \<times> field_option list) list \<Rightarrow> 't \<Rightarrow> 't \<times> (string + unit)"
  ty_reader :: "'t \<Rightarrow> 't \<times> (string + unit)"
  ty_writer :: "'t \<Rightarrow> 't \<times> (string + unit)"
  ty_add_document :: "document \<Rightarrow> 't \<Rightarrow> 't \<times> (string + unit)"
  ty_commit :: "'t \<Rightarrow> 't \<times> (string + unit)"
  ty_search :: "'q tantivy_query \<Rightarrow> nat \<Rightarrow> 'v \<Rightarrow> string + 'a list"
  ty_doc :: "'a \<Rightarrow> 'v \<Rightarrow> string + document"
  ty_parse_query :: "string list \<Rightarrow> string \<Rightarrow> string + 'q"

section \<open>The writer loop\<close>

datatype tantivy_command =
    TW_CreateMailbox string string
  | TW_DeleteMailbox string string
  | TW_RenameMailbox string string string
  | TW_AddMessage string string indexed_message
  | TW_UpdateFlags message_id "message_flag list"
  | TW_DeleteMessage message_id
  | TW_GetNextUid string string
  | TW_Shutdown

datatype tantivy_reply =
  TR_Unit "unit result" | TR_Path "string result" | TR_Uid "uid result" | TR_Stopped

record mailbox_entry =
  te_info :: mailbox
  te_uid_counter :: uid

record 't tantivy_state =
  ts_mailboxes :: "string \<rightharpoonup> mailbox_entry"
  ts_index :: 't

definition tantivy_key :: "string \<Rightarrow> string \<Rightarrow> string" where
  "tantivy_key username name = username @ '':'' @ name"

fun uuid_text :: "message_id \<Rightarrow> string" where
  "uuid_text (MessageId u) = u"

definition tantivy_message_path :: "string \<Rightarrow> string \<Rightarrow> message_id \<Rightarrow> string" where
  "tantivy_message_path username mailbox i = username @ ''/'' @ mailbox @ ''/'' @ uuid_text i @ ''.eml''"

text \<open>The text of \<open>{:?}\<close> of a flag, with the escapes of a string literal.\<close>

definition escape_debug :: "char \<Rightarrow> string" where
  "escape_debug c =
     (let n = (of_char c :: nat); hex = (\<lambda>k. char_of (if k < 10 then 48 + k else 87 + k)) in
      if n = 0 then [CHR 0x5C, CHR ''0'']
      else if n = 9 then [CHR 0x5C, CHR ''t'']
      else if n = 10 then [CHR 0x5C, CHR ''n'']
      else if n = 13 then [CHR 0x5C, CHR ''r'']
      else if n = 34 \<or> n = 92 then [CHR 0x5C, c]
      else if n < 16 then CHR 0x5C # ''u{'' @ [hex n] @ ''}''
      else if n < 32 \<or> n = 127 then CHR 0x5C # ''u{'' @ [hex (n div 16), hex (n mod 16)] @ ''}''
      else [c])"

fun flag_debug :: "message_flag \<Rightarrow> string" where
  "flag_debug Seen = ''Seen''"
| "flag_debug Answered = ''Answered''"
| "flag_debug Flagged = ''Flagged''"
| "flag_debug Deleted = ''Deleted''"
| "flag_debug Draft = ''Draft''"
| "flag_debug Recent = ''Recent''"
| "flag_debug (Custom s) = ''Custom('' @ [CHR 0x22] @ concat (map escape_debug s) @ [CHR 0x22] @ '')''"

definition message_document :: "string \<Rightarrow> string \<Rightarrow> indexed_message \<Rightarrow> document" where
  "message_document username mailbox message =
     [(''message_id'', Text (uuid_text (im_id message))),
      (''uid'', U64 (ucast (im_uid message))),
      (''username'', Text username),
      (''mailbox'', Text mailbox),
      (''from'', Text (im_from message)),
      (''to'', Text (im_to message)),
      (''subject'', Text (im_subject message)),
      (''body'', Text (im_body_preview message)),
      (''flags'', Text (join_with '','' (map flag_debug (im_flags message)))),
      (''path'', Text (tantivy_message_path username mailbox (im_id message)))]"

definition mailbox_not_found :: "string \<Rightarrow> error" where
  "mailbox_not_found name = NotFound (''Mailbox '' @ name @ '' not found'')"

definition new_mailbox_entry :: "string \<Rightarrow> mailbox_entry" where
  "new_mailbox_entry name =
     \<lparr>te_info = \<lparr>mbx_name = name, mbx_uid_validity = 1, mbx_uid_next = 1, mbx_flags = [],
        mbx_permanent_flags = [Seen, Answered, Flagged, Deleted, Draft],
        mbx_message_count = 0, mbx_recent_count = 0, mbx_unseen_count = 0\<rparr>,
      te_uid_counter = 1\<rparr>"

definition tantivy_create_mailbox :: "string \<Rightarrow> string \<Rightarrow> 't tantivy_state \<Rightarrow> 't tantivy_state \<times> unit result" where
  "tantivy_create_mailbox username name s =
     (let key = tantivy_key username name in
      if ts_mailboxes s key \<noteq> None then (s, Err (AlreadyExists (''Mailbox '' @ name @ '' already exists'')))
      else (s\<lparr>ts_mailboxes := (ts_mailboxes s)(key \<mapsto> new_mailbox_entry name)\<rparr>, Ok ()))"

definition tantivy_delete_mailbox :: "string \<Rightarrow> string \<Rightarrow> 't tantivy_state \<Rightarrow> 't tantivy_state \<times> unit result" where
  "tantivy_delete_mailbox username name s =
     (let key = tantivy_key username name in
      if ts_mailboxes s key \<noteq> None then (s\<lparr>ts_mailboxes := (ts_mailboxes s)(key := None)\<rparr>, Ok ())
      else (s, Err (mailbox_not_found name)))"

definition tantivy_rename_mailbox :: "string \<Rightarrow> string \<Rightarrow> string \<Rightarrow> 't tantivy_state \<Rightarrow> 't tantivy_state \<times> unit result" where
  "tantivy_rename_mailbox username old_name new_name s =
     (let old_key = tantivy_key username old_name; new_key = tantivy_key username new_name in
      case ts_mailboxes s old_key of
        Some e \<Rightarrow>
          (s\<lparr>ts_mailboxes := (ts_mailboxes s)(old_key := None,
             new_key \<mapsto> e\<lparr>te_info := (te_info e)\<lparr>mbx_name := new_name\<rparr>\<rparr>)\<rparr>, Ok ())
      | None \<Rightarrow> (s, Err (mailbox_not_found old_name)))"

definition count_message :: "indexed_message \<Rightarrow> mailbox \<Rightarrow> mailbox" where
  "count_message message info =
     info\<lparr>mbx_message_count := mbx_message_count info + 1,
          mbx_unseen_count := mbx_unseen_count info + (if Seen \<in> set (im_flags message) then 0 else 1)\<rparr>"

definition tantivy_add_message ::
  "('t, 'v, 'q, 'a) tantivy \<Rightarrow> string \<Rightarrow> string \<Rightarrow> indexed_message \<Rightarrow> 't tantivy_state \<Rightarrow> 't tantivy_state \<times> string result" where
  "tantivy_add_message T username mailbox message s =
     (let key = tantivy_key username mailbox; path = tantivy_message_path username mailbox (im_id message) in
      case ts_mailboxes s key of
        None \<Rightarrow> (s, Err (mailbox_not_found mailbox))
      | Some e \<Rightarrow>
          (case ty_add_document T (message_document username mailbox message) (ts_index s) of
             (t1, Inl err) \<Rightarrow> (s\<lparr>ts_index := t1\<rparr>, Err (IndexError (''Failed to add document: '' @ err)))
           | (t1, Inr _) \<Rightarrow>
               (case ty_commit T t1 of
                  (t2, Inl err) \<Rightarrow> (s\<lparr>ts_index := t2\<rparr>, Err (IndexError (''Failed to commit: '' @ err)))
                | (t2, Inr _) \<Rightarrow>
                    (s\<lparr>ts_index := t2,
                       ts_mailboxes := (ts_mailboxes s)(key \<mapsto> e\<lparr>te_info := count_message message (te_info e)\<rparr>)\<rparr>, Ok path))))"

definition tantivy_next_uid :: "string \<Rightarrow> string \<Rightarrow> 't tantivy_state \<Rightarrow> 't tantivy_state \<times> uid result" where
  "tantivy_next_uid username mailbox s =
     (let key = tantivy_key username mailbox in
      case ts_mailboxes s key of
        Some e \<Rightarrow>
          (s\<lparr>ts_mailboxes := (ts_mailboxes s)(key \<mapsto> e\<lparr>te_uid_counter := te_uid_counter e + 1\<rparr>)\<rparr>, Ok (te_uid_counter e))
      | None \<Rightarrow> (s, Err (mailbox_not_found mailbox)))"

text \<open>Changing flags and deleting a message are acknowledged and do nothing.\<close>

fun tantivy_exec :: "('t, 'v, 'q, 'a) tantivy \<Rightarrow> 't tantivy_state \<Rightarrow> tantivy_command \<Rightarrow> 't tantivy_state \<times> tantivy_reply" where
  "tantivy_exec T s (TW_CreateMailbox u n) = (case tantivy_create_mailbox u n s of (s', r) \<Rightarrow> (s', TR_Unit r))"
| "tantivy_exec T s (TW_DeleteMailbox u n) = (case tantivy_delete_mailbox u n s of (s', r) \<Rightarrow> (s', TR_Unit r))"
| "tantivy_exec T s (TW_RenameMailbox u m n) = (case tantivy_rename_mailbox u m n s of (s', r) \<Rightarrow> (s', TR_Unit r))"
| "tantivy_exec T s (TW_AddMessage u m x) = (case tantivy_add_message T u m x s of (s', r) \<Rightarrow> (s', TR_Path r))"
| "tantivy_exec T s (TW_UpdateFlags i fs) = (s, TR_Unit (Ok ()))"
| "tantivy_exec T s (TW_DeleteMessage i) = (s, TR_Unit (Ok ()))"
| "tantivy_exec T s (TW_GetNextUid u m) = (case tantivy_next_uid u m s of (s', r) \<Rightarrow> (s', TR_Uid r))"
| "tantivy_exec T s TW_Shutdown = (s, TR_Stopped)"

fun tantivy_stops :: "tantivy_command \<Rightarrow> bool" where
  "tantivy_stops TW_Shutdown = True"
| "tantivy_stops _ = False"

section \<open>The index\<close>

type_synonym 't tantivy_index = "'t tantivy_state actor"

text \<open>
  Opening or creating the index. The loop starts with creating the writer and panics when that
  fails, which leaves an index whose loop is gone.
\<close>

definition tantivy_start :: "('t, 'v, 'q, 'a) tantivy \<Rightarrow> 't \<Rightarrow> 't tantivy_index" where
  "tantivy_start T t =
     (case ty_writer T t of
        (t', Inl e) \<Rightarrow> \<lparr>alive = False, state = \<lparr>ts_mailboxes = Map.empty, ts_index = t'\<rparr>\<rparr>
      | (t', Inr _) \<Rightarrow> \<lparr>alive = True, state = \<lparr>ts_mailboxes = Map.empty, ts_index = t'\<rparr>\<rparr>)"

definition tantivy_open :: "('t, 'v, 'q, 'a) tantivy \<Rightarrow> string \<Rightarrow> 't \<Rightarrow> 't \<times> unit result" where
  "tantivy_open T path t =
     (if ty_exists T path t then
        (case ty_open_in_dir T path t of
           (t', Inl e) \<Rightarrow> (t', Err (IndexError (''Failed to open index: '' @ e)))
         | (t', Inr _) \<Rightarrow> (t', Ok ()))
      else
        (case ty_create_dir_all T path t of
           (t', Inl e) \<Rightarrow> (t', Err (IndexError (''Failed to create index directory: '' @ e)))
         | (t', Inr _) \<Rightarrow>
             (case ty_create_in_dir T path index_schema t' of
                (t'', Inl e) \<Rightarrow> (t'', Err (IndexError (''Failed to create index: '' @ e)))
              | (t'', Inr _) \<Rightarrow> (t'', Ok ()))))"

definition tantivy_new :: "('t, 'v, 'q, 'a) tantivy \<Rightarrow> string \<Rightarrow> 't \<Rightarrow> 't tantivy_index result" where
  "tantivy_new T path t =
     (case tantivy_open T path t of
        (t1, Err e) \<Rightarrow> Err e
      | (t1, Ok _) \<Rightarrow>
          (case ty_reader T t1 of
             (t2, Inl e) \<Rightarrow> Err (IndexError (''Failed to create reader: '' @ e))
           | (t2, Inr _) \<Rightarrow> Ok (tantivy_start T t2)))"

fun tr_unit :: "tantivy_reply \<Rightarrow> unit result" where "tr_unit (TR_Unit r) = r"
fun tr_path :: "tantivy_reply \<Rightarrow> string result" where "tr_path (TR_Path r) = r"
fun tr_uid :: "tantivy_reply \<Rightarrow> uid result" where "tr_uid (TR_Uid r) = r"

definition tantivy_call ::
  "('t, 'v, 'q, 'a) tantivy \<Rightarrow> (tantivy_reply \<Rightarrow> 'b result) \<Rightarrow> tantivy_command list \<Rightarrow> tantivy_command \<Rightarrow>
   't tantivy_index \<Rightarrow> 't tantivy_index \<times> 'b result" where
  "tantivy_call T = client_op (tantivy_exec T) tantivy_stops (Internal ''Writer loop stopped'') (Internal ''Writer loop dropped reply'')"

definition ti_create_mailbox :: "('t, 'v, 'q, 'a) tantivy \<Rightarrow> tantivy_command list \<Rightarrow> string \<Rightarrow> string \<Rightarrow> 't tantivy_index \<Rightarrow> 't tantivy_index \<times> unit result" where
  "ti_create_mailbox T pending u n = tantivy_call T tr_unit pending (TW_CreateMailbox u n)"

definition ti_delete_mailbox :: "('t, 'v, 'q, 'a) tantivy \<Rightarrow> tantivy_command list \<Rightarrow> string \<Rightarrow> string \<Rightarrow> 't tantivy_index \<Rightarrow> 't tantivy_index \<times> unit result" where
  "ti_delete_mailbox T pending u n = tantivy_call T tr_unit pending (TW_DeleteMailbox u n)"

definition ti_rename_mailbox :: "('t, 'v, 'q, 'a) tantivy \<Rightarrow> tantivy_command list \<Rightarrow> string \<Rightarrow> string \<Rightarrow> string \<Rightarrow> 't tantivy_index \<Rightarrow> 't tantivy_index \<times> unit result" where
  "ti_rename_mailbox T pending u m n = tantivy_call T tr_unit pending (TW_RenameMailbox u m n)"

definition ti_list_mailboxes :: "string \<Rightarrow> mailbox list result" where
  "ti_list_mailboxes username = Ok []"

definition ti_get_mailbox :: "string \<Rightarrow> string \<Rightarrow> mailbox option result" where
  "ti_get_mailbox username name = Ok None"

definition ti_add_message :: "('t, 'v, 'q, 'a) tantivy \<Rightarrow> tantivy_command list \<Rightarrow> string \<Rightarrow> string \<Rightarrow> indexed_message \<Rightarrow> 't tantivy_index \<Rightarrow> 't tantivy_index \<times> string result" where
  "ti_add_message T pending u m x = tantivy_call T tr_path pending (TW_AddMessage u m x)"

definition ti_get_message_metadata :: "message_id \<Rightarrow> indexed_message option result" where
  "ti_get_message_metadata i = Ok None"

definition ti_update_flags :: "('t, 'v, 'q, 'a) tantivy \<Rightarrow> tantivy_command list \<Rightarrow> message_id \<Rightarrow> message_flag list \<Rightarrow> 't tantivy_index \<Rightarrow> 't tantivy_index \<times> unit result" where
  "ti_update_flags T pending i fs = tantivy_call T tr_unit pending (TW_UpdateFlags i fs)"

definition ti_delete_message :: "('t, 'v, 'q, 'a) tantivy \<Rightarrow> tantivy_command list \<Rightarrow> message_id \<Rightarrow> 't tantivy_index \<Rightarrow> 't tantivy_index \<times> unit result" where
  "ti_delete_message T pending i = tantivy_call T tr_unit pending (TW_DeleteMessage i)"

definition ti_get_next_uid :: "('t, 'v, 'q, 'a) tantivy \<Rightarrow> tantivy_command list \<Rightarrow> string \<Rightarrow> string \<Rightarrow> 't tantivy_index \<Rightarrow> 't tantivy_index \<times> uid result" where
  "ti_get_next_uid T pending u m = tantivy_call T tr_uid pending (TW_GetNextUid u m)"

definition ti_shutdown :: "('t, 'v, 'q, 'a) tantivy \<Rightarrow> tantivy_command list \<Rightarrow> 't tantivy_index \<Rightarrow> 't tantivy_index \<times> unit result" where
  "ti_shutdown T pending a = (fst (client_call (tantivy_exec T) tantivy_stops a pending TW_Shutdown), Ok ())"

section \<open>The reads\<close>

text \<open>\<open>doc.get_first(field)\<close> and then \<open>as_str\<close>.\<close>

definition doc_text :: "string \<Rightarrow> document \<Rightarrow> string option" where
  "doc_text field doc = (case map_of doc field of Some (Text x) \<Rightarrow> Some x | _ \<Rightarrow> None)"

text \<open>The path of the first document that a query finds.\<close>

definition first_path :: "('t, 'v, 'q, 'a) tantivy \<Rightarrow> 'q tantivy_query \<Rightarrow> 'v \<Rightarrow> string option result" where
  "first_path T q v =
     (case ty_search T q 1 v of
        Inl e \<Rightarrow> Err (IndexError (''Search failed: '' @ e))
      | Inr [] \<Rightarrow> Ok None
      | Inr (a # _) \<Rightarrow>
          (case ty_doc T a v of
             Inl e \<Rightarrow> Err (IndexError (''Failed to retrieve document: '' @ e))
           | Inr doc \<Rightarrow> Ok (doc_text ''path'' doc)))"

definition ti_get_message_path :: "('t, 'v, 'q, 'a) tantivy \<Rightarrow> message_id \<Rightarrow> 'v \<Rightarrow> string option result" where
  "ti_get_message_path T i = first_path T (Term_Query ''message_id'' (Text (uuid_text i)))"

definition mailbox_query :: "string \<Rightarrow> string \<Rightarrow> 'q tantivy_query list" where
  "mailbox_query username mailbox = [Term_Query ''username'' (Text username), Term_Query ''mailbox'' (Text mailbox)]"

definition ti_get_message_path_by_uid :: "('t, 'v, 'q, 'a) tantivy \<Rightarrow> string \<Rightarrow> string \<Rightarrow> uid \<Rightarrow> 'v \<Rightarrow> string option result" where
  "ti_get_message_path_by_uid T username mailbox u =
     first_path T (Must_Query (mailbox_query username mailbox @ [Term_Query ''uid'' (U64 (ucast u))]))"

text \<open>The loops over the documents found; \<open>keep\<close> is the test that a search makes again.\<close>

fun collect_paths :: "('t, 'v, 'q, 'a) tantivy \<Rightarrow> (document \<Rightarrow> bool) \<Rightarrow> 'v \<Rightarrow> 'a list \<Rightarrow> string list result" where
  "collect_paths T keep v [] = Ok []"
| "collect_paths T keep v (a # as) =
     (case ty_doc T a v of
        Inl e \<Rightarrow> Err (IndexError (''Failed to retrieve document: '' @ e))
      | Inr doc \<Rightarrow>
          (case collect_paths T keep v as of
             Err e \<Rightarrow> Err e
           | Ok paths \<Rightarrow>
               Ok (if keep doc then (case doc_text ''path'' doc of Some p \<Rightarrow> p # paths | None \<Rightarrow> paths) else paths)))"

definition ti_list_message_paths :: "('t, 'v, 'q, 'a) tantivy \<Rightarrow> string \<Rightarrow> string \<Rightarrow> 'v \<Rightarrow> string list result" where
  "ti_list_message_paths T username mailbox v =
     (case ty_search T (Must_Query (mailbox_query username mailbox)) 10000 v of
        Inl e \<Rightarrow> Err (IndexError (''Search failed: '' @ e))
      | Inr as \<Rightarrow> collect_paths T (\<lambda>_. True) v as)"

definition parse_fields :: "('t, 'v, 'q, 'a) tantivy \<Rightarrow> string list \<Rightarrow> string \<Rightarrow> 'q tantivy_query option result" where
  "parse_fields T names x =
     (case ty_parse_query T names x of
        Inl e \<Rightarrow> Err (IndexError (''Query parse error: '' @ e))
      | Inr q \<Rightarrow> Ok (Some (Parsed_Query q)))"

text \<open>The query that is run, if the kind is supported.\<close>

fun search_query_of :: "('t, 'v, 'q, 'a) tantivy \<Rightarrow> string \<Rightarrow> string \<Rightarrow> search_query \<Rightarrow> 'q tantivy_query option result" where
  "search_query_of T username mailbox SQ_All = Ok (Some (Must_Query (mailbox_query username mailbox)))"
| "search_query_of T username mailbox (SQ_From x) = parse_fields T [''from''] x"
| "search_query_of T username mailbox (SQ_Subject x) = parse_fields T [''subject''] x"
| "search_query_of T username mailbox (SQ_Text x) = parse_fields T [''from'', ''to'', ''subject'', ''body''] x"
| "search_query_of T username mailbox _ = Ok None"

definition doc_in :: "string \<Rightarrow> string \<Rightarrow> document \<Rightarrow> bool" where
  "doc_in username mailbox doc \<longleftrightarrow>
     (case (doc_text ''username'' doc, doc_text ''mailbox'' doc) of
        (Some doc_username, Some doc_mailbox) \<Rightarrow> doc_username = username \<and> doc_mailbox = mailbox
      | _ \<Rightarrow> False)"

definition ti_search :: "('t, 'v, 'q, 'a) tantivy \<Rightarrow> string \<Rightarrow> string \<Rightarrow> search_query \<Rightarrow> 'v \<Rightarrow> string list result" where
  "ti_search T username mailbox query v =
     (case search_query_of T username mailbox query of
        Err e \<Rightarrow> Err e
      | Ok None \<Rightarrow> Ok []
      | Ok (Some q) \<Rightarrow>
          (case ty_search T q 1000 v of
             Inl e \<Rightarrow> Err (IndexError (''Search failed: '' @ e))
           | Inr as \<Rightarrow> collect_paths T (doc_in username mailbox) v as))"

section \<open>What the library promises\<close>

text \<open>
  Which documents a query matches: fields that are not split into words match as a whole. What
  the parsed queries match is left open (\<open>pm\<close>).
\<close>

fun matches :: "('q \<Rightarrow> document \<Rightarrow> bool) \<Rightarrow> 'q tantivy_query \<Rightarrow> document \<Rightarrow> bool" where
  "matches pm (Term_Query f x) d = ((f, x) \<in> set d)"
| "matches pm (Must_Query qs) d = list_all (\<lambda>q. matches pm q d) qs"
| "matches pm (Parsed_Query q) d = pm q d"

text \<open>A document is read back with the fields that the schema stores, all but the body.\<close>

definition field_stored :: "string \<Rightarrow> bool" where
  "field_stored f = (case map_of index_schema f of Some options \<Rightarrow> Opt_Stored \<in> set options | None \<Rightarrow> False)"

definition stored_part :: "document \<Rightarrow> document" where
  "stored_part d = filter (\<lambda>(f, x). field_stored f) d"

text \<open>
  The library over the documents that are \<open>committed\<close>, those added since (\<open>pending\<close>), and
  those of a view: adding appends, committing moves the pending documents into the index, and a
  search finds as many of the matching documents as the limit lets it. A call may fail only if
  \<open>faulty\<close>: a failed addition changes nothing, a failed commit commits nothing and may lose
  pending documents.
\<close>

definition tantivy_documented ::
  "bool \<Rightarrow> ('t, 'v, 'q, 'a) tantivy \<Rightarrow> ('t \<Rightarrow> document list) \<Rightarrow> ('t \<Rightarrow> document list) \<Rightarrow> ('v \<Rightarrow> document list) \<Rightarrow>
   ('q \<Rightarrow> document \<Rightarrow> bool) \<Rightarrow> bool" where
  "tantivy_documented faulty T committed pending docs pm \<longleftrightarrow>
     (\<forall>d t. committed (fst (ty_add_document T d t)) = committed t \<and>
        (snd (ty_add_document T d t) = Inr () \<and> pending (fst (ty_add_document T d t)) = pending t @ [d] \<or>
         faulty \<and> (\<exists>e. snd (ty_add_document T d t) = Inl e) \<and> pending (fst (ty_add_document T d t)) = pending t)) \<and>
     (\<forall>t. snd (ty_commit T t) = Inr () \<and> committed (fst (ty_commit T t)) = committed t @ pending t \<and> pending (fst (ty_commit T t)) = [] \<or>
        faulty \<and> (\<exists>e. snd (ty_commit T t) = Inl e) \<and> committed (fst (ty_commit T t)) = committed t \<and>
          set (pending (fst (ty_commit T t))) \<subseteq> set (pending t)) \<and>
     (\<forall>q n v. (\<exists>as ds. ty_search T q n v = Inr as \<and> length as = length ds \<and>
           mset ds \<subseteq># filter_mset (matches pm q) (mset (docs v)) \<and>
           length ds = min n (size (filter_mset (matches pm q) (mset (docs v)))) \<and>
           (\<forall>i<length as. ty_doc T (as ! i) v = Inr (stored_part (ds ! i)) \<or> faulty \<and> (\<exists>e. ty_doc T (as ! i) v = Inl e))) \<or>
        faulty \<and> (\<exists>e. ty_search T q n v = Inl e))"

section \<open>Documents of messages\<close>

lemma message_document_fields:
  "doc_text ''path'' (stored_part (message_document u m x)) = Some (tantivy_message_path u m (im_id x))"
  "doc_text ''username'' (stored_part (message_document u m x)) = Some u"
  "doc_text ''mailbox'' (stored_part (message_document u m x)) = Some m"
  by (simp_all add: doc_text_def stored_part_def message_document_def field_stored_def index_schema_def)

lemma doc_in_message [simp]: "doc_in u m (stored_part (message_document u' m' x)) \<longleftrightarrow> u' = u \<and> m' = m"
  by (simp add: doc_in_def message_document_fields)

lemma mailbox_query_matches [simp]:
  "matches pm (Must_Query (mailbox_query u m)) (message_document u' m' x) \<longleftrightarrow> u' = u \<and> m' = m"
  by (auto simp: mailbox_query_def message_document_def)

text \<open>The path that a loop over the documents found takes from a document.\<close>

definition kept_path :: "(document \<Rightarrow> bool) \<Rightarrow> document \<Rightarrow> string list" where
  "kept_path keep d =
     (if keep (stored_part d) then (case doc_text ''path'' (stored_part d) of Some p \<Rightarrow> [p] | None \<Rightarrow> []) else [])"

lemma collect_paths_ok:
  "list_all2 (\<lambda>a d. ty_doc T a v = Inr (stored_part d)) as ds \<Longrightarrow>
   collect_paths T keep v as = Ok (concat (map (kept_path keep) ds))"
  by (induction as ds rule: list_all2_induct) (auto simp: kept_path_def split: option.split)

lemma collect_paths_from:
  "list_all2 (\<lambda>a d. ty_doc T a v = Inr (stored_part d) \<or> (\<exists>e. ty_doc T a v = Inl e)) as ds \<Longrightarrow>
   collect_paths T keep v as = Ok ps \<Longrightarrow> p \<in> set ps \<Longrightarrow> \<exists>d\<in>set ds. p \<in> set (kept_path keep d)"
proof (induction as ds arbitrary: ps rule: list_all2_induct)
  case (Cons a as d ds)
  obtain doc where doc: "ty_doc T a v = Inr doc" "doc = stored_part d"
    using Cons.hyps(1) Cons.prems(1) by (cases "ty_doc T a v") auto
  obtain qs where qs: "collect_paths T keep v as = Ok qs"
    using doc(1) Cons.prems(1) by (cases "collect_paths T keep v as") auto
  have "ps = kept_path keep d @ qs"
    using doc qs Cons.prems(1) by (cases "keep doc"; cases "doc_text ''path'' doc") (simp_all add: kept_path_def)
  then show ?case using Cons.IH [OF qs] Cons.prems(2) by auto
qed simp

lemma kept_path_in:
  "kept_path (doc_in u m) (message_document u' m' x) = (if u' = u \<and> m' = m then [tantivy_message_path u m (im_id x)] else [])"
  by (simp add: kept_path_def message_document_fields)

lemma kept_path_all: "kept_path (\<lambda>_. True) (message_document u' m' x) = [tantivy_message_path u' m' (im_id x)]"
  by (simp add: kept_path_def message_document_fields)

section \<open>Runs of the writer loop\<close>

text \<open>The messages whose addition a run has acknowledged.\<close>

fun acknowledged :: "tantivy_command list \<Rightarrow> tantivy_reply list \<Rightarrow> (string \<times> string \<times> indexed_message) list" where
  "acknowledged (c # cs) (r # rs) =
     (case (c, r) of
        (TW_AddMessage u m x, TR_Path (Inr p)) \<Rightarrow> (u, m, x) # acknowledged cs rs
      | _ \<Rightarrow> acknowledged cs rs)"
| "acknowledged _ _ = []"

fun document_of :: "string \<times> string \<times> indexed_message \<Rightarrow> document" where
  "document_of (u, m, x) = message_document u m x"

fun path_of :: "string \<times> string \<times> indexed_message \<Rightarrow> string" where
  "path_of (u, m, x) = tantivy_message_path u m (im_id x)"

fun adds_message :: "tantivy_command \<Rightarrow> bool" where
  "adds_message (TW_AddMessage u m x) = True"
| "adds_message _ = False"

lemma adds_message_cases:
  obtains u m x where "c = TW_AddMessage u m x" | "\<not> adds_message c"
  by (cases c) auto

text \<open>Only an addition touches the documents.\<close>

lemma exec_index_unchanged: "\<not> adds_message c \<Longrightarrow> ts_index (fst (tantivy_exec T s c)) = ts_index s"
  by (cases c) (auto simp: tantivy_create_mailbox_def tantivy_delete_mailbox_def tantivy_rename_mailbox_def
      tantivy_next_uid_def Let_def split: option.splits)

lemma exec_not_acknowledged: "\<not> adds_message c \<Longrightarrow> acknowledged (c # cs) (r # rs) = acknowledged cs rs"
  by (cases c) simp_all

text \<open>The promises on changes, one by one.\<close>

lemma add_document_cases:
  assumes "tantivy_documented F T committed pending docs pm" and "ty_add_document T d t = (t', q)"
  shows "committed t' = committed t"
    and "q = Inr () \<and> pending t' = pending t @ [d] \<or> F \<and> (\<exists>e. q = Inl e) \<and> pending t' = pending t"
proof -
  have "committed (fst (ty_add_document T d t)) = committed t \<and>
      (snd (ty_add_document T d t) = Inr () \<and> pending (fst (ty_add_document T d t)) = pending t @ [d] \<or>
       F \<and> (\<exists>e. snd (ty_add_document T d t) = Inl e) \<and> pending (fst (ty_add_document T d t)) = pending t)"
    using assms(1) unfolding tantivy_documented_def by blast
  then show "committed t' = committed t"
    and "q = Inr () \<and> pending t' = pending t @ [d] \<or> F \<and> (\<exists>e. q = Inl e) \<and> pending t' = pending t"
    using assms(2) by simp_all
qed

lemma commit_cases:
  assumes "tantivy_documented F T committed pending docs pm" and "ty_commit T t = (t', q)"
  shows "q = Inr () \<and> committed t' = committed t @ pending t \<and> pending t' = [] \<or>
    F \<and> (\<exists>e. q = Inl e) \<and> committed t' = committed t \<and> set (pending t') \<subseteq> set (pending t)"
proof -
  have "snd (ty_commit T t) = Inr () \<and> committed (fst (ty_commit T t)) = committed t @ pending t \<and> pending (fst (ty_commit T t)) = [] \<or>
      F \<and> (\<exists>e. snd (ty_commit T t) = Inl e) \<and> committed (fst (ty_commit T t)) = committed t \<and>
        set (pending (fst (ty_commit T t))) \<subseteq> set (pending t)"
    using assms(1) unfolding tantivy_documented_def by blast
  then show ?thesis using assms(2) by simp
qed

lemma add_commits:
  assumes "tantivy_documented False T committed pending docs pm" and "pending (ts_index s) = []"
    and "tantivy_exec T s (TW_AddMessage u m x) = (s', r)"
  shows "pending (ts_index s') = []"
    and "(\<exists>e. r = TR_Path (Err e)) \<and> committed (ts_index s') = committed (ts_index s) \<or>
      (\<exists>p. r = TR_Path (Ok p)) \<and> committed (ts_index s') = committed (ts_index s) @ [message_document u m x]"
proof -
  obtain t1 q1 where a: "ty_add_document T (message_document u m x) (ts_index s) = (t1, q1)" by fastforce
  obtain t2 q2 where c: "ty_commit T t1 = (t2, q2)" by fastforce
  have "q1 = Inr ()" "committed t1 = committed (ts_index s)" "pending t1 = [message_document u m x]"
    using add_document_cases [OF assms(1) a] assms(2) by auto
  moreover have "q2 = Inr ()" "committed t2 = committed t1 @ pending t1" "pending t2 = []"
    using commit_cases [OF assms(1) c] by auto
  ultimately show "pending (ts_index s') = []"
      and "(\<exists>e. r = TR_Path (Err e)) \<and> committed (ts_index s') = committed (ts_index s) \<or>
        (\<exists>p. r = TR_Path (Ok p)) \<and> committed (ts_index s') = committed (ts_index s) @ [message_document u m x]"
    using assms(2,3) a c by (auto simp: tantivy_add_message_def Let_def split: option.splits)
qed

lemma run_commits:
  assumes "tantivy_documented False T committed pending docs pm" and "pending (ts_index s) = []"
  shows "committed (ts_index (state (fst (run_loop (tantivy_exec T) tantivy_stops s cs)))) =
    committed (ts_index s) @ map document_of (acknowledged cs (snd (run_loop (tantivy_exec T) tantivy_stops s cs)))"
  using assms(2)
proof (induction cs arbitrary: s)
  case (Cons c cs)
  obtain s' r where ex: "tantivy_exec T s c = (s', r)" by fastforce
  have step: "pending (ts_index s') = [] \<and> committed (ts_index s') @ map document_of rest =
      committed (ts_index s) @ map document_of (acknowledged [c] [r]) @ map document_of rest" for rest
  proof (rule adds_message_cases [of c])
    fix u m x
    assume c: "c = TW_AddMessage u m x"
    then show ?thesis using add_commits [OF assms(1) Cons.prems, of u m x s' r] ex by auto
  next
    assume quiet: "\<not> adds_message c"
    have "ts_index s' = ts_index s" "acknowledged [c] [r] = []"
      using exec_index_unchanged [OF quiet, of T s] exec_not_acknowledged [OF quiet, of "[]" r "[]"] ex by simp_all
    then show ?thesis using Cons.prems by simp
  qed
  have split: "acknowledged (c # cs) (r # rs) = acknowledged [c] [r] @ acknowledged cs rs" for rs
    by (cases c) (simp_all split: tantivy_reply.split sum.split)
  have stop: "acknowledged cs [] = []" for cs by (cases cs) simp_all
  show ?case
  proof (cases "tantivy_stops c")
    case True
    then show ?thesis using step [of "[]"] ex split [of "[]"] stop by (simp add: run_loop_Cons_fst run_loop_Cons_snd del: run_loop.simps(2))
  next
    case False
    then show ?thesis
      using Cons.IH [of s'] step ex split by (simp add: run_loop_Cons_fst run_loop_Cons_snd del: run_loop.simps(2) acknowledged.simps)
  qed
qed (simp add: run_loop.simps)

text \<open>With faults, every document comes from the addition of a message.\<close>

definition docs_from :: "('t \<Rightarrow> document list) \<Rightarrow> ('t \<Rightarrow> document list) \<Rightarrow> tantivy_command list \<Rightarrow> 't \<Rightarrow> bool" where
  "docs_from committed pending cs t \<longleftrightarrow>
     (\<forall>d\<in>set (committed t) \<union> set (pending t). \<exists>u m x. TW_AddMessage u m x \<in> set cs \<and> d = message_document u m x)"

lemma exec_docs_from:
  assumes "tantivy_documented F T committed pending docs pm" and "docs_from committed pending cs (ts_index s)" and "c \<in> set cs"
  shows "docs_from committed pending cs (ts_index (fst (tantivy_exec T s c)))"
proof (rule adds_message_cases [of c])
  fix u m x
  assume c: "c = TW_AddMessage u m x"
  obtain t1 q1 where a: "ty_add_document T (message_document u m x) (ts_index s) = (t1, q1)" by fastforce
  obtain t2 q2 where b: "ty_commit T t1 = (t2, q2)" by fastforce
  have "set (committed t1) \<union> set (pending t1) \<subseteq>
      insert (message_document u m x) (set (committed (ts_index s)) \<union> set (pending (ts_index s)))"
    using add_document_cases [OF assms(1) a] by auto
  then have t1: "docs_from committed pending cs t1"
    using assms(2,3) c unfolding docs_from_def by blast
  have "set (committed t2) \<union> set (pending t2) \<subseteq> set (committed t1) \<union> set (pending t1)"
    using commit_cases [OF assms(1) b] by auto
  then have t2: "docs_from committed pending cs t2" using t1 unfolding docs_from_def by blast
  show ?thesis using assms(2) t1 t2 a b c
    by (auto simp: tantivy_add_message_def Let_def split: option.splits sum.splits)
next
  assume "\<not> adds_message c"
  then show ?thesis using exec_index_unchanged [of c T s] assms(2) by simp
qed

lemma run_docs_from:
  "tantivy_documented F T committed pending docs pm \<Longrightarrow> docs_from committed pending ds (ts_index s) \<Longrightarrow> set cs \<subseteq> set ds \<Longrightarrow>
   docs_from committed pending ds (ts_index (state (fst (run_loop (tantivy_exec T) tantivy_stops s cs))))"
proof (induction cs arbitrary: s)
  case (Cons c cs)
  then have "docs_from committed pending ds (ts_index (fst (tantivy_exec T s c)))"
    using exec_docs_from [OF Cons.prems(1,2), of c] by simp
  then show ?case using Cons.IH Cons.prems by (simp add: run_loop_Cons_fst del: run_loop.simps(2))
qed simp

section \<open>What the reads find\<close>

lemma ucast_u32_u64_inj: "(ucast (a :: u32) :: 64 word) = ucast b \<Longrightarrow> a = b"
proof -
  assume eq: "(ucast a :: 64 word) = ucast b"
  have "unat (ucast c :: 64 word) = unat c" for c :: u32
  proof -
    have "unat c < 2 ^ 32" using unsigned_less [of c] by simp
    then have "unat c < 2 ^ 64" by simp
    then show ?thesis by (simp add: unsigned_ucast_eq take_bit_nat_eq_self)
  qed
  then have "unat a = unat b" using eq by metis
  then show "a = b" by (simp add: word_unat_eq_iff)
qed

lemma search_cases:
  assumes "tantivy_documented F T committed pending docs pm"
  shows "(\<exists>as ds. ty_search T q n v = Inr as \<and> mset ds \<subseteq># filter_mset (matches pm q) (mset (docs v)) \<and>
      length ds = min n (size (filter_mset (matches pm q) (mset (docs v)))) \<and>
      list_all2 (\<lambda>a d. ty_doc T a v = Inr (stored_part d) \<or> F \<and> (\<exists>e. ty_doc T a v = Inl e)) as ds) \<or>
    F \<and> (\<exists>e. ty_search T q n v = Inl e)"
proof -
  have "(\<exists>as ds. ty_search T q n v = Inr as \<and> length as = length ds \<and>
           mset ds \<subseteq># filter_mset (matches pm q) (mset (docs v)) \<and>
           length ds = min n (size (filter_mset (matches pm q) (mset (docs v)))) \<and>
           (\<forall>i<length as. ty_doc T (as ! i) v = Inr (stored_part (ds ! i)) \<or> F \<and> (\<exists>e. ty_doc T (as ! i) v = Inl e))) \<or>
        F \<and> (\<exists>e. ty_search T q n v = Inl e)"
    using assms unfolding tantivy_documented_def by blast
  then show ?thesis unfolding list_all2_conv_all_nth by blast
qed

text \<open>A read of a mailbox tells only of messages that were added to it.\<close>

lemma found_from:
  assumes "tantivy_documented F T committed pending docs pm" and "ty_search T q n v = Inr as"
    and "collect_paths T keep v as = Ok ps" and "p \<in> set ps"
    and "\<forall>d\<in>set (docs v). \<exists>u m x. A u m x \<and> d = message_document u m x"
  obtains u m x where "A u m x" and "matches pm q (message_document u m x)" and "p \<in> set (kept_path keep (message_document u m x))"
proof -
  obtain ds where ds: "mset ds \<subseteq># filter_mset (matches pm q) (mset (docs v))"
      "list_all2 (\<lambda>a d. ty_doc T a v = Inr (stored_part d) \<or> F \<and> (\<exists>e. ty_doc T a v = Inl e)) as ds"
    using search_cases [OF assms(1), of q n v] assms(2) by auto
  have each: "list_all2 (\<lambda>a d. ty_doc T a v = Inr (stored_part d) \<or> (\<exists>e. ty_doc T a v = Inl e)) as ds"
    using ds(2) by (rule list_all2_mono) blast
  obtain d where d: "d \<in> set ds" and p: "p \<in> set (kept_path keep d)" using collect_paths_from [OF each assms(3,4)] by blast
  from d have "d \<in># filter_mset (matches pm q) (mset (docs v))" using mset_subset_eqD [OF ds(1), of d] by simp
  then have "d \<in> set (docs v)" "matches pm q d" by simp_all
  moreover from this(1) obtain u m x where "A u m x" "d = message_document u m x" using assms(5) by blast
  ultimately show thesis using that p by simp
qed

lemma search_from:
  assumes "tantivy_documented F T committed pending docs pm"
    and "\<forall>d\<in>set (docs v). \<exists>u m x. A u m x \<and> d = message_document u m x"
    and "ti_search T u m q v = Ok ps" and "p \<in> set ps"
  shows "\<exists>x. A u m x \<and> p = tantivy_message_path u m (im_id x)"
proof -
  obtain sq as where "ty_search T sq 1000 v = Inr as" "collect_paths T (doc_in u m) v as = Ok ps"
    using assms(3,4) by (auto simp: ti_search_def split: sum.splits option.splits)
  then obtain u' m' x where "A u' m' x" "p \<in> set (kept_path (doc_in u m) (message_document u' m' x))"
    using found_from [OF assms(1) _ _ assms(4,2)] by blast
  then show ?thesis by (auto simp: kept_path_in split: if_splits)
qed

lemma list_from:
  assumes "tantivy_documented F T committed pending docs pm"
    and "\<forall>d\<in>set (docs v). \<exists>u m x. A u m x \<and> d = message_document u m x"
    and "ti_list_message_paths T u m v = Ok ps" and "p \<in> set ps"
  shows "\<exists>x. A u m x \<and> p = tantivy_message_path u m (im_id x)"
proof -
  obtain as where "ty_search T (Must_Query (mailbox_query u m)) 10000 v = Inr as" "collect_paths T (\<lambda>_. True) v as = Ok ps"
    using assms(3) by (auto simp: ti_list_message_paths_def split: sum.splits)
  then obtain u' m' x where "A u' m' x" "matches pm (Must_Query (mailbox_query u m)) (message_document u' m' x)"
      "p \<in> set (kept_path (\<lambda>_. True) (message_document u' m' x))"
    using found_from [OF assms(1) _ _ assms(4,2)] by blast
  then show ?thesis by (auto simp only: mailbox_query_matches kept_path_all list.set)
qed

lemma first_path_from:
  assumes "tantivy_documented F T committed pending docs pm"
    and "\<forall>d\<in>set (docs v). \<exists>u m x. A u m x \<and> d = message_document u m x"
    and "first_path T q v = Ok (Some p)"
  obtains u m x where "A u m x" and "matches pm q (message_document u m x)" and "p = tantivy_message_path u m (im_id x)"
proof -
  obtain a as where found: "ty_search T q 1 v = Inr (a # as)"
    using assms(3) by (auto simp: first_path_def split: sum.splits list.splits)
  then obtain doc where doc: "ty_doc T a v = Inr doc" "doc_text ''path'' doc = Some p"
    using assms(3) by (auto simp: first_path_def split: sum.splits)
  obtain ds where ds: "mset ds \<subseteq># filter_mset (matches pm q) (mset (docs v))"
      "list_all2 (\<lambda>a d. ty_doc T a v = Inr (stored_part d) \<or> F \<and> (\<exists>e. ty_doc T a v = Inl e)) (a # as) ds"
    using search_cases [OF assms(1), of q 1 v] found by auto
  then obtain d where d: "d \<in> set ds" "doc = stored_part d" using doc(1) by (cases ds) auto
  have "d \<in># filter_mset (matches pm q) (mset (docs v))" using mset_subset_eqD [OF ds(1), of d] d(1) by simp
  then have "d \<in> set (docs v)" "matches pm q d" by simp_all
  moreover from this(1) obtain u m x where "A u m x" "d = message_document u m x" using assms(2) by blast
  ultimately show thesis using that doc(2) d(2) by (simp add: message_document_fields)
qed

lemma by_uid_from:
  assumes "tantivy_documented F T committed pending docs pm"
    and "\<forall>d\<in>set (docs v). \<exists>u m x. A u m x \<and> d = message_document u m x"
    and "ti_get_message_path_by_uid T u m n v = Ok (Some p)"
  shows "\<exists>x. A u m x \<and> im_uid x = n \<and> p = tantivy_message_path u m (im_id x)"
proof -
  obtain u' m' x where x: "A u' m' x" "p = tantivy_message_path u' m' (im_id x)"
      "matches pm (Must_Query (mailbox_query u m @ [Term_Query ''uid'' (U64 (ucast n))])) (message_document u' m' x)"
    using first_path_from [OF assms(1,2), of "Must_Query (mailbox_query u m @ [Term_Query ''uid'' (U64 (ucast n))])" p] assms(3)
    unfolding ti_get_message_path_by_uid_def by metis
  have "u' = u" "m' = m" "(ucast (im_uid x) :: 64 word) = ucast n"
    using x(3) by (auto simp: mailbox_query_def message_document_def)
  then show ?thesis using x(1,2) ucast_u32_u64_inj by metis
qed

text \<open>Without faults and within the limit a listing is complete.\<close>

lemma list_complete:
  assumes "tantivy_documented False T committed pending docs pm" and "docs v = map document_of ms"
    and "length (filter (\<lambda>(u', m', x). u' = u \<and> m' = m) ms) \<le> 10000"
  shows "\<exists>ps. ti_list_message_paths T u m v = Ok ps \<and>
    mset ps = mset (map path_of (filter (\<lambda>(u', m', x). u' = u \<and> m' = m) ms))"
proof -
  let ?q = "Must_Query (mailbox_query u m)"
  let ?here = "filter (\<lambda>(u', m', x). u' = u \<and> m' = m) ms"
  have match: "matches pm ?q (document_of y) \<longleftrightarrow> (case y of (u', m', x) \<Rightarrow> u' = u \<and> m' = m)" for y
    by (cases y) (simp only: document_of.simps mailbox_query_matches prod.case)
  have "filter (matches pm ?q) (docs v) = map document_of ?here"
    unfolding assms(2) filter_map comp_def match by simp
  then have here: "filter_mset (matches pm ?q) (mset (docs v)) = mset (map document_of ?here)"
    by (metis mset_filter)
  obtain as ds where found: "ty_search T ?q 10000 v = Inr as" "mset ds \<subseteq># mset (map document_of ?here)"
      "length ds = min 10000 (size (mset (map document_of ?here)))" "list_all2 (\<lambda>a d. ty_doc T a v = Inr (stored_part d)) as ds"
    using search_cases [OF assms(1), of ?q 10000 v] unfolding here simp_thms by blast
  have "size (mset ds) = size (mset (map document_of ?here))" using found(3) assms(3) by (simp only: size_mset length_map min_absorb2)
  then have ds: "mset ds = mset (map document_of ?here)"
    using found(2) mset_subset_size by (metis less_irrefl subset_mset.le_imp_less_or_eq)
  have path: "kept_path (\<lambda>_. True) (document_of y) = [path_of y]" for y
    by (cases y) (simp only: document_of.simps path_of.simps kept_path_all)
  have sum: "\<Sum>\<^sub># (image_mset (\<lambda>d. mset (kept_path (\<lambda>_. True) d)) (mset (map document_of ys))) = mset (map path_of ys)" for ys
    by (induction ys) (simp_all add: path)
  have "mset (concat (map (kept_path (\<lambda>_. True)) ds)) = \<Sum>\<^sub># (image_mset (\<lambda>d. mset (kept_path (\<lambda>_. True) d)) (mset ds))"
    by (induction ds) simp_all
  also have "\<dots> = mset (map path_of ?here)" unfolding ds by (rule sum)
  finally have "mset (concat (map (kept_path (\<lambda>_. True)) ds)) = mset (map path_of ?here)" .
  then show ?thesis using found(1) collect_paths_ok [OF found(4)]
    by (intro exI [of _ "concat (map (kept_path (\<lambda>_. True)) ds)"]) (simp add: ti_list_message_paths_def)
qed

section \<open>The mailboxes of different users\<close>

lemma tantivy_key_inj:
  assumes "CHR '':'' \<notin> set u" and "CHR '':'' \<notin> set v"
  shows "tantivy_key u m = tantivy_key v n \<longleftrightarrow> u = v \<and> m = n"
proof
  assume eq: "tantivy_key u m = tantivy_key v n"
  have "takeWhile (\<lambda>c. c \<noteq> CHR '':'') (tantivy_key w k) = w" if "CHR '':'' \<notin> set w" for w k
    using that by (simp add: tantivy_key_def) (induction w, auto)
  then have "u = v" using eq assms by metis
  then show "u = v \<and> m = n" using eq by (simp add: tantivy_key_def)
qed simp

fun command_user :: "tantivy_command \<Rightarrow> string option" where
  "command_user (TW_CreateMailbox u n) = Some u"
| "command_user (TW_DeleteMailbox u n) = Some u"
| "command_user (TW_RenameMailbox u m n) = Some u"
| "command_user (TW_AddMessage u m x) = Some u"
| "command_user (TW_GetNextUid u m) = Some u"
| "command_user _ = None"

lemma exec_frame:
  assumes "CHR '':'' \<notin> set u" and "\<And>w. command_user c = Some w \<Longrightarrow> w \<noteq> u \<and> CHR '':'' \<notin> set w"
  shows "ts_mailboxes (fst (tantivy_exec T s c)) (tantivy_key u n) = ts_mailboxes s (tantivy_key u n)"
  using assms(2) tantivy_key_inj [OF assms(1)]
  by (cases c) (auto simp: tantivy_create_mailbox_def tantivy_delete_mailbox_def tantivy_rename_mailbox_def
      tantivy_add_message_def tantivy_next_uid_def Let_def split: option.splits prod.splits sum.splits)

lemma run_frame:
  assumes "CHR '':'' \<notin> set u" and "\<forall>c\<in>set cs. \<forall>w. command_user c = Some w \<longrightarrow> w \<noteq> u \<and> CHR '':'' \<notin> set w"
  shows "ts_mailboxes (state (fst (run_loop (tantivy_exec T) tantivy_stops s cs))) (tantivy_key u n) = ts_mailboxes s (tantivy_key u n)"
  using assms(2)
proof (induction cs arbitrary: s)
  case (Cons c cs)
  then have "ts_mailboxes (fst (tantivy_exec T s c)) (tantivy_key u n) = ts_mailboxes s (tantivy_key u n)"
    by (intro exec_frame [OF assms(1)]) simp
  then show ?case using Cons.IH Cons.prems by (simp add: run_loop_Cons_fst del: run_loop.simps(2))
qed simp

section \<open>UIDs\<close>

text \<open>Commands that neither remove nor replace the mailbox of a key.\<close>

fun keeps_mailbox :: "string \<Rightarrow> tantivy_command \<Rightarrow> bool" where
  "keeps_mailbox key (TW_DeleteMailbox u n) = (tantivy_key u n \<noteq> key)"
| "keeps_mailbox key (TW_RenameMailbox u m n) = (tantivy_key u m \<noteq> key \<and> tantivy_key u n \<noteq> key)"
| "keeps_mailbox key _ = True"

fun uid_given :: "string \<Rightarrow> tantivy_command \<Rightarrow> tantivy_reply \<Rightarrow> uid option" where
  "uid_given key (TW_GetNextUid u m) (TR_Uid (Inr n)) = (if tantivy_key u m = key then Some n else None)"
| "uid_given key _ _ = None"

definition uid_counter :: "string \<Rightarrow> 't tantivy_state \<Rightarrow> uid" where
  "uid_counter key s = (case ts_mailboxes s key of Some e \<Rightarrow> te_uid_counter e | None \<Rightarrow> 0)"

interpretation uids: counter_loop "tantivy_exec T" tantivy_stops "\<lambda>s. ts_mailboxes s key \<noteq> None" "keeps_mailbox key"
    "uid_counter key" "uid_given key" for T key
proof
  fix s :: "'a tantivy_state" and c v
  assume s: "ts_mailboxes s key \<noteq> None" and c: "keeps_mailbox key c"
  note defs = tantivy_create_mailbox_def tantivy_delete_mailbox_def tantivy_rename_mailbox_def
      tantivy_add_message_def tantivy_next_uid_def uid_counter_def Let_def
  show "ts_mailboxes (fst (tantivy_exec T s c)) key \<noteq> None"
    using s c by (cases c) (auto simp: defs split: option.splits prod.splits sum.splits)
  show "uid_counter key (fst (tantivy_exec T s c)) = uid_counter key s" if "uid_given key c (snd (tantivy_exec T s c)) = None"
    using s c that by (cases c) (auto simp: defs split: option.splits prod.splits sum.splits if_splits)
  show "v = uid_counter key s \<and> uid_counter key (fst (tantivy_exec T s c)) = uid_counter key s + 1"
    if "uid_given key c (snd (tantivy_exec T s c)) = Some v"
    using s c that by (cases c) (auto simp: defs split: option.splits prod.splits sum.splits if_splits)
qed

end
