(* ===== verification/Tantivy_Run.thy ===== *)
theory Tantivy_Run
  imports Tantivy_Index
begin

text \<open>
  The properties of the tantivy index over runs of its writer loop, a library that keeps the
  documented promises for the examples, and what goes wrong where keys or counters meet.
\<close>

section \<open>A library for the examples\<close>

text \<open>
  The index is the list of committed and of pending documents, a view a list of documents, an
  address a position; a parsed query matches the documents one of whose fields holds the text.
\<close>

type_synonym list_index = "document list \<times> document list"

fun text_matches :: "string list \<times> string \<Rightarrow> document \<Rightarrow> bool" where
  "text_matches (names, x) d = list_ex (\<lambda>(f, y). f \<in> set names \<and> y = Text x) d"

definition list_search :: "(string list \<times> string) tantivy_query \<Rightarrow> nat \<Rightarrow> document list \<Rightarrow> string + nat list" where
  "list_search q n v = Inr (take n (filter (\<lambda>i. matches text_matches q (v ! i)) [0..<length v]))"

definition list_tantivy :: "(list_index, document list, string list \<times> string, nat) tantivy" where
  "list_tantivy = \<lparr>ty_exists = (\<lambda>path t. False), ty_open_in_dir = (\<lambda>path t. (t, Inr ())),
     ty_create_dir_all = (\<lambda>path t. (t, Inr ())), ty_create_in_dir = (\<lambda>path schema t. (([], []), Inr ())),
     ty_reader = (\<lambda>t. (t, Inr ())), ty_writer = (\<lambda>t. (t, Inr ())),
     ty_add_document = (\<lambda>d t. ((fst t, snd t @ [d]), Inr ())),
     ty_commit = (\<lambda>t. ((fst t @ snd t, []), Inr ())),
     ty_search = list_search, ty_doc = (\<lambda>i v. Inr (stored_part (v ! i))),
     ty_parse_query = (\<lambda>names x. Inr (names, x))\<rparr>"

lemma list_search_found:
  "\<exists>as ds. list_search q n v = Inr as \<and> length as = length ds \<and>
     mset ds \<subseteq># filter_mset (matches text_matches q) (mset v) \<and>
     length ds = min n (size (filter_mset (matches text_matches q) (mset v))) \<and>
     (\<forall>i<length as. stored_part (v ! (as ! i)) = stored_part (ds ! i))"
proof -
  let ?is = "filter (\<lambda>i. matches text_matches q (v ! i)) [0..<length v]"
  have "filter (matches text_matches q) (map ((!) v) [0..<length v]) = map ((!) v) ?is"
    by (simp add: filter_map comp_def)
  then have fv: "filter (matches text_matches q) v = map ((!) v) ?is" by (simp add: map_nth)
  have sub: "mset (take n (map ((!) v) ?is)) \<subseteq># mset (map ((!) v) ?is)"
    by (metis append_take_drop_id mset_append mset_subset_eq_add_left)
  have "filter_mset (matches text_matches q) (mset v) = mset (map ((!) v) ?is)" by (metis fv mset_filter)
  then show ?thesis using sub
    by (intro exI [of _ "take n ?is"] exI [of _ "take n (map ((!) v) ?is)"])
      (simp add: list_search_def take_map min.commute del: mset_map)
qed

lemma list_tantivy_documented: "tantivy_documented F list_tantivy fst snd (\<lambda>v. v) text_matches"
  unfolding tantivy_documented_def using list_search_found by (simp add: list_tantivy_def)

text \<open>A new index over no documents.\<close>

definition fresh_index :: "'t \<Rightarrow> 't tantivy_state" where
  "fresh_index t = \<lparr>ts_mailboxes = Map.empty, ts_index = t\<rparr>"

lemma tantivy_new_fresh:
  "tantivy_new T path t = Ok a \<Longrightarrow> \<exists>t'. state a = fresh_index t'"
  by (auto simp: tantivy_new_def tantivy_start_def fresh_index_def split: prod.splits sum.splits)

definition example_indexed :: "string \<Rightarrow> string \<Rightarrow> indexed_message" where
  "example_indexed i from = \<lparr>im_id = MessageId i, im_uid = 1, im_mailbox = ''INBOX'', im_flags = [Seen], im_internal_date = 0,
     im_size = 10, im_from = from, im_to = ''amy'', im_subject = ''hello'', im_body_preview = ''hi''\<rparr>"

definition example_commands :: "tantivy_command list" where
  "example_commands = [TW_CreateMailbox ''amy'' ''INBOX'', TW_AddMessage ''amy'' ''INBOX'' (example_indexed ''1'' ''bob''),
     TW_AddMessage ''bob'' ''INBOX'' (example_indexed ''2'' ''bob''), TW_CreateMailbox ''bob'' ''INBOX'',
     TW_AddMessage ''bob'' ''INBOX'' (example_indexed ''3'' ''bob''), TW_DeleteMessage (MessageId ''1'')]"

abbreviation list_run :: "tantivy_command list \<Rightarrow> list_index tantivy_state actor \<times> tantivy_reply list" where
  "list_run cs \<equiv> run_loop (tantivy_exec list_tantivy) tantivy_stops (fresh_index ([], [])) cs"

lemma example_run:
  "snd (list_run example_commands) =
     [TR_Unit (Ok ()), TR_Path (Ok ''amy/INBOX/1.eml''), TR_Path (Err (NotFound ''Mailbox INBOX not found'')),
      TR_Unit (Ok ()), TR_Path (Ok ''bob/INBOX/3.eml''), TR_Unit (Ok ())]"
  by (simp add: example_commands_def fresh_index_def tantivy_create_mailbox_def tantivy_add_message_def tantivy_key_def
      mailbox_not_found_def list_tantivy_def Let_def example_indexed_def tantivy_message_path_def split: prod.split)

section \<open>Properties\<close>

text \<open>
  C22: without faults a listing of a mailbox gives exactly the paths of the messages whose
  addition to it was acknowledged, as often as they were added, in a view of all commits;
  deleting messages or mailboxes takes nothing away from it.
\<close>

theorem tantivy_listing_exact:
  assumes "tantivy_documented False T committed pending docs pm" and "committed t = []" and "pending t = []"
    and "run_loop (tantivy_exec T) tantivy_stops (fresh_index t) cs = (a, rs)"
    and "docs v = committed (ts_index (state a))"
    and "length (filter (\<lambda>(u', m', x). u' = u \<and> m' = m) (acknowledged cs rs)) \<le> 10000"
  shows "\<exists>ps. ti_list_message_paths T u m v = Ok ps \<and>
    mset ps = mset (map path_of (filter (\<lambda>(u', m', x). u' = u \<and> m' = m) (acknowledged cs rs)))"
proof (rule list_complete [OF assms(1) _ assms(6)])
  have "pending (ts_index (fresh_index t)) = []" "committed (ts_index (fresh_index t)) = []"
    using assms(2,3) by (simp_all add: fresh_index_def)
  then show "docs v = map document_of (acknowledged cs rs)"
    using run_commits [OF assms(1), of "fresh_index t" cs] assms(4,5) by simp
qed

text \<open>
  C21: whatever faults occur and whatever the query parser makes of the words, a search, a
  listing or a lookup by UID in a user's mailbox gives only paths of messages that were added to
  that mailbox of that user, the lookup only of one that was added with that UID.
\<close>

theorem tantivy_reads_confined:
  assumes "tantivy_documented F T committed pending docs pm" and "committed t = []" and "pending t = []"
    and "docs v = committed (ts_index (state (fst (run_loop (tantivy_exec T) tantivy_stops (fresh_index t) cs))))"
  shows "(ti_search T u m q v = Ok ps \<or> ti_list_message_paths T u m v = Ok ps \<longrightarrow>
      (\<forall>p\<in>set ps. \<exists>x. TW_AddMessage u m x \<in> set cs \<and> p = tantivy_message_path u m (im_id x))) \<and>
    (ti_get_message_path_by_uid T u m n v = Ok (Some p) \<longrightarrow>
      (\<exists>x. TW_AddMessage u m x \<in> set cs \<and> im_uid x = n \<and> p = tantivy_message_path u m (im_id x)))"
proof -
  have "docs_from committed pending cs (ts_index (fresh_index t))"
    using assms(2,3) by (simp add: docs_from_def fresh_index_def)
  from run_docs_from [OF assms(1) this, of cs]
  have all: "\<forall>d\<in>set (docs v). \<exists>u m x. TW_AddMessage u m x \<in> set cs \<and> d = message_document u m x"
    using assms(4) by (simp add: docs_from_def)
  note from_all = search_from [where A = "\<lambda>u m x. TW_AddMessage u m x \<in> set cs", OF assms(1) all]
    list_from [where A = "\<lambda>u m x. TW_AddMessage u m x \<in> set cs", OF assms(1) all]
    by_uid_from [where A = "\<lambda>u m x. TW_AddMessage u m x \<in> set cs", OF assms(1) all]
  show ?thesis using from_all by blast
qed

text \<open>
  C23: if no user name has a colon, the commands of other users, whatever they are and whatever
  the library does, leave a user's mailboxes with their counts and UID counters as they are.
\<close>

theorem tantivy_users_isolated:
  assumes "CHR '':'' \<notin> set u" and "\<forall>c\<in>set cs. \<forall>w. command_user c = Some w \<longrightarrow> w \<noteq> u \<and> CHR '':'' \<notin> set w"
  shows "ts_mailboxes (state (fst (run_loop (tantivy_exec T) tantivy_stops s cs))) (tantivy_key u n) =
    ts_mailboxes s (tantivy_key u n)"
  by (rule run_frame [OF assms])

text \<open>
  With a colon in a user name this fails, for every library and every such pair of names:
  user \<open>u\<close> creates the mailbox \<open>x:y\<close>, user \<open>u:x\<close> removes a mailbox \<open>y\<close> without ever having
  created one, and \<open>u\<close>'s mailbox is gone.
\<close>

theorem tantivy_keys_collide:
  "snd (run_loop (tantivy_exec T) tantivy_stops (fresh_index t)
     [TW_CreateMailbox u (x @ '':'' @ y), TW_DeleteMailbox (u @ '':'' @ x) y, TW_GetNextUid u (x @ '':'' @ y)]) =
   [TR_Unit (Ok ()), TR_Unit (Ok ()), TR_Uid (Err (mailbox_not_found (x @ '':'' @ y)))]"
  by (simp add: tantivy_create_mailbox_def tantivy_delete_mailbox_def tantivy_next_uid_def tantivy_key_def fresh_index_def Let_def)

text \<open>
  The UIDs handed out for a mailbox are strictly ascending, among all other commands, as
  long as the mailbox is neither deleted nor renamed nor replaced by a renamed one, and the
  counter does not wrap.
\<close>

theorem tantivy_uids_ascending:
  assumes "ts_mailboxes s key \<noteq> None" and "\<forall>c\<in>set cs. keeps_mailbox key c"
    and "unat (uid_counter key s) + length cs < 2 ^ 32"
  shows "sorted_wrt (<) (handed_out (uid_given key) cs (snd (run_loop (tantivy_exec T) tantivy_stops s cs)))"
  by (rule conjunct1 [OF uids.handed_out_ascending [OF assms]])

text \<open>
  A mailbox that is deleted and created again hands out the same UIDs again under the same
  UIDVALIDITY, against RFC 3501.
\<close>

theorem tantivy_uids_repeat:
  "snd (run_loop (tantivy_exec T) tantivy_stops (fresh_index t)
     [TW_CreateMailbox u n, TW_GetNextUid u n, TW_DeleteMailbox u n, TW_CreateMailbox u n, TW_GetNextUid u n]) =
   [TR_Unit (Ok ()), TR_Uid (Ok 1), TR_Unit (Ok ()), TR_Unit (Ok ()), TR_Uid (Ok 1)]"
  by (simp add: tantivy_create_mailbox_def tantivy_delete_mailbox_def tantivy_next_uid_def tantivy_key_def fresh_index_def
      new_mailbox_entry_def Let_def)

section \<open>Examples\<close>

theorem tantivy_listing_exact_witness:
  "\<exists>v ps. ti_list_message_paths list_tantivy ''amy'' ''INBOX'' v = Ok ps \<and> mset ps = mset [''amy/INBOX/1.eml'']"
proof -
  have run: "list_run example_commands = (fst (list_run example_commands), snd (list_run example_commands))" by simp
  have ack: "acknowledged example_commands (snd (list_run example_commands)) =
      [(''amy'', ''INBOX'', example_indexed ''1'' ''bob''), (''bob'', ''INBOX'', example_indexed ''3'' ''bob'')]"
    unfolding example_run by (simp add: example_commands_def)
  have path: "path_of (''amy'', ''INBOX'', example_indexed ''1'' ''bob'') = ''amy/INBOX/1.eml''"
    by (simp add: example_indexed_def tantivy_message_path_def)
  show ?thesis
    using tantivy_listing_exact [where u = "''amy''" and m = "''INBOX''",
        OF list_tantivy_documented fst_conv snd_conv run refl] path
    unfolding ack by (intro exI [of _ "fst (ts_index (state (fst (list_run example_commands))))"]) (simp del: path_of.simps)
qed

theorem tantivy_reads_confined_witness:
  "\<exists>v ps. ti_search list_tantivy ''amy'' ''INBOX'' (SQ_From ''bob'') v = Ok ps \<and> ps \<noteq> [] \<and>
     (\<forall>p\<in>set ps. \<exists>x. TW_AddMessage ''amy'' ''INBOX'' x \<in> set example_commands \<and> p = tantivy_message_path ''amy'' ''INBOX'' (im_id x))"
proof -
  let ?v = "fst (ts_index (state (fst (list_run example_commands))))"
  have docs: "?v = [message_document ''amy'' ''INBOX'' (example_indexed ''1'' ''bob''), message_document ''bob'' ''INBOX'' (example_indexed ''3'' ''bob'')]"
    by (simp add: example_commands_def fresh_index_def tantivy_create_mailbox_def tantivy_add_message_def tantivy_key_def
        list_tantivy_def Let_def split: prod.split)
  have found: "ti_search list_tantivy ''amy'' ''INBOX'' (SQ_From ''bob'') ?v = Ok [tantivy_message_path ''amy'' ''INBOX'' (MessageId ''1'')]"
    unfolding docs
    by (simp add: ti_search_def parse_fields_def list_tantivy_def list_search_def upt_rec message_document_fields)
      (simp add: example_indexed_def message_document_def)
  show ?thesis
    using tantivy_reads_confined [where q = "SQ_From ''bob''" and T = list_tantivy and u = "''amy''" and m = "''INBOX''"
        and cs = example_commands and v = ?v and ps = "[tantivy_message_path ''amy'' ''INBOX'' (MessageId ''1'')]",
        OF list_tantivy_documented fst_conv snd_conv refl] found
    by (intro exI [of _ ?v] exI [of _ "[tantivy_message_path ''amy'' ''INBOX'' (MessageId ''1'')]"]) simp
qed

theorem tantivy_users_isolated_witness:
  "ts_mailboxes (state (fst (list_run [TW_CreateMailbox ''bob'' ''INBOX'', TW_DeleteMailbox ''bob'' ''x'']))) (tantivy_key ''amy'' ''INBOX'') = None"
  using tantivy_users_isolated [where u = "''amy''" and n = "''INBOX''" and T = list_tantivy and s = "fresh_index ([], [])"
      and cs = "[TW_CreateMailbox ''bob'' ''INBOX'', TW_DeleteMailbox ''bob'' ''x'']"]
  by (simp add: fresh_index_def)

theorem tantivy_uids_ascending_witness:
  "sorted_wrt (<) (handed_out (uid_given (tantivy_key ''amy'' ''INBOX'')) [TW_GetNextUid ''amy'' ''INBOX'', TW_GetNextUid ''bob'' ''x'', TW_GetNextUid ''amy'' ''INBOX'']
     (snd (run_loop (tantivy_exec list_tantivy) tantivy_stops
        (fst (tantivy_exec list_tantivy (fresh_index ([], [])) (TW_CreateMailbox ''amy'' ''INBOX'')))
        [TW_GetNextUid ''amy'' ''INBOX'', TW_GetNextUid ''bob'' ''x'', TW_GetNextUid ''amy'' ''INBOX''])))"
  by (rule tantivy_uids_ascending)
    (simp_all add: tantivy_create_mailbox_def fresh_index_def uid_counter_def new_mailbox_entry_def Let_def)

end
