(* ===== verification/Uid_Assignment.thy ===== *)
theory Uid_Assignment
  imports Indexer
begin

text \<open>
  Where the UIDs of the index come from: the listener of src/index/indexer.rs asks the registry
  of src/mailboxes/impl/memory.rs for each new message's UID. The lemmas follow the counters of
  the registry and the entries of the index together, whatever other clients of the two writer
  loops get in between, and show what deleting a mailbox does to the UIDs.
\<close>

section \<open>The counters of the registry\<close>

text \<open>The commands that leave every mailbox in place and its counter to \<open>get_next_uid\<close>.\<close>

fun uid_safe :: "registry_command \<Rightarrow> bool" where
  "uid_safe (RC_Delete u m) = False"
| "uid_safe (RC_UpdateNextUid i u) = False"
| "uid_safe _ = True"

definition uid_grows :: "registry \<Rightarrow> registry \<Rightarrow> bool" where
  "uid_grows s s' \<longleftrightarrow> (\<forall>k info. map_of (reg_mailboxes s) k = Some info \<longrightarrow>
     (\<exists>info'. map_of (reg_mailboxes s') k = Some info' \<and> mi_next_uid info \<le> mi_next_uid info'))"

definition uid_bound :: "nat \<Rightarrow> registry \<Rightarrow> bool" where
  "uid_bound n s \<longleftrightarrow> (\<forall>k info. map_of (reg_mailboxes s) k = Some info \<longrightarrow>
     0 < mi_next_uid info \<and> unat (mi_next_uid info) \<le> n)"

lemma uid_grows_refl [simp]: "uid_grows s s"
  by (simp add: uid_grows_def)

lemma uid_grows_trans: "uid_grows s t \<Longrightarrow> uid_grows t v \<Longrightarrow> uid_grows s v"
  unfolding uid_grows_def by (meson order_trans)

lemma uid_bound_mono: "uid_bound n s \<Longrightarrow> n \<le> k \<Longrightarrow> uid_bound k s"
  unfolding uid_bound_def by (meson order_trans)

lemma uid_bound_get: "uid_bound n s \<Longrightarrow> map_of (reg_mailboxes s) k = Some info \<Longrightarrow>
    0 < mi_next_uid info \<and> unat (mi_next_uid info) \<le> n"
  unfolding uid_bound_def by blast

lemma uid_bound_init [simp]: "uid_bound n registry_init"
  by (simp add: uid_bound_def registry_init_def)

text \<open>A counter below the last value steps up by one.\<close>

lemma uid_step:
  fixes x :: uid
  assumes "unat x \<le> n" and "Suc n < 2 ^ 32"
  shows "x < x + 1 \<and> 0 < x + 1 \<and> unat (x + 1) \<le> Suc n"
proof -
  have "unat (x + 1) = Suc (unat x)" using assms by (simp add: unat_word_ariths)
  then show ?thesis using assms(1) by (simp add: word_less_nat_alt)
qed

text \<open>Every operation either leaves the entries alone or writes one of them.\<close>

lemma uid_write:
  assumes "uid_bound n s" and "reg_mailboxes s' = AList.update k info' (reg_mailboxes s)"
    and "0 < mi_next_uid info'" and "unat (mi_next_uid info') \<le> Suc n"
    and "\<And>info. map_of (reg_mailboxes s) k = Some info \<Longrightarrow> mi_next_uid info \<le> mi_next_uid info'"
  shows "uid_grows s s' \<and> uid_bound (Suc n) s'"
  using assms by (auto simp: uid_grows_def uid_bound_def le_SucI)

lemma uid_same:
  "uid_bound n s \<Longrightarrow> reg_mailboxes s' = reg_mailboxes s \<Longrightarrow> uid_grows s s' \<and> uid_bound (Suc n) s'"
  by (auto simp: uid_grows_def uid_bound_def le_SucI)

lemma uid_modify:
  assumes "uid_bound n s" and "\<And>info. mi_next_uid (f info) = mi_next_uid info"
  shows "uid_grows s (fst (reg_modify i f s)) \<and> uid_bound (Suc n) (fst (reg_modify i f s))"
proof (cases "\<exists>k info. reg_id_to_key s i = Some k \<and> map_of (reg_mailboxes s) k = Some info")
  case True
  then obtain k info where k: "reg_id_to_key s i = Some k" "map_of (reg_mailboxes s) k = Some info" by blast
  then show ?thesis using uid_bound_get [OF assms(1) k(2)] assms(2)
    by (intro uid_write [OF assms(1), of _ k "f info"]) (simp_all add: reg_modify_def)
next
  case False
  then have "fst (reg_modify i f s) = s" by (auto simp: reg_modify_def split: option.splits)
  then show ?thesis using uid_same [OF assms(1), of s] by simp
qed

lemma uid_next:
  assumes "uid_bound n s" and "Suc n < 2 ^ 32"
  shows "uid_grows s (fst (reg_next_uid u m s)) \<and> uid_bound (Suc n) (fst (reg_next_uid u m s))"
proof (cases "reg_get s u m")
  case None
  then show ?thesis using uid_same [OF assms(1), of s] by (simp add: reg_next_uid_def)
next
  case (Some info)
  then have k: "map_of (reg_mailboxes s) (u, m) = Some info" by (simp add: reg_get_def)
  have "unat (mi_next_uid info) \<le> n" using uid_bound_get [OF assms(1) k] by simp
  from uid_step [OF this assms(2)] show ?thesis using Some k
    by (intro uid_write [OF assms(1), of _ "(u, m)" "info\<lparr>mi_next_uid := mi_next_uid info + 1\<rparr>"]) (simp_all add: reg_next_uid_def order_less_imp_le)
qed

lemma uid_create:
  assumes "uid_bound n s"
  shows "uid_grows s (fst (reg_create u m s)) \<and> uid_bound (Suc n) (fst (reg_create u m s))"
proof (cases "reg_get s u m")
  case None
  then show ?thesis
    by (intro uid_write [OF assms, of _ "(u, m)" "mailbox_info_new u m (reg_next_uid_validity s)"])
      (simp_all add: reg_create_def Let_def mailbox_info_new_def reg_get_def)
next
  case (Some info)
  then show ?thesis using uid_same [OF assms, of s] by (simp add: reg_create_def)
qed

lemma uid_exec:
  assumes "uid_safe c" and "uid_bound n s" and "Suc n < 2 ^ 32"
  shows "uid_grows s (fst (registry_exec s c)) \<and> uid_bound (Suc n) (fst (registry_exec s c))"
  using assms uid_create [OF assms(2)] uid_next [OF assms(2,3)] uid_modify [OF assms(2)] uid_same [OF assms(2), of s]
  by (cases c) (simp_all add: case_prod_beta reg_update_uid_validity_def reg_update_counts_def)

lemma uid_run:
  "\<forall>c\<in>set cs. uid_safe c \<Longrightarrow> uid_bound n s \<Longrightarrow> n + length cs < 2 ^ 32 \<Longrightarrow>
   uid_grows s (state (fst (run_loop registry_exec registry_stops s cs))) \<and>
   uid_bound (n + length cs) (state (fst (run_loop registry_exec registry_stops s cs)))"
proof (induction cs arbitrary: n s)
  case (Cons c cs)
  let ?s = "fst (registry_exec s c)"
  have one: "uid_grows s ?s" "uid_bound (Suc n) ?s" using uid_exec [of c n s] Cons.prems by auto
  have "uid_grows ?s (state (fst (run_loop registry_exec registry_stops ?s cs))) \<and>
      uid_bound (Suc n + length cs) (state (fst (run_loop registry_exec registry_stops ?s cs)))"
    using Cons.IH [OF _ one(2)] Cons.prems by simp
  then show ?case using one uid_grows_trans [OF one(1)] uid_bound_mono [OF one(2), of "Suc n + length cs"]
    by (simp add: run_loop_Cons_fst del: run_loop.simps(2))
qed simp

text \<open>
  What the listener may rely on: the UID that it gets is at least the counter that the mailbox
  had before and below the one that it has afterwards.
\<close>

lemma get_next_uid_grows:
  assumes "\<forall>c\<in>set pending. uid_safe c" and "uid_bound n (state mb)" and "n + Suc (length pending) < 2 ^ 32"
    and g: "get_next_uid pending u m mb = (mb', r)"
  shows "uid_grows (state mb) (state mb') \<and> uid_bound (n + Suc (length pending)) (state mb') \<and>
    (\<forall>x. r = Ok x \<longrightarrow> (0 < x \<and>
      (\<exists>info'. map_of (reg_mailboxes (state mb')) (u, m) = Some info' \<and> x < mi_next_uid info') \<and>
      (\<forall>info. map_of (reg_mailboxes (state mb)) (u, m) = Some info \<longrightarrow> mi_next_uid info \<le> x)))"
proof -
  let ?a = "fst (run_loop registry_exec registry_stops (state mb) pending)"
  have run: "uid_grows (state mb) (state ?a)" "uid_bound (n + length pending) (state ?a)"
    using uid_run [OF assms(1,2)] assms(3) by simp_all
  consider (dead) "\<not> alive mb" | (dropped) "alive mb" "\<not> alive ?a" | (served) "alive mb" "alive ?a" by blast
  then show ?thesis
  proof cases
    case dead
    then have "mb' = mb" "\<exists>e. r = Err e" using g by (auto simp: get_next_uid_def registry_call_def client_op_dead)
    then show ?thesis using uid_bound_mono [OF assms(2)] by auto
  next
    case dropped
    then have "mb' = ?a" "\<exists>e. r = Err e" using g by (auto simp: get_next_uid_def registry_call_def client_op_dropped)
    then show ?thesis using run uid_bound_mono [OF run(2)] by auto
  next
    case served
    let ?q = "reg_next_uid u m (state ?a)"
    have mb': "state mb' = fst ?q" "r = snd ?q" using g served
      by (auto simp: get_next_uid_def registry_call_def client_op_def client_call_def case_prod_beta)
    have q: "uid_grows (state ?a) (fst ?q)" "uid_bound (n + Suc (length pending)) (fst ?q)"
      using uid_next [OF run(2)] assms(3) by simp_all
    have "0 < x \<and> (\<exists>info'. map_of (reg_mailboxes (fst ?q)) (u, m) = Some info' \<and> x < mi_next_uid info') \<and>
        (\<forall>info. map_of (reg_mailboxes (state mb)) (u, m) = Some info \<longrightarrow> mi_next_uid info \<le> x)" if x: "snd ?q = Ok x" for x
    proof -
      obtain info where i: "reg_get (state ?a) u m = Some info" "x = mi_next_uid info"
        using x by (auto simp: reg_next_uid_def split: option.splits)
      then have k: "map_of (reg_mailboxes (state ?a)) (u, m) = Some info" by (simp add: reg_get_def)
      have b: "0 < x" "unat x \<le> n + length pending" using uid_bound_get [OF run(2) k] i(2) by simp_all
      have "x < x + 1" using uid_step [OF b(2)] assms(3) by simp
      moreover have "mi_next_uid info0 \<le> x" if "map_of (reg_mailboxes (state mb)) (u, m) = Some info0" for info0
        using run(1) that k i(2) unfolding uid_grows_def by (metis option.inject)
      ultimately show ?thesis using i b(1) by (simp add: reg_next_uid_def)
    qed
    then show ?thesis using mb' q uid_grows_trans [OF run(1) q(1)] by simp
  qed
qed

section \<open>The entries of the index\<close>

definition uid_key :: "message_entry \<Rightarrow> string \<times> string \<times> uid" where
  "uid_key e = (me_username e, im_mailbox (me_metadata e), im_uid (me_metadata e))"

text \<open>Nothing is left in the second backend that the first one did not have, with the same UID.\<close>

definition uids_kept :: "backend \<Rightarrow> backend \<Rightarrow> bool" where
  "uids_kept b b' \<longleftrightarrow> al_wf b' \<and> (\<forall>i e'. map_of b' i = Some e' \<longrightarrow> (\<exists>e. map_of b i = Some e \<and> uid_key e = uid_key e'))"

fun index_safe :: "index_command \<Rightarrow> bool" where
  "index_safe (IX_AddMessage u m x) = False"
| "index_safe _ = True"

lemma uids_kept_refl [simp]: "al_wf b \<Longrightarrow> uids_kept b b"
  by (simp add: uids_kept_def)

lemma uids_kept_trans: "uids_kept b c \<Longrightarrow> uids_kept c d \<Longrightarrow> uids_kept b d"
  unfolding uids_kept_def by metis

lemma uids_kept_exec: "al_wf b \<Longrightarrow> index_safe c \<Longrightarrow> uids_kept b (fst (index_exec b c))"
  by (cases c) (auto simp: uids_kept_def uid_key_def ib_update_flags_def ib_delete_message_def ib_remove_mailbox_def map_of_retain
    split: option.splits if_splits)

lemma uids_kept_run:
  "al_wf b \<Longrightarrow> \<forall>c\<in>set cs. index_safe c \<Longrightarrow> uids_kept b (state (fst (run_loop index_exec index_stops b cs)))"
proof (induction cs arbitrary: b)
  case (Cons c cs)
  have one: "uids_kept b (fst (index_exec b c))" using uids_kept_exec Cons.prems by simp
  then have "al_wf (fst (index_exec b c))" by (simp add: uids_kept_def)
  then show ?case using Cons.IH uids_kept_trans [OF one] one Cons.prems(2)
    by (simp add: run_loop_Cons_fst del: run_loop.simps(2))
qed simp

lemma uids_kept_call:
  assumes "al_wf (state a)" and "\<forall>c\<in>set pending. index_safe c" and "index_safe c"
  shows "uids_kept (state a) (state (fst (client_call index_exec index_stops a pending c)))"
  using client_call_state [of index_exec index_stops a pending c] uids_kept_run [OF assms(1), of "pending @ [c]"] assms
  by auto

text \<open>A call that adds a message: what was there, perhaps less of it, and perhaps the new entry.\<close>

lemma add_call:
  assumes "al_wf (state a)" and "\<forall>c\<in>set pending. index_safe c"
  shows "\<exists>b. uids_kept (state a) b \<and>
    (state (fst (client_call index_exec index_stops a pending (IX_AddMessage u m x))) = b \<or>
     state (fst (client_call index_exec index_stops a pending (IX_AddMessage u m x))) = fst (ib_add_message u m x b))"
proof -
  let ?a = "fst (run_loop index_exec index_stops (state a) pending)"
  have run: "uids_kept (state a) (state ?a)" by (rule uids_kept_run [OF assms])
  show ?thesis
  proof (cases "alive a")
    case True
    then show ?thesis using run by (intro exI [of _ "state ?a"]) (auto simp: client_call_def case_prod_beta)
  next
    case False
    then show ?thesis using assms(1) by (intro exI [of _ "state a"]) simp
  qed
qed

section \<open>Index and registry together\<close>

text \<open>
  Every message of the index lies in a registered mailbox and has a UID between one and the
  mailbox's counter, which it does not share with another message of that mailbox.
\<close>

definition uids_inv :: "nat \<Rightarrow> listener \<Rightarrow> bool" where
  "uids_inv n ls \<longleftrightarrow> al_wf (state (ls_index ls)) \<and>
     (\<exists>mb. ls_mailboxes ls = Some mb \<and> uid_bound n (state mb) \<and>
       (\<forall>i e. map_of (state (ls_index ls)) i = Some e \<longrightarrow> 0 < im_uid (me_metadata e) \<and>
         (\<exists>info. map_of (reg_mailboxes (state mb)) (me_username e, im_mailbox (me_metadata e)) = Some info \<and>
           im_uid (me_metadata e) < mi_next_uid info))) \<and>
     (\<forall>i j e f. map_of (state (ls_index ls)) i = Some e \<and> map_of (state (ls_index ls)) j = Some f \<and> uid_key e = uid_key f \<longrightarrow> i = j)"

lemma uids_invD:
  assumes "uids_inv n ls" and "ls_mailboxes ls = Some mb"
  shows "al_wf (state (ls_index ls))" "uid_bound n (state mb)"
    and "map_of (state (ls_index ls)) i = Some e \<Longrightarrow> 0 < im_uid (me_metadata e)"
    and "map_of (state (ls_index ls)) i = Some e \<Longrightarrow>
      \<exists>info. map_of (reg_mailboxes (state mb)) (me_username e, im_mailbox (me_metadata e)) = Some info \<and> im_uid (me_metadata e) < mi_next_uid info"
    and "map_of (state (ls_index ls)) i = Some e \<Longrightarrow> map_of (state (ls_index ls)) j = Some f \<Longrightarrow> uid_key e = uid_key f \<Longrightarrow> i = j"
proof -
  show "al_wf (state (ls_index ls))" "uid_bound n (state mb)" using assms by (auto simp: uids_inv_def)
  show "map_of (state (ls_index ls)) i = Some e \<Longrightarrow> 0 < im_uid (me_metadata e)"
    using assms unfolding uids_inv_def by blast
  show "map_of (state (ls_index ls)) i = Some e \<Longrightarrow>
      \<exists>info. map_of (reg_mailboxes (state mb)) (me_username e, im_mailbox (me_metadata e)) = Some info \<and> im_uid (me_metadata e) < mi_next_uid info"
    using assms unfolding uids_inv_def by (metis option.inject)
  show "map_of (state (ls_index ls)) i = Some e \<Longrightarrow> map_of (state (ls_index ls)) j = Some f \<Longrightarrow> uid_key e = uid_key f \<Longrightarrow> i = j"
    using assms(1) unfolding uids_inv_def by blast
qed

lemma uids_inv_new: "uid_bound n (state mb) \<Longrightarrow> uids_inv n (listener_new (Some mb))"
  by (simp add: uids_inv_def listener_new_def index_new_def backend_new_def)

text \<open>Fewer entries and larger counters.\<close>

lemma uids_inv_shrink:
  assumes "uids_inv n ls" and "ls_mailboxes ls = Some mb" and "ls_mailboxes ls' = Some mb'"
    and "uid_grows (state mb) (state mb')" and "uid_bound k (state mb')"
    and kept: "uids_kept (state (ls_index ls)) (state (ls_index ls'))"
  shows "uids_inv k ls'"
  unfolding uids_inv_def
proof (intro conjI allI impI exI [of _ mb'])
  note inv = uids_invD [OF assms(1,2)]
  have old: "\<exists>e. map_of (state (ls_index ls)) i = Some e \<and> uid_key e = uid_key e'" if "map_of (state (ls_index ls')) i = Some e'" for i e'
    using kept that by (simp add: uids_kept_def)
  show "al_wf (state (ls_index ls'))" using kept by (simp add: uids_kept_def)
  show "ls_mailboxes ls' = Some mb'" "uid_bound k (state mb')" by (rule assms(3), rule assms(5))
  show "0 < im_uid (me_metadata e')" if m: "map_of (state (ls_index ls')) i = Some e'" for i e'
  proof -
    obtain e where e: "map_of (state (ls_index ls)) i = Some e" "uid_key e = uid_key e'" using old [OF m] by blast
    then show ?thesis using inv(3) [OF e(1)] by (simp add: uid_key_def)
  qed
  show "\<exists>info. map_of (reg_mailboxes (state mb')) (me_username e', im_mailbox (me_metadata e')) = Some info \<and>
      im_uid (me_metadata e') < mi_next_uid info" if m: "map_of (state (ls_index ls')) i = Some e'" for i e'
  proof -
    obtain e where e: "map_of (state (ls_index ls)) i = Some e" "uid_key e = uid_key e'" using old [OF m] by blast
    obtain info where i: "map_of (reg_mailboxes (state mb)) (me_username e, im_mailbox (me_metadata e)) = Some info"
      "im_uid (me_metadata e) < mi_next_uid info" using inv(4) [OF e(1)] by blast
    obtain info' where "map_of (reg_mailboxes (state mb')) (me_username e, im_mailbox (me_metadata e)) = Some info'"
      "mi_next_uid info \<le> mi_next_uid info'" using assms(4) i(1) unfolding uid_grows_def by blast
    then show ?thesis using i(2) e(2) by (auto simp: uid_key_def)
  qed
  show "i = j" if "map_of (state (ls_index ls')) i = Some e' \<and> map_of (state (ls_index ls')) j = Some f' \<and> uid_key e' = uid_key f'" for i j e' f'
    using that old [of i e'] old [of j f'] inv(5) [of i _ j] by metis
qed

text \<open>A new entry with a UID at least the counter before and below the counter afterwards.\<close>

lemma uids_inv_add:
  assumes "uids_inv n ls" and "ls_mailboxes ls = Some mb" and "ls_mailboxes ls' = Some mb'"
    and "uid_grows (state mb) (state mb')" and "uid_bound k (state mb')"
    and kept: "uids_kept (state (ls_index ls)) b" and "state (ls_index ls') = fst (ib_add_message u m x b)"
    and x: "m = im_mailbox x" "0 < im_uid x"
    and new: "map_of (reg_mailboxes (state mb')) (u, m) = Some info'" "im_uid x < mi_next_uid info'"
    and old: "\<And>info. map_of (reg_mailboxes (state mb)) (u, m) = Some info \<Longrightarrow> mi_next_uid info \<le> im_uid x"
  shows "uids_inv k ls'"
proof -
  let ?l = "ls\<lparr>ls_index := \<lparr>alive = True, state = b\<rparr>\<rparr>" and ?m = "ls\<lparr>ls_index := \<lparr>alive = True, state = b\<rparr>, ls_mailboxes := Some mb'\<rparr>"
  have "uids_inv k ?m" by (rule uids_inv_shrink [OF assms(1,2) _ assms(4,5)]) (simp_all add: kept)
  note inv = uids_invD [OF this, of mb', simplified]
  have "uids_inv n ?l" by (rule uids_inv_shrink [OF assms(1,2), where mb' = mb]) (simp_all add: kept assms(2) uids_invD(2) [OF assms(1,2)])
  note low = uids_invD(4) [OF this, of mb, simplified, OF assms(2)]
  let ?e = "\<lparr>me_metadata = x, me_path = make_message_path u m (im_id x), me_username = u\<rparr>"
  have b': "map_of (state (ls_index ls')) = (map_of b)(im_id x \<mapsto> ?e)" "al_wf (state (ls_index ls'))"
    using inv(1) assms(7) by (simp_all add: ib_add_message_def Let_def)
  have apart: "uid_key e \<noteq> uid_key ?e" if e: "map_of b i = Some e" for i e
  proof
    assume "uid_key e = uid_key ?e"
    then have k: "me_username e = u" "im_mailbox (me_metadata e) = m" "im_uid (me_metadata e) = im_uid x"
      by (simp_all add: uid_key_def x(1))
    obtain info where "map_of (reg_mailboxes (state mb)) (u, m) = Some info" "im_uid x < mi_next_uid info"
      using low [OF e] unfolding k by blast
    then show False using old by (metis leD)
  qed
  show ?thesis unfolding uids_inv_def
  proof (intro conjI allI impI exI [of _ mb'])
    show "al_wf (state (ls_index ls'))" by (rule b'(2))
    show "ls_mailboxes ls' = Some mb'" "uid_bound k (state mb')" by (rule assms(3), rule assms(5))
    show "0 < im_uid (me_metadata e)" if "map_of (state (ls_index ls')) i = Some e" for i e
      using that inv(3) [of i e] x(2) by (auto simp: b'(1) split: if_splits)
    show "\<exists>info. map_of (reg_mailboxes (state mb')) (me_username e, im_mailbox (me_metadata e)) = Some info \<and>
        im_uid (me_metadata e) < mi_next_uid info" if "map_of (state (ls_index ls')) i = Some e" for i e
      using that inv(4) [of i e] new x(1) by (auto simp: b'(1) split: if_splits)
    show "i = j" if "map_of (state (ls_index ls')) i = Some e \<and> map_of (state (ls_index ls')) j = Some f \<and> uid_key e = uid_key f" for i j e f
      using that inv(5) [of i e j f] apart [of i e] apart [of j f] by (auto simp: b'(1) split: if_splits)
  qed
qed

text \<open>
  A delivery among whose pending commands nobody adds messages to the index, deletes a mailbox
  or sets a counter, and the number of commands that it brings to the registry.
\<close>

definition delivery_safe :: "bus_delivery \<Rightarrow> bool" where
  "delivery_safe d \<longleftrightarrow> list_all index_safe (bd_index_pending d) \<and> list_all uid_safe (bd_uid_pending d)"

definition delivery_cost :: "bus_delivery \<Rightarrow> nat" where
  "delivery_cost d = Suc (length (bd_uid_pending d))"

lemma uids_inv_call:
  assumes "uids_inv n ls" and "list_all index_safe (bd_index_pending d)" and "index_safe c" and "n \<le> k"
    and "state (ls_index ls') = state (fst (client_call index_exec index_stops (ls_index ls) (bd_index_pending d) c))"
    and "ls_mailboxes ls' = ls_mailboxes ls"
  shows "uids_inv k ls'"
proof -
  obtain mb where mb: "ls_mailboxes ls = Some mb" using assms(1) by (auto simp: uids_inv_def)
  note inv = uids_invD [OF assms(1) mb]
  show ?thesis using uids_kept_call [OF inv(1), of "bd_index_pending d" c] assms(2,3,5,6) mb
    by (intro uids_inv_shrink [OF assms(1) mb, of _ mb] uid_bound_mono [OF inv(2) assms(4)])
      (simp_all add: list_all_iff)
qed

lemma uids_inv_mono: "uids_inv n ls \<Longrightarrow> n \<le> k \<Longrightarrow> uids_inv k ls"
  unfolding uids_inv_def using uid_bound_mono by blast

lemma uids_inv_created:
  assumes inv: "uids_inv n ls" and safe: "delivery_safe d" and room: "n + delivery_cost d < 2 ^ 32"
  shows "uids_inv (n + delivery_cost d) (on_message_created nm d ls)"
proof -
  obtain mb where mb: "ls_mailboxes ls = Some mb" using inv by (auto simp: uids_inv_def)
  note invs = uids_invD [OF inv mb]
  obtain mb' r where g: "get_next_uid (bd_uid_pending d) (nm_username nm) (nm_mailbox nm) mb = (mb', r)" by fastforce
  have grow: "uid_grows (state mb) (state mb')" "uid_bound (n + delivery_cost d) (state mb')"
    and given: "\<And>x. r = Ok x \<Longrightarrow> 0 < x \<and>
      (\<exists>info'. map_of (reg_mailboxes (state mb')) (nm_username nm, nm_mailbox nm) = Some info' \<and> x < mi_next_uid info') \<and>
      (\<forall>info. map_of (reg_mailboxes (state mb)) (nm_username nm, nm_mailbox nm) = Some info \<longrightarrow> mi_next_uid info \<le> x)"
    using get_next_uid_grows [OF _ invs(2) _ g] safe room by (simp_all add: delivery_safe_def delivery_cost_def list_all_iff)
  show ?thesis
  proof (cases r)
    case (Inl e)
    then show ?thesis using g mb invs(1)
      by (intro uids_inv_shrink [OF inv mb _ grow]) (simp_all add: on_message_created_def)
  next
    case (Inr x)
    let ?x = "indexed_of (bd_new_id d) x nm" and ?ls = "on_message_created nm d ls"
    let ?call = "client_call index_exec index_stops (ls_index ls) (bd_index_pending d) (IX_AddMessage (nm_username nm) (nm_mailbox nm) ?x)"
    have ls': "ls_mailboxes ?ls = Some mb'" "ls_index ?ls = fst ?call"
      using g mb Inr by (simp_all add: on_message_created_def case_prod_beta split: outcome.split index_reply.split sum.split)
    obtain b where b: "uids_kept (state (ls_index ls)) b"
      "state (fst ?call) = b \<or> state (fst ?call) = fst (ib_add_message (nm_username nm) (nm_mailbox nm) ?x b)"
      using add_call [OF invs(1)] safe unfolding delivery_safe_def list_all_iff by blast
    obtain info' where new: "map_of (reg_mailboxes (state mb')) (nm_username nm, nm_mailbox nm) = Some info'" "x < mi_next_uid info'"
      using given [OF Inr] by blast
    from b(2) show ?thesis
    proof
      assume "state (fst ?call) = b"
      then show ?thesis by (intro uids_inv_shrink [OF inv mb ls'(1) grow]) (simp add: ls'(2) b(1))
    next
      assume added: "state (fst ?call) = fst (ib_add_message (nm_username nm) (nm_mailbox nm) ?x b)"
      show ?thesis using new given [OF Inr]
        by (intro uids_inv_add [OF inv mb ls'(1) grow b(1), of "nm_username nm" "nm_mailbox nm" ?x info']) (simp_all add: ls'(2) added)
    qed
  qed
qed

lemma uids_inv_event:
  assumes "uids_inv n ls" and "delivery_safe d" and "n + delivery_cost d < 2 ^ 32"
  shows "uids_inv (n + delivery_cost d) (handle_event d ev ls)"
proof -
  have le: "n \<le> n + delivery_cost d" by simp
  have quiet: "list_all index_safe (bd_index_pending d)" using assms(2) by (simp add: delivery_safe_def)
  note call = uids_inv_call [OF assms(1) quiet _ le]
  have same: "uids_inv (n + delivery_cost d) ls" by (rule uids_inv_mono [OF assms(1) le])
  show ?thesis
  proof (cases ev)
    case (Ev_MessageCreated nm)
    then show ?thesis using uids_inv_created [OF assms] by simp
  next
    case (Ev_MessageModified u m i fs)
    then show ?thesis using same
      by (cases "ls_mapping ls (unique_id_key u m i)")
        (simp_all add: on_message_modified_def call [of "IX_UpdateFlags (the (ls_mapping ls (unique_id_key u m i))) fs"])
  next
    case (Ev_MessageDeleted u m i)
    then show ?thesis using same
      by (cases "ls_mapping ls (unique_id_key u m i)")
        (simp_all add: on_message_deleted_def call [of "IX_DeleteMessage (the (ls_mapping ls (unique_id_key u m i)))"])
  next
    case (Ev_MailboxDeleted u m)
    then show ?thesis by (simp add: on_mailbox_deleted_def call [of "IX_RemoveMessagesForMailbox u m"])
  qed (simp_all add: same)
qed

lemma uids_inv_listener:
  "uids_inv n ls \<Longrightarrow> list_all delivery_safe ds \<Longrightarrow> n + sum_list (map delivery_cost ds) < 2 ^ 32 \<Longrightarrow>
   uids_inv (n + sum_list (map delivery_cost ds)) (event_listener ds ls)"
proof (induction ds arbitrary: n ls)
  case (Cons d ds)
  have "uids_inv (n + delivery_cost d) (handle_event d (bd_event d) ls)"
    using uids_inv_event [OF Cons.prems(1)] Cons.prems(2,3) by simp
  from Cons.IH [OF this] Cons.prems(2,3) show ?case by (simp add: add.assoc)
qed simp

lemma find_path_unique:
  "(k, e) \<in> set b \<Longrightarrow> (\<And>k' f. (k', f) \<in> set b \<Longrightarrow> uid_key f = uid_key e \<Longrightarrow> f = e) \<Longrightarrow>
   find_path_by_uid (me_username e) (im_mailbox (me_metadata e)) (im_uid (me_metadata e)) (map snd b) = Some (me_path e)"
proof (induction b)
  case (Cons p b)
  show ?case
  proof (cases "uid_key (snd p) = uid_key e")
    case True
    have "snd p = e" by (rule Cons.prems(2) [of "fst p"]) (simp_all add: True)
    then show ?thesis by (simp add: entry_in_def)
  next
    case False
    then have "find_path_by_uid (me_username e) (im_mailbox (me_metadata e)) (im_uid (me_metadata e)) (map snd b) = Some (me_path e)"
      using Cons.prems by (intro Cons.IH) auto
    then show ?thesis using False by (auto simp: entry_in_def uid_key_def)
  qed
qed simp

section \<open>Properties\<close>


lemma next_uid_behind:
  assumes "reg_get s u m = Some info" and "m' \<noteq> m"
  shows "\<exists>r. get_next_uid [RC_GetNextUid u m, RC_Create u m'] u m \<lparr>alive = True, state = s\<rparr> = (r, Ok (mi_next_uid info + 1))"
  using assms by (auto simp: get_next_uid_def registry_call_def client_op_def client_call_def reg_create_def
    reg_next_uid_def reg_get_def Let_def case_prod_beta)

definition example_arrivals :: "bus_delivery list" where
  "example_arrivals = [example_delivery ''1'' (Ev_MessageCreated (example_new_message ''INBOX'' ''x'')),
     (example_delivery ''2'' (Ev_MessageCreated (example_new_message ''INBOX'' ''y'')))
       \<lparr>bd_uid_pending := [RC_GetNextUid ''amy'' ''INBOX'', RC_Create ''amy'' ''Sent'']\<rparr>]"


text \<open>
  C33: deleting a mailbox and creating it again breaks this, because the messages stay in the
  index (nothing publishes the event of the deletion): the first new message gets the UID of
  the first old one, and looking that UID up leads to either message, whichever of the two the
  hash map happens to give first.
\<close>

theorem recreated_mailbox_repeats_uid:
  assumes "alive mb" and "reg_get (state mb) u m = Some info" and "mi_next_uid info = 1"
    and "bd_event d = Ev_MessageCreated nm" and "nm_username nm = u" and "nm_mailbox nm = m" and "quiet d"
    and "bd_event d' = Ev_MessageCreated nm'" and "nm_username nm' = u" and "nm_mailbox nm' = m"
    and "bd_index_pending d' = []" and "bd_uid_pending d' = [RC_Delete u m, RC_Create u m]" and "bd_new_id d' \<noteq> bd_new_id d"
    and b: "b = state (ls_index (event_listener [d, d'] (listener_new (Some mb))))"
  shows "map_option uid_key (map_of b (bd_new_id d)) = Some (u, m, 1) \<and> map_option uid_key (map_of b (bd_new_id d')) = Some (u, m, 1) \<and>
    (\<exists>b'. al_wf b' \<and> map_of b' = map_of b \<and> ib_get_path_by_uid u m 1 b' = Ok (Some (make_message_path u m (bd_new_id d)))) \<and>
    (\<exists>b'. al_wf b' \<and> map_of b' = map_of b \<and> ib_get_path_by_uid u m 1 b' = Ok (Some (make_message_path u m (bd_new_id d'))))"
proof -
  let ?s = "fst (reg_next_uid u m (state mb))"
  let ?x = "\<lparr>me_metadata = indexed_of (bd_new_id d) 1 nm, me_path = make_message_path u m (bd_new_id d), me_username = u\<rparr>"
    and ?y = "\<lparr>me_metadata = indexed_of (bd_new_id d') 1 nm', me_path = make_message_path u m (bd_new_id d'), me_username = u\<rparr>"
  have first: "get_next_uid [] u m mb = (\<lparr>alive = True, state = ?s\<rparr>, Ok 1)"
    using assms(1-3) by (simp add: get_next_uid_def registry_call_def client_op_direct reg_next_uid_def)
  have known: "reg_get ?s u m \<noteq> None" using assms(2) by (simp add: reg_next_uid_def reg_get_def)
  obtain r where second: "get_next_uid [RC_Delete u m, RC_Create u m] u m \<lparr>alive = True, state = ?s\<rparr> = (r, Ok 1)"
    using known by (auto simp: get_next_uid_def registry_call_def client_op_def client_call_def reg_delete_def reg_create_def
      reg_next_uid_def reg_get_def mailbox_info_new_def Let_def case_prod_beta)
  have all: "b = [(bd_new_id d, ?x), (bd_new_id d', ?y)]"
    using first second assms(4-13) unfolding b
    by (simp add: listener_new_def on_message_created_def index_new_def quiet_def client_call_direct case_prod_beta ib_add_message_def
      Let_def backend_new_def)
  have keys: "uid_key ?x = (u, m, 1)" "uid_key ?y = (u, m, 1)" using assms(6,10) by (simp_all add: uid_key_def)
  have "ib_get_path_by_uid u m 1 b = Ok (Some (make_message_path u m (bd_new_id d)))"
    "ib_get_path_by_uid u m 1 [(bd_new_id d', ?y), (bd_new_id d, ?x)] = Ok (Some (make_message_path u m (bd_new_id d')))"
    using assms(6,10) by (simp_all add: all ib_get_path_by_uid_def entry_in_def)
  moreover have "al_wf b" "al_wf [(bd_new_id d', ?y), (bd_new_id d, ?x)]" "map_of [(bd_new_id d', ?y), (bd_new_id d, ?x)] = map_of b"
    using assms(13) by (auto simp: all al_wf_def fun_eq_iff)
  ultimately show ?thesis using keys assms(13) by (intro conjI exI) (auto simp: all)
qed

theorem recreated_mailbox_repeats_uid_witness:
  "let b = state (ls_index (event_listener
     [example_delivery ''1'' (Ev_MessageCreated (example_new_message ''INBOX'' ''x'')),
      (example_delivery ''2'' (Ev_MessageCreated (example_new_message ''INBOX'' ''y'')))
        \<lparr>bd_uid_pending := [RC_Delete ''amy'' ''INBOX'', RC_Create ''amy'' ''INBOX'']\<rparr>] example_listener)) in
   \<exists>b'. al_wf b' \<and> map_of b' = map_of b \<and> ib_get_path_by_uid ''amy'' ''INBOX'' 1 b' = Ok (Some ''amy/INBOX/1.eml'')"
proof -
  let ?mb = "fst (create_mailbox [] ''amy'' ''INBOX'' mailboxes_new)"
  let ?x = "example_new_message ''INBOX'' ''x''" and ?y = "example_new_message ''INBOX'' ''y''"
  let ?d = "example_delivery ''1'' (Ev_MessageCreated ?x)"
  let ?d' = "(example_delivery ''2'' (Ev_MessageCreated ?y))\<lparr>bd_uid_pending := [RC_Delete ''amy'' ''INBOX'', RC_Create ''amy'' ''INBOX'']\<rparr>"
  have mb: "alive ?mb" "reg_get (state ?mb) ''amy'' ''INBOX'' = Some (mailbox_info_new ''amy'' ''INBOX'' 1)"
    "mi_next_uid (mailbox_info_new ''amy'' ''INBOX'' 1) = 1"
    by (simp_all add: create_mailbox_def registry_call_def client_op_direct mailboxes_new_def case_prod_beta
      reg_create_def registry_init_def reg_get_def Let_def mailbox_info_new_def)
  have d: "bd_event ?d = Ev_MessageCreated ?x" "nm_username ?x = ''amy''" "nm_mailbox ?x = ''INBOX''" "quiet ?d"
    and d': "bd_event ?d' = Ev_MessageCreated ?y" "nm_username ?y = ''amy''" "nm_mailbox ?y = ''INBOX''"
      "bd_index_pending ?d' = []" "bd_uid_pending ?d' = [RC_Delete ''amy'' ''INBOX'', RC_Create ''amy'' ''INBOX'']"
      "bd_new_id ?d' \<noteq> bd_new_id ?d"
    and path: "make_message_path ''amy'' ''INBOX'' (bd_new_id ?d) = ''amy/INBOX/1.eml''"
    by (simp_all add: example_delivery_def example_new_message_def quiet_def make_message_path_def)
  from recreated_mailbox_repeats_uid [OF mb d d' refl] show ?thesis
    unfolding path example_listener_def Let_def by (elim conjE)
qed

end
