(* ===== verification/Command_Lines.thy ===== *)
theory Command_Lines
  imports Session
begin

text \<open>
  From the line to the handler: src/protocol.rs splits a line at white space before it looks at
  quotes, and src/session.rs joins the arguments of LIST again for its handler. The lemmas say
  what becomes of a quoted mailbox name with a space, of an empty LIST pattern, and of every
  command that the server does not implement.
\<close>

lemma server_handlers_get:
  "server_handlers ''DELETE'' = Some delete_handler" "server_handlers ''LIST'' = Some list_handler"
  "to_uppercase ''DELETE'' = ''DELETE''" "to_uppercase ''LIST'' = ''LIST''"
proof -
  have up: "to_uppercase ''NOOP'' = ''NOOP''" "to_uppercase ''SELECT'' = ''SELECT''" "to_uppercase ''CREATE'' = ''CREATE''"
    "to_uppercase ''LOGIN'' = ''LOGIN''" "to_uppercase ''LOGOUT'' = ''LOGOUT''" "to_uppercase ''CAPABILITY'' = ''CAPABILITY''" by code_simp+
  show d: "to_uppercase ''DELETE'' = ''DELETE''" "to_uppercase ''LIST'' = ''LIST''" by code_simp+
  show "server_handlers ''DELETE'' = Some delete_handler" "server_handlers ''LIST'' = Some list_handler"
    by (simp_all add: server_handlers_def register_all_lookup ch_new_def builtin_handlers_def handler_defs up d)
qed

lemma respond_finish_mailboxes [simp]: "w_mailboxes (fst (respond r (finish s) w)) = w_mailboxes w"
  using respond_cases [of r "finish s" w] by (auto simp: finish_def)

lemma trim_matches_open:
  assumes "c \<notin> set x"
  shows "trim_matches c (c # x) = x"
proof -
  have "dropWhile (\<lambda>y. y = c) t = t" if "set t \<subseteq> set x" for t using that assms by (cases t) auto
  then show ?thesis by (simp add: trim_matches_def)
qed

text \<open>What DELETE does to the mailboxes, whatever it answers.\<close>

lemma delete_handle_mailboxes:
  assumes "word_text x" and "\<not> eq_ignore_ascii_case x ''INBOX''" and "state_user st = Some u"
  shows "w_mailboxes (fst (delete_handle tag x st w)) = fst (delete_mailbox [] u x (w_mailboxes w))"
proof -
  have "x \<noteq> []" "trim x = x" using assms(1) word_text_trim by (auto simp: word_text_def)
  then show ?thesis using assms(2,3) by (simp add: delete_handle_def Let_def split: prod.split sum.split)
qed

lemma ch_handle_delete:
  assumes "st \<noteq> SS_NotAuthenticated"
  shows "w_mailboxes (fst (ch_handle server_handlers ''DELETE'' tag args st w)) = w_mailboxes (fst (delete_handle tag args st w))"
  using assms by (simp add: ch_handle_def ch_get_def server_handlers_get delete_handler_def split: prod.split sum.split)

lemma handle_line_command:
  assumes "splitn2 CHR '' '' line = [tag, rest]" and "parse_command tag rest = Ok cmd" and "cmd \<noteq> Cmd_Starttls"
    and "tag \<notin> th_tags (lv_tags lv)" and "card (th_tags (lv_tags lv)) < th_max (lv_tags lv)"
  shows "fst (handle_line ses tls handshake line lv w) = fst (handle_command_static tag cmd (ses_handlers ses) (lv_state lv) w)"
  using assms by (simp add: handle_line_def Let_def tag_register_def split: prod.split option.split session_state.split)

text \<open>
  C34: a quoted mailbox name with a space is cut at the space: a client that deletes the mailbox
  "x y" deletes the mailbox x instead.
\<close>

theorem delete_quoted_name_cut:
  assumes "ses_handlers ses = server_handlers" and "lv_state lv = SS_Authenticated u"
    and "word_text tag" and "tag \<notin> th_tags (lv_tags lv)" and "card (th_tags (lv_tags lv)) < th_max (lv_tags lv)"
    and "word_text x" and "CHR 0x22 \<notin> set x" and "word_text y" and "\<not> eq_ignore_ascii_case x ''INBOX''"
  shows "w_mailboxes (fst (handle_line ses tls handshake
      (tag @ '' DELETE '' @ [CHR 0x22] @ x @ '' '' @ y @ [CHR 0x22]) lv w)) = fst (delete_mailbox [] u x (w_mailboxes w))"
proof -
  let ?line = "''DELETE '' @ [CHR 0x22] @ x @ '' '' @ y @ [CHR 0x22]"
  have "CHR '' '' \<notin> set tag" using assms(3) by (auto simp: word_text_def is_whitespace_def)
  then have parts: "splitn2 CHR '' '' (tag @ '' DELETE '' @ [CHR 0x22] @ x @ '' '' @ y @ [CHR 0x22]) = [tag, ?line]"
    using splitn2_found [of "CHR '' ''" tag ?line] by simp
  have words: "\<forall>v\<in>set [''DELETE'', CHR 0x22 # x, y @ [CHR 0x22]]. word_text v"
    using assms(6,8) by (auto simp: word_text_def is_whitespace_def)
  have "split_whitespace ?line = [''DELETE'', CHR 0x22 # x, y @ [CHR 0x22]]"
    using split_whitespace_join [OF words] by simp
  then have parsed: "parse_command tag ?line = Ok (Cmd_Delete x)"
    using assms(7) by (simp add: parse_command_def Let_def server_handlers_get unquote_def trim_matches_open)
  have other: "Cmd_Delete x \<noteq> Cmd_Starttls" by simp
  show ?thesis unfolding handle_line_command [OF parts parsed other assms(4,5)]
    using assms(1,2) delete_handle_mailboxes [OF assms(6,9), of "SS_Authenticated u"]
    by (simp add: handle_command_static_def ch_handle_delete)
qed

theorem delete_quoted_name_cut_witness:
  "w_mailboxes (fst (handle_line example_session False (Inr [])
      (''A1'' @ '' DELETE '' @ [CHR 0x22] @ ''old'' @ '' '' @ ''mail'' @ [CHR 0x22])
      \<lparr>lv_state = SS_Authenticated ''amy'', lv_tags = tag_history_default\<rparr> (example_world []))) =
   fst (delete_mailbox [] ''amy'' ''old'' (w_mailboxes (example_world [])))"
proof (rule delete_quoted_name_cut)
  show "word_text ''A1''" "word_text ''old''" "word_text ''mail''" by (simp_all add: word_text_def is_whitespace_def)
  show "\<not> eq_ignore_ascii_case ''old'' ''INBOX''" by code_simp
qed (simp_all add: tag_history_default_def tag_history_new_def default_max_tag_history_def)

lemma list_handle_padded:
  assumes "word_text r"
  shows "list_handle tag (r @ '' '') st w = list_handle tag ('' '' @ r) st w"
proof -
  have r: "\<forall>c\<in>set r. \<not> is_whitespace c" "r \<noteq> []" using assms by (auto simp: word_text_def)
  have "split_whitespace (r @ '' '') = [r]" "split_whitespace ('' '' @ r) = [r]"
    using split_words_prefix [OF r(1), of "[]" "'' ''"] split_words_prefix [OF r(1), of "[]" "[]"] r(2)
    by (simp_all add: split_whitespace_def is_whitespace_def)
  then show ?thesis by (simp add: list_handle_def list_parse_args_def)
qed

text \<open>
  An empty LIST pattern is lost: with a reference, the reference becomes the pattern, and
  without one the command, with which a client asks for the hierarchy separator, is refused.
\<close>

theorem list_empty_pattern:
  assumes "word_text r" and "st \<noteq> SS_NotAuthenticated"
  shows "handle_command_static tag (Cmd_List r []) server_handlers st w = handle_command_static tag (Cmd_List [] r) server_handlers st w \<and>
    list_handle tag (snd (projr (static_call (Cmd_List [] [])))) st w =
      respond (Response_Bad (Some tag) ''Invalid LIST syntax'') (finish None) w"
proof -
  have "split_whitespace '' '' = []" by (simp add: split_whitespace_Nil_iff is_whitespace_def)
  then show ?thesis using assms list_handle_padded [OF assms(1)]
    by (simp add: handle_command_static_def ch_handle_def ch_get_def server_handlers_get list_handler_def list_handle_def list_parse_args_def)
qed

text \<open>
  C32: every command but the nine that the server implements is refused with one BAD, whatever the
  state of the session, and has no effect: EXAMINE, CLOSE and EXPUNGE, which the parser knows,
  as well as APPEND, FETCH, STORE and all others, which it does not.
\<close>

theorem unimplemented_commands_refused:
  assumes "split_whitespace line = n # ws" and "parse_command tag line = Ok cmd"
    and "to_uppercase n \<notin> {''CAPABILITY'', ''NOOP'', ''LOGOUT'', ''STARTTLS'', ''LOGIN'', ''SELECT'', ''CREATE'', ''DELETE'', ''LIST''}"
  shows "handle_command_static tag cmd server_handlers st w =
    (tell (Response_Bad (Some tag) (if to_uppercase n \<in> {''EXAMINE'', ''CLOSE'', ''EXPUNGE''} then ''Command not yet implemented''
       else ''Unknown command: '' @ to_uppercase n)) w, None)"
proof (cases "to_uppercase n \<in> {''EXAMINE'', ''CLOSE'', ''EXPUNGE''}")
  case True
  then have "static_call cmd = Inl ''Command not yet implemented''"
    using assms(1,2) by (auto simp: parse_command_def Let_def split: if_splits)
  then show ?thesis using True by (simp add: handle_command_static_def)
next
  case False
  then have "to_uppercase n \<notin> set known_names" using assms(3) by (simp add: known_names_def)
  then obtain args where cmd: "cmd = Cmd_Custom (to_uppercase n) args"
    using parse_command_custom [OF assms(1), of tag] assms(2) by auto
  have up: "to_uppercase ''NOOP'' = ''NOOP''" "to_uppercase ''SELECT'' = ''SELECT''" "to_uppercase ''CREATE'' = ''CREATE''"
    "to_uppercase ''LOGIN'' = ''LOGIN''" "to_uppercase ''LOGOUT'' = ''LOGOUT''" "to_uppercase ''CAPABILITY'' = ''CAPABILITY''" by code_simp+
  have "server_handlers (to_uppercase n) = None" using assms(3)
    by (auto simp: server_handlers_def register_all_lookup ch_new_def builtin_handlers_def handler_defs up server_handlers_get)
  then show ?thesis using False cmd by (simp add: handle_command_static_def ch_handle_def ch_get_def)
qed

theorem unimplemented_commands_refused_witness:
  "handle_command_static ''A1'' (Cmd_Custom ''FETCH'' ''1 FLAGS'') server_handlers (SS_Selected ''amy'' ''INBOX'') (example_world []) =
     (tell (Response_Bad (Some ''A1'') ''Unknown command: FETCH'') (example_world []), None)"
proof -
  have words: "split_whitespace ''fetch 1 FLAGS'' = ''fetch'' # [''1'', ''FLAGS'']" and up: "to_uppercase ''fetch'' = ''FETCH''"
    by code_simp+
  have "parse_command ''A1'' ''fetch 1 FLAGS'' = Ok (Cmd_Custom ''FETCH'' ''1 FLAGS'')"
    by (simp add: parse_command_def Let_def words up)
  from unimplemented_commands_refused [OF words this] show ?thesis by (simp add: up)
qed

end
